(* ===== verification/Hv_Prelude.thy ===== *)
theory Hv_Prelude
  imports Main "HOL-Library.Word"
begin

unbundle bit_operations_syntax

text \<open>
  Shared vocabulary of the development: the machine integers of the C code as words, little-endian
  encodings of integers as byte lists, the guest's memory as a function from addresses to bytes
  with loads and stores of byte runs, and the interface \<open>codec\<close> of a fixed-size object
  representation.  Every component reads and writes guest memory, sockets and files through these.

  \<open>guest_mem + a\<close> of the C code is the address \<open>a\<close> of a \<open>gmem\<close>.  The C code does no bounds check
  of the offsets it forms, so a \<open>gmem\<close> is a total function on the 64-bit offsets and the address
  arithmetic wraps as \<open>size_t\<close> does.
\<close>

type_synonym u8 = "8 word"
type_synonym u16 = "16 word"
type_synonym u32 = "32 word"
type_synonym u64 = "64 word"
type_synonym bytes = "u8 list"
type_synonym gmem = "u64 \<Rightarrow> u8"

named_theorems mem_simps \<open>loads and stores of guest memory\<close>
named_theorems layout_defs \<open>the constants of the memory layout\<close>

section \<open>Little-endian integers\<close>

primrec le_bytes :: "nat \<Rightarrow> nat \<Rightarrow> bytes" where
  "le_bytes 0 v = []"
| "le_bytes (Suc n) v = word_of_nat (v mod 256) # le_bytes n (v div 256)"

primrec le_val :: "bytes \<Rightarrow> nat" where
  "le_val [] = 0"
| "le_val (b # bs) = unat b + 256 * le_val bs"

lemma unat_less_exp: "unat (w :: 'a::len word) < 2 ^ LENGTH('a)"
  by (rule unsigned_less)

lemma length_le_bytes [simp]: "length (le_bytes n v) = n"
  by (induction n arbitrary: v) auto

lemma le_val_le_bytes: "le_val (le_bytes n v) = v mod 256 ^ n"
proof (induction n arbitrary: v)
  case 0
  then show ?case by simp
next
  case (Suc n)
  have "unat (word_of_nat (v mod 256) :: u8) = v mod 256"
    by (simp add: unat_of_nat)
  then show ?case
    using Suc by (simp add: mod_mult2_eq)
qed

lemma le_val_bound: "le_val bs < 256 ^ length bs"
proof (induction bs)
  case Nil
  then show ?case by simp
next
  case (Cons b bs)
  have "unat b < 256"
    using unat_less_exp [of b] by simp
  with Cons show ?case by simp
qed

lemma le_bytes_le_val: "le_bytes (length bs) (le_val bs) = bs"
proof (induction bs)
  case Nil
  then show ?case by simp
next
  case (Cons b bs)
  have "unat b < 256"
    using unat_less_exp [of b] by simp
  with Cons show ?case by simp
qed

definition enc16 :: "u16 \<Rightarrow> bytes" where "enc16 w = le_bytes 2 (unat w)"
definition dec16 :: "bytes \<Rightarrow> u16" where "dec16 bs = word_of_nat (le_val bs)"
definition enc32 :: "u32 \<Rightarrow> bytes" where "enc32 w = le_bytes 4 (unat w)"
definition dec32 :: "bytes \<Rightarrow> u32" where "dec32 bs = word_of_nat (le_val bs)"
definition enc64 :: "u64 \<Rightarrow> bytes" where "enc64 w = le_bytes 8 (unat w)"
definition dec64 :: "bytes \<Rightarrow> u64" where "dec64 bs = word_of_nat (le_val bs)"

section \<open>Memory\<close>

definition load_bytes :: "gmem \<Rightarrow> u64 \<Rightarrow> nat \<Rightarrow> bytes" where
  "load_bytes m a n = map (\<lambda>i. m (a + word_of_nat i)) [0..<n]"

definition store_bytes :: "gmem \<Rightarrow> u64 \<Rightarrow> bytes \<Rightarrow> gmem" where
  "store_bytes m a bs = (\<lambda>x. let i = unat (x - a) in if i < length bs then bs ! i else m x)"

definition load16 :: "gmem \<Rightarrow> u64 \<Rightarrow> u16" where "load16 m a = dec16 (load_bytes m a 2)"
definition load32 :: "gmem \<Rightarrow> u64 \<Rightarrow> u32" where "load32 m a = dec32 (load_bytes m a 4)"
definition load64 :: "gmem \<Rightarrow> u64 \<Rightarrow> u64" where "load64 m a = dec64 (load_bytes m a 8)"
definition store16 :: "gmem \<Rightarrow> u64 \<Rightarrow> u16 \<Rightarrow> gmem" where "store16 m a w = store_bytes m a (enc16 w)"
definition store32 :: "gmem \<Rightarrow> u64 \<Rightarrow> u32 \<Rightarrow> gmem" where "store32 m a w = store_bytes m a (enc32 w)"
definition store64 :: "gmem \<Rightarrow> u64 \<Rightarrow> u64 \<Rightarrow> gmem" where "store64 m a w = store_bytes m a (enc64 w)"

text \<open>Two byte runs \<open>[a, a+n)\<close> and \<open>[b, b+k)\<close> share no address (modulo the wrap-around).\<close>

definition disjoint_runs :: "u64 \<Rightarrow> nat \<Rightarrow> u64 \<Rightarrow> nat \<Rightarrow> bool" where
  "disjoint_runs a n b k \<longleftrightarrow> n \<le> unat (b - a) \<and> k \<le> unat (a - b)"

text \<open>An address is in the run \<open>[a, a+n)\<close>.\<close>

definition in_run :: "u64 \<Rightarrow> u64 \<Rightarrow> nat \<Rightarrow> bool" where
  "in_run x a n \<longleftrightarrow> unat (x - a) < n"

lemma length_load_bytes [simp]: "length (load_bytes m a n) = n"
  by (simp add: load_bytes_def)

lemma store_bytes_Nil [simp]: "store_bytes m a [] = m"
  by (simp add: store_bytes_def)

lemma load_bytes_0 [simp]: "load_bytes m a 0 = []"
  by (simp add: load_bytes_def)

lemma load_bytes_nth: "i < n \<Longrightarrow> load_bytes m a n ! i = m (a + word_of_nat i)"
  by (simp add: load_bytes_def)

lemma store_bytes_in [mem_simps]: "in_run x a (length bs) \<Longrightarrow> store_bytes m a bs x = bs ! unat (x - a)"
  by (simp add: store_bytes_def in_run_def)

lemma store_bytes_out [mem_simps]: "\<not> in_run x a (length bs) \<Longrightarrow> store_bytes m a bs x = m x"
  by (simp add: store_bytes_def in_run_def)

lemma unat_word_of_nat_u64: "i < 2 ^ 64 \<Longrightarrow> unat (word_of_nat i :: u64) = i"
  by (simp add: unat_of_nat)

lemma unat_diff_swap:
  assumes "(a :: u64) \<noteq> b"
  shows "unat (a - b) + unat (b - a) = 2 ^ 64"
proof -
  have "unat a \<noteq> unat b"
    using assms by (simp add: word_unat_eq_iff)
  then show ?thesis
    using unat_less_exp [of a] unat_less_exp [of b]
    by (simp add: unat_sub_if_size word_size)
qed

lemma load_store_same [mem_simps]:
  assumes "length bs = n" and "n \<le> 2 ^ 64"
  shows "load_bytes (store_bytes m a bs) a n = bs"
proof (rule nth_equalityI)
  show "length (load_bytes (store_bytes m a bs) a n) = length bs"
    using assms by simp
next
  fix i assume "i < length (load_bytes (store_bytes m a bs) a n)"
  then have "i < n" and "unat (word_of_nat i :: u64) = i"
    using assms by (simp_all add: unat_word_of_nat_u64)
  then show "load_bytes (store_bytes m a bs) a n ! i = bs ! i"
    using assms by (simp add: load_bytes_nth store_bytes_def Let_def)
qed

lemma disjoint_runs_sym: "disjoint_runs a n b k \<longleftrightarrow> disjoint_runs b k a n"
  by (auto simp: disjoint_runs_def)

lemma disjoint_runs_not_in:
  assumes "disjoint_runs a n b k" and "i < n"
  shows "\<not> in_run (a + word_of_nat i) b k"
proof -
  have ba: "n \<le> unat (b - a)" and ab: "k \<le> unat (a - b)"
    using assms(1) by (auto simp: disjoint_runs_def)
  have lt: "unat (b - a) < 2 ^ 64"
    using unat_less_exp [of "b - a"] by simp
  then have i: "unat (word_of_nat i :: u64) = i"
    using assms(2) ba by (intro unat_word_of_nat_u64) linarith
  have "a \<noteq> b"
    using ba assms(2) by auto
  then have neg: "unat (a - b) + unat (b - a) = 2 ^ 64"
    by (rule unat_diff_swap)
  have "unat (a + word_of_nat i - b) = unat ((a - b) + word_of_nat i)"
    by (simp add: algebra_simps)
  also have "\<dots> = unat (a - b) + i"
  proof -
    have "unat (a - b) + i < 2 ^ 64"
      using neg ba assms(2) by linarith
    then show ?thesis
      using i by (simp add: unat_add_lem [THEN iffD1])
  qed
  finally show ?thesis
    using ab by (simp add: in_run_def)
qed

lemma load_store_other [mem_simps]:
  assumes "disjoint_runs a n b (length bs)"
  shows "load_bytes (store_bytes m b bs) a n = load_bytes m a n"
proof (rule nth_equalityI)
  fix i assume "i < length (load_bytes (store_bytes m b bs) a n)"
  then have "i < n" by simp
  then show "load_bytes (store_bytes m b bs) a n ! i = load_bytes m a n ! i"
    using disjoint_runs_not_in [OF assms] by (simp add: load_bytes_nth store_bytes_out)
qed simp

section \<open>Objects of a fixed size\<close>

text \<open>
  The C code moves objects as runs of bytes: \<open>memcpy\<close>, \<open>fread\<close> and \<open>fwrite\<close> of a struct,
  \<open>send_data(&x, sizeof(x))\<close>, a pointer cast into guest memory.  What all these rely on is that the
  object representation has a fixed size and gives the object back.
\<close>

locale codec =
  fixes enc :: "'a \<Rightarrow> bytes" and dec :: "bytes \<Rightarrow> 'a" and sz :: nat
  assumes length_enc: "length (enc x) = sz"
    and dec_enc: "dec (enc x) = x"
    and sz_small: "sz \<le> 2 ^ 64"
begin

lemma load_store: "dec (load_bytes (store_bytes m a (enc x)) a sz) = x"
  using length_enc sz_small by (simp add: load_store_same dec_enc)

lemma load_store_disjoint:
  "disjoint_runs a n b sz \<Longrightarrow> load_bytes (store_bytes m b (enc x)) a n = load_bytes m a n"
  by (simp add: load_store_other length_enc)

lemma store_outside: "\<not> in_run y a sz \<Longrightarrow> store_bytes m a (enc x) y = m y"
  by (simp add: store_bytes_out length_enc)

lemma enc_inject: "enc x = enc y \<longleftrightarrow> x = y"
  by (metis dec_enc)

lemma dec_take: "dec (take sz (enc x @ rest)) = x"
  by (simp add: length_enc dec_enc)

lemma drop_enc: "drop sz (enc x @ rest) = rest"
  by (simp add: length_enc)

end

locale bicodec = codec +
  assumes enc_dec: "length bs = sz \<Longrightarrow> enc (dec bs) = bs"
begin

lemma store_load: "load_bytes (store_bytes m a (enc (dec (load_bytes m' b sz)))) a sz = load_bytes m' b sz"
  using sz_small by (simp add: enc_dec load_store_same)

lemma dec_inject: "length bs = sz \<Longrightarrow> length cs = sz \<Longrightarrow> dec bs = dec cs \<longleftrightarrow> bs = cs"
  by (metis enc_dec)

end

lemma le_val_word: "length bs = n \<Longrightarrow> le_val bs < 2 ^ (8 * n)"
  using le_val_bound [of bs] by (simp add: power_mult)

interpretation c16: bicodec enc16 dec16 2
proof
  fix w :: u16
  show "dec16 (enc16 w) = w"
    using unat_less_exp [of w] by (simp add: enc16_def dec16_def le_val_le_bytes)
next
  fix bs :: bytes assume "length bs = 2"
  then show "enc16 (dec16 bs) = bs"
    using le_val_word [of bs 2] le_bytes_le_val [of bs] by (simp add: enc16_def dec16_def unat_of_nat)
qed (simp_all add: enc16_def)

interpretation c32: bicodec enc32 dec32 4
proof
  fix w :: u32
  show "dec32 (enc32 w) = w"
    using unat_less_exp [of w] by (simp add: enc32_def dec32_def le_val_le_bytes)
next
  fix bs :: bytes assume "length bs = 4"
  then show "enc32 (dec32 bs) = bs"
    using le_val_word [of bs 4] le_bytes_le_val [of bs] by (simp add: enc32_def dec32_def unat_of_nat)
qed (simp_all add: enc32_def)

interpretation c64: bicodec enc64 dec64 8
proof
  fix w :: u64
  show "dec64 (enc64 w) = w"
    using unat_less_exp [of w] by (simp add: enc64_def dec64_def le_val_le_bytes)
next
  fix bs :: bytes assume "length bs = 8"
  then show "enc64 (dec64 bs) = bs"
    using le_val_word [of bs 8] le_bytes_le_val [of bs] by (simp add: enc64_def dec64_def unat_of_nat)
qed (simp_all add: enc64_def)

lemma load16_store16 [simp]: "load16 (store16 m a w) a = w"
  by (simp add: load16_def store16_def c16.load_store)

lemma load32_store32 [simp]: "load32 (store32 m a w) a = w"
  by (simp add: load32_def store32_def c32.load_store)

lemma load64_store64 [simp]: "load64 (store64 m a w) a = w"
  by (simp add: load64_def store64_def c64.load_store)

lemma load64_store64_other [mem_simps]:
  "disjoint_runs a 8 b 8 \<Longrightarrow> load64 (store64 m b w) a = load64 m a"
  by (simp add: load64_def store64_def c64.load_store_disjoint)

lemma load64_store32_other [mem_simps]: "disjoint_runs a 8 b 4 \<Longrightarrow> load64 (store32 m b w) a = load64 m a"
  by (simp add: load64_def store32_def c32.load_store_disjoint)

lemma load32_store64_other [mem_simps]: "disjoint_runs a 4 b 8 \<Longrightarrow> load32 (store64 m b w) a = load32 m a"
  by (simp add: load32_def store64_def c64.load_store_disjoint)

lemma load32_store32_other [mem_simps]: "disjoint_runs a 4 b 4 \<Longrightarrow> load32 (store32 m b w) a = load32 m a"
  by (simp add: load32_def store32_def c32.load_store_disjoint)

lemma store64_outside [mem_simps]: "\<not> in_run y a 8 \<Longrightarrow> store64 m a w y = m y"
  by (simp add: store64_def c64.store_outside)

lemma store32_outside [mem_simps]: "\<not> in_run y a 4 \<Longrightarrow> store32 m a w y = m y"
  by (simp add: store32_def c32.store_outside)

lemma store16_outside [mem_simps]: "\<not> in_run y a 2 \<Longrightarrow> store16 m a w y = m y"
  by (simp add: store16_def c16.store_outside)

section \<open>Words\<close>

lemma bit_push_1: "k < 64 \<Longrightarrow> bit (push_bit k (1::u64)) n \<longleftrightarrow> n = k"
  by (auto simp: bit_simps)

lemma bit_ones_shifted: "bit (push_bit k (-1::u64)) n \<longleftrightarrow> k \<le> n \<and> n < 64"
  by (auto simp: bit_simps)

lemma or_disjoint_add: "(x::u64) AND y = 0 \<Longrightarrow> x OR y = x + y"
  using word_plus_and_or [of x y] by simp

lemma bit_63_last: "n < 64 \<Longrightarrow> \<not> n < 63 \<Longrightarrow> n = (63::nat)"
  by simp

lemma odd_two: "q < 2 \<Longrightarrow> odd q \<longleftrightarrow> q = (1::nat)"
  by presburger

lemma not_bit_63: "\<not> bit (va::u64) 63 \<longleftrightarrow> unat va < 2 ^ 63"
proof -
  have d: "unat va div 2 ^ 63 < 2"
    using unat_less_exp [of va] by simp
  have "bit va 63 \<longleftrightarrow> odd (unat va div 2 ^ 63)"
    by (metis bit_iff_odd bit_unsigned_iff possible_bit_nat)
  also have "\<dots> \<longleftrightarrow> unat va div 2 ^ 63 = 1"
    using d odd_two by blast
  also have "\<dots> \<longleftrightarrow> \<not> unat va < 2 ^ 63"
    using d by (simp add: div_less_iff_less_mult) arith
  finally show ?thesis by simp
qed

lemma add_in_page:
  assumes "unat (take_bit K va) + i < 2 ^ K" and "K \<le> 63"
  shows "drop_bit K (va + word_of_nat i) = drop_bit K (va :: u64)"
    and "take_bit K (va + word_of_nat i) = take_bit K va + word_of_nat i"
    and "bit (va + word_of_nat i) 63 \<longleftrightarrow> bit va 63"
proof -
  have tb: "unat (take_bit K w) = unat w mod 2 ^ K" for w :: u64
    unfolding unsigned_take_bit_eq by (rule take_bit_eq_mod)
  have db: "unat (drop_bit K w) = unat w div 2 ^ K" for w :: u64
    unfolding unat_drop_bit_eq by (rule drop_bit_eq_div)
  have r: "unat va mod 2 ^ K + i < 2 ^ K"
    using assms(1) by (simp only: tb)
  have dv: "(2::nat) ^ 64 = 2 ^ K * 2 ^ (64 - K)"
    using assms(2) by (simp flip: power_add)
  then have "unat va div 2 ^ K < 2 ^ (64 - K)"
    using unat_less_exp [of va] by (simp add: less_mult_imp_div_less mult.commute)
  then have "2 ^ K * (unat va div 2 ^ K) + 2 ^ K \<le> 2 ^ 64"
    unfolding dv by (metis Suc_leI add.commute mult_Suc_right mult_le_mono2)
  then have lt: "unat va + i < 2 ^ 64"
    using r mult_div_mod_eq [of "2 ^ K" "unat va"] by linarith
  have i: "unat (word_of_nat i :: u64) = i"
    using lt by (intro unat_word_of_nat_u64) simp
  have u: "unat (va + word_of_nat i) = unat va + i"
    using lt i by (subst unat_add_lem [THEN iffD1]) simp_all
  define q where "q = unat va div 2 ^ K"
  have dm: "(unat va + i) div 2 ^ K = q" "(unat va + i) mod 2 ^ K = unat va mod 2 ^ K + i"
  proof -
    have "unat va + i = (unat va mod 2 ^ K + i) + (unat va div 2 ^ K) * 2 ^ K"
      using mod_div_mult_eq [of "unat va" "2 ^ K"] by linarith
    then have e: "unat va + i = (unat va mod 2 ^ K + i) + q * 2 ^ K"
      by (simp only: q_def)
    show "(unat va + i) div 2 ^ K = q" "(unat va + i) mod 2 ^ K = unat va mod 2 ^ K + i"
      unfolding e using r by simp_all
  qed
  show d: "drop_bit K (va + word_of_nat i) = drop_bit K va"
    by (simp only: word_unat_eq_iff db u dm(1) q_def)
  have "bit w 63 \<longleftrightarrow> bit (drop_bit K w) (63 - K)" for w :: u64
    using assms(2) by (simp add: bit_simps)
  with d show "bit (va + word_of_nat i) 63 \<longleftrightarrow> bit va 63" by simp
  have K64: "(2::nat) ^ K \<le> 2 ^ 64"
    using assms(2) by (intro power_increasing) auto
  have "unat (take_bit K va + word_of_nat i) = unat (take_bit K va) + i"
    using assms(1) i K64 by (subst unat_add_lem [THEN iffD1]) simp_all
  then show "take_bit K (va + word_of_nat i) = take_bit K va + word_of_nat i"
    by (simp only: word_unat_eq_iff tb u dm(2))
qed

lemma bit_small: "(va::u64) < 2 ^ k \<Longrightarrow> bit va n \<Longrightarrow> n < k"
  by (metis bit_take_bit_iff  less_mask_eq  take_bit_eq_mask)

lemma and_single_bit: "(x::u64) AND push_bit k 1 \<noteq> 0 \<longleftrightarrow> bit x k"
  by (simp add: bit_iff_and_push_bit_not_eq_0)

lemma word_unat_inverse: "word_of_nat (unat (w :: u64)) = w"
  by simp

lemma push_bit_drop_bit_va: "push_bit n (drop_bit n (va::u64)) = va AND NOT (mask n)"
  by (rule bit_eqI) (auto simp: bit_simps)

lemma low_split: "(va AND NOT (mask n)) + take_bit n va = (va::u64)"
proof -
  have "(va AND NOT (mask n)) AND take_bit n va = 0"
    by (rule bit_eqI) (auto simp: bit_simps)
  then have "(va AND NOT (mask n)) + take_bit n va = (va AND NOT (mask n)) OR take_bit n va"
    by (rule or_disjoint_add [symmetric])
  also have "\<dots> = va"
    by (rule bit_eqI) (auto simp: bit_simps)
  finally show ?thesis .
qed

section \<open>Zeroed memory\<close>

lemma le_val_zeros: "le_val (replicate n 0) = 0"
  by (induction n) auto

lemma load64_zero [simp]: "load64 (\<lambda>_. 0) a = 0"
  by (simp add: load64_def load_bytes_def dec64_def map_replicate_trivial map_replicate_const le_val_zeros)

section \<open>Runs of addresses and arrays of 64-bit words\<close>

lemma disjoint_runs_nat:
  assumes "unat a + n \<le> unat b" and "unat b + k \<le> 2 ^ 64" and "0 < n"
  shows "disjoint_runs a n b k"
proof -
  have "unat (b - a) = unat b - unat a"
    using assms(1) by (simp add: unat_sub word_le_nat_alt)
  moreover have "unat (a - b) = (if a = b then 0 else 2 ^ 64 - unat (b - a))"
    using unat_diff_swap [of a b] by auto
  ultimately show ?thesis
    using assms unat_less_exp [of a] by (auto simp: disjoint_runs_def)
qed

lemmas disjoint_runs_nat' = disjoint_runs_nat [THEN disjoint_runs_sym [THEN iffD1]]

lemma disj_num: "unat a + n \<le> unat b \<or> unat b + k \<le> unat a \<Longrightarrow> 0 < n \<Longrightarrow> 0 < k \<Longrightarrow> unat a + n \<le> 2^64 \<Longrightarrow> unat b + k \<le> 2 ^ 64 \<Longrightarrow> disjoint_runs a n b k"
  using disjoint_runs_nat disjoint_runs_nat' by blast

lemma in_run_nat: "unat a + n \<le> 2 ^ 64 \<Longrightarrow> in_run x a n \<longleftrightarrow> unat a \<le> unat x \<and> unat x < unat a + n"
  using unat_less_exp [of x] by (auto simp: in_run_def unat_sub_if_size word_size)

definition store_array :: "(nat \<Rightarrow> u64) \<Rightarrow> nat \<Rightarrow> u64 \<Rightarrow> gmem \<Rightarrow> gmem" where
  "store_array f n base m = fold (\<lambda>i m. store64 m (base + 8 * word_of_nat i) (f i)) [0..<n] m"

lemma store_array_Suc: "store_array f (Suc n) base m = store64 (store_array f n base m) (base + 8 * word_of_nat n) (f n)"
  by (simp add: store_array_def)

lemma unat_array_slot:
  assumes "unat (base :: u64) + 8 * n \<le> 2 ^ 64" and "i < n"
  shows "unat (base + 8 * word_of_nat i) = unat base + 8 * i"
proof -
  have "unat (8 * word_of_nat i :: u64) = 8 * i"
    using assms by (simp add: unat_word_ariths unat_of_nat)
  then show ?thesis
    using assms by (subst unat_add_lem [THEN iffD1]) simp_all
qed

lemma load_store_array_other:
  assumes "unat base + 8 * n \<le> 2 ^ 64"
    and "unat a + 8 \<le> unat base \<or> unat base + 8 * n \<le> unat a \<and> unat a + 8 \<le> 2 ^ 64"
  shows "load64 (store_array f n base m) a = load64 m a"
  using assms
proof (induction n)
  case 0
  then show ?case by (simp add: store_array_def)
next
  case (Suc n)
  have u: "unat (base + 8 * word_of_nat n) = unat base + 8 * n"
    by (rule unat_array_slot [OF Suc.prems(1)]) simp
  have "disjoint_runs a 8 (base + 8 * word_of_nat n) 8"
    using Suc.prems(2)
  proof
    assume "unat a + 8 \<le> unat base"
    then show ?thesis using Suc.prems(1) by (intro disjoint_runs_nat) (simp_all add: u)
  next
    assume "unat base + 8 * Suc n \<le> unat a \<and> unat a + 8 \<le> 2 ^ 64"
    then show ?thesis by (intro disjoint_runs_nat') (simp_all add: u)
  qed
  moreover have "load64 (store_array f n base m) a = load64 m a"
    using Suc.prems by (intro Suc.IH) auto
  ultimately show ?case
    by (simp add: store_array_Suc load64_store64_other)
qed

lemma load_store_array:
  assumes "unat base + 8 * n \<le> 2 ^ 64" and "j < n"
  shows "load64 (store_array f n base m) (base + 8 * word_of_nat j) = f j"
  using assms
proof (induction n)
  case (Suc n)
  show ?case
  proof (cases "j = n")
    case False
    then have j: "j < n" using Suc.prems by simp
    have "disjoint_runs (base + 8 * word_of_nat j) 8 (base + 8 * word_of_nat n) 8"
      using Suc.prems j unat_array_slot [OF Suc.prems(1), of j] unat_array_slot [OF Suc.prems(1), of n]
      by (intro disjoint_runs_nat) simp_all
    then show ?thesis
      using Suc.IH Suc.prems j by (simp add: store_array_Suc load64_store64_other)
  qed (simp add: store_array_Suc)
qed simp

lemma store_array_outside:
  assumes "unat base + 8 * n \<le> 2 ^ 64" and "\<not> in_run x base (8 * n)"
  shows "store_array f n base m x = m x"
  using assms
proof (induction n)
  case 0
  then show ?case by (simp add: store_array_def)
next
  case (Suc n)
  have u: "unat (base + 8 * word_of_nat n) = unat base + 8 * n"
    by (rule unat_array_slot [OF Suc.prems(1)]) simp
  have "\<not> in_run x base (8 * n)" and "\<not> in_run x (base + 8 * word_of_nat n) 8"
    using Suc.prems u by (auto simp: in_run_nat)
  then show ?case
    using Suc.IH Suc.prems by (simp add: store_array_Suc store64_outside)
qed

section \<open>Memories that agree on a run\<close>

lemma unat_plus_le: "unat (x::u64) + unat y \<le> unat (z::u64) \<Longrightarrow> unat (x + y) = unat x + unat y"
  using unat_less_exp [of z] by (subst unat_add_lem [THEN iffD1]) simp_all

lemma word_of_nat_plus_unat: "a + word_of_nat (unat (s::u64) + i) = a + s + word_of_nat i"
  by (simp add: add.assoc)

lemma load_bytes_cong: "(\<And>x. in_run x a n \<Longrightarrow> m x = m' x) \<Longrightarrow> n \<le> 2 ^ 64 \<Longrightarrow> load_bytes m a n = load_bytes m' a n"
  unfolding load_bytes_def by (intro map_cong refl) (simp add: in_run_def unat_word_of_nat_u64)

lemma load64_cong: "(\<And>x. in_run x a 8 \<Longrightarrow> m x = m' x) \<Longrightarrow> load64 m a = load64 m' a"
  unfolding load64_def using load_bytes_cong [of a 8 m m'] by simp

lemma load32_cong: "(\<And>x. in_run x a 4 \<Longrightarrow> m x = m' x) \<Longrightarrow> load32 m a = load32 m' a"
  unfolding load32_def using load_bytes_cong [of a 4 m m'] by simp

lemma in_run_shift: "in_run x (a + word_of_nat k) n \<Longrightarrow> k + n \<le> N \<Longrightarrow> N < 2 ^ 64 \<Longrightarrow> in_run x a N"
proof -
  assume r: "in_run x (a + word_of_nat k) n" and k: "k + n \<le> N" "N < 2 ^ 64"
  have "unat (x - (a + word_of_nat k)) < n"
    using r by (simp add: in_run_def)
  moreover have "x - a = (x - (a + word_of_nat k)) + word_of_nat k"
    by simp
  moreover have "unat (word_of_nat k :: u64) = k"
    using k by (intro unat_word_of_nat_u64) simp
  ultimately have "unat (x - a) \<le> unat (x - (a + word_of_nat k)) + k"
    using unat_plus_if_size  [of "x - (a + word_of_nat k)" "word_of_nat k"] by (auto split: if_splits)
  then show ?thesis
    using k \<open>unat (x - (a + word_of_nat k)) < n\<close> by (simp add: in_run_def)
qed

lemma load64_eqI: "load_bytes m a 8 = load_bytes m' a 8 \<Longrightarrow> load64 m a = load64 m' a"
  by (simp add: load64_def)

lemma disjoint_runs_sub:
  assumes "disjoint_runs a n b k" and "i + m \<le> n" and "0 < m"
  shows "disjoint_runs (a + word_of_nat i) m b k"
proof -
  have ba: "n \<le> unat (b - a)" and ab: "k \<le> unat (a - b)"
    using assms(1) by (auto simp: disjoint_runs_def)
  then have "a \<noteq> b" and i: "i < unat (b - a)"
    using assms(2,3) by auto
  have u: "unat (word_of_nat i :: u64) = i"
    using i unat_less_exp [of "b - a"] by (intro unat_word_of_nat_u64) simp
  have "unat ((b - a) - word_of_nat i) = unat (b - a) - i"
    using i u by (subst unat_sub) (simp_all add: word_le_nat_alt)
  moreover have "b - (a + word_of_nat i) = (b - a) - word_of_nat i"
    by simp
  ultimately have 1: "m \<le> unat (b - (a + word_of_nat i))"
    using ba assms(2) by (simp only:)
  have "unat ((a - b) + word_of_nat i) = unat (a - b) + i"
    using unat_diff_swap [OF \<open>a \<noteq> b\<close>] i u by (subst unat_add_lem [THEN iffD1]) simp_all
  moreover have "a + word_of_nat i - b = (a - b) + word_of_nat i"
    by simp
  ultimately have "unat (a + word_of_nat i - b) = unat (a - b) + i"
    by (simp only:)
  then have "k \<le> unat (a + word_of_nat i - b)"
    using ab by linarith
  with 1 show ?thesis by (simp add: disjoint_runs_def)
qed

text \<open>Runs of addresses that are pairwise disjoint.\<close>

primrec apart_runs :: "(u64 \<times> nat) list \<Rightarrow> bool" where
  "apart_runs [] \<longleftrightarrow> True"
| "apart_runs (r # rs) \<longleftrightarrow> list_all (\<lambda>s. disjoint_runs (fst r) (snd r) (fst s) (snd s)) rs \<and> apart_runs rs"

lemma apart_runs_nth: "apart_runs rs \<Longrightarrow> i < length rs \<Longrightarrow> j < length rs \<Longrightarrow> i \<noteq> j \<Longrightarrow>
   disjoint_runs (fst (rs ! i)) (snd (rs ! i)) (fst (rs ! j)) (snd (rs ! j))"
proof (induction rs arbitrary: i j)
  case (Cons r rs)
  show ?case
  proof (cases i)
    case 0
    then obtain j' where "j = Suc j'" using Cons.prems by (cases j) auto
    with Cons 0 show ?thesis by (simp add: list_all_length)
  next
    case (Suc i')
    with Cons show ?thesis
      by (cases j) (auto simp: list_all_length intro: disjoint_runs_sym [THEN iffD1])
  qed
qed simp

lemma apart_runs_append: "apart_runs (rs @ qs) \<longleftrightarrow> apart_runs rs \<and> apart_runs qs \<and>
   (\<forall>r \<in> set rs. \<forall>q \<in> set qs. disjoint_runs (fst r) (snd r) (fst q) (snd q))"
  by (induction rs) (auto simp: list_all_iff)

text \<open>Fields of a block at different offsets.\<close>

lemma block_fields_apart:
  assumes "p + m \<le> q" and "q + k \<le> 2 ^ 64" and "0 < m" and "0 < k"
  shows "disjoint_runs (arg + word_of_nat p) m (arg + word_of_nat q) k"
proof -
  have u: "unat (word_of_nat q - word_of_nat p :: u64) = q - p"
    using assms by (subst unat_sub) (simp_all add: word_le_nat_alt unat_word_of_nat_u64)
  have "(word_of_nat q :: u64) \<noteq> word_of_nat p"
    using u assms(1,3) by force
  from unat_diff_swap [OF this] u have "unat (word_of_nat p - word_of_nat q :: u64) = 2 ^ 64 - (q - p)"
    by simp
  then show ?thesis
    using u assms by (auto simp: disjoint_runs_def)
qed

end
