(* ===== verification/Translation_Spec.thy ===== *)
theory Translation_Spec
  imports Hv_Prelude
begin

text \<open>
  What the hypercalls of \<open>src/uhyve.c\<close> rely on in \<open>virt_to_phys\<close>, whichever architecture file
  provides it: for an address it translates (\<open>tr_ok\<close>) the returned page end lies behind the returned
  physical address, every address up to that end is translated with the same offset, and the
  translation depends on guest memory only through the table entries it reads (\<open>tr_reads\<close>).  From these
  laws follows that a run of virtual addresses inside one page is a run of guest memory.
\<close>

locale translation =
  fixes v2p :: "gmem \<Rightarrow> u64 \<Rightarrow> u64 \<times> u64" and tr_ok :: "gmem \<Rightarrow> u64 \<Rightarrow> bool"
    and tr_reads :: "gmem \<Rightarrow> u64 \<Rightarrow> u64 list"
  assumes progress: "tr_ok m va \<Longrightarrow> v2p m va = (pa, pe) \<Longrightarrow> pa \<noteq> pe"
    and linear: "tr_ok m va \<Longrightarrow> v2p m va = (pa, pe) \<Longrightarrow> i < unat (pe - pa) \<Longrightarrow>
      v2p m (va + word_of_nat i) = (pa + word_of_nat i, pe)"
    and local: "\<forall>a \<in> set (tr_reads m va). load64 m' a = load64 m a \<Longrightarrow> v2p m' va = v2p m va"
begin

text \<open>The bytes a guest sees at the virtual addresses \<open>[va, va+n)\<close>.\<close>

definition virt_bytes :: "gmem \<Rightarrow> u64 \<Rightarrow> nat \<Rightarrow> bytes" where
  "virt_bytes m va n = map (\<lambda>i. m (fst (v2p m (va + word_of_nat i)))) [0..<n]"

lemma length_virt_bytes [simp]: "length (virt_bytes m va n) = n"
  by (simp add: virt_bytes_def)

lemma virt_bytes_0 [simp]: "virt_bytes m va 0 = []"
  by (simp add: virt_bytes_def)

lemma virt_bytes_page:
  assumes "tr_ok m va" and "v2p m va = (pa, pe)" and "n \<le> unat (pe - pa)"
  shows "virt_bytes m va n = load_bytes m pa n"
  unfolding virt_bytes_def load_bytes_def
  using assms linear [OF assms(1,2)] by (intro map_cong) auto

lemma virt_bytes_append:
  "virt_bytes m va (n + k) = virt_bytes m va n @ virt_bytes m (va + word_of_nat n) k"
  unfolding virt_bytes_def
  by (rule nth_equalityI) (auto simp: nth_append add.assoc simp flip: of_nat_add)

lemma page_step:
  assumes "tr_ok m va" and "v2p m va = (pa, pe)" and "n \<noteq> 0"
  shows "0 < unat (min (pe - pa) n)" "unat (min (pe - pa) n) \<le> unat n"
    "virt_bytes m va (unat (min (pe - pa) n)) = load_bytes m pa (unat (min (pe - pa) n))"
    "unat (n - min (pe - pa) n) = unat n - unat (min (pe - pa) n)"
proof -
  have "pe - pa \<noteq> 0"
    using progress [OF assms(1,2)] by auto
  then show "0 < unat (min (pe - pa) n)"
    using assms(3) by (simp add: min_def unat_gt_0)
  have "min (pe - pa) n \<le> n" by simp
  then show "unat (n - min (pe - pa) n) = unat n - unat (min (pe - pa) n)"
    by (rule unat_sub)
  show "unat (min (pe - pa) n) \<le> unat n"
    by (simp flip: word_le_nat_alt)
  have "unat (min (pe - pa) n) \<le> unat (pe - pa)"
    by (simp flip: word_le_nat_alt)
  with assms(1,2) show "virt_bytes m va (unat (min (pe - pa) n)) = load_bytes m pa (unat (min (pe - pa) n))"
    by (rule virt_bytes_page)
qed

end

end
