(* ===== verification/Paging_X86.thy ===== *)
theory Paging_X86
  imports Translation_Spec
begin

text \<open>
  Address translation of the x86-64 hypervisor (\<open>src/uhyve-x86_64.c\<close>): the page-table constants,
  the software walk \<open>virt_to_phys_for_table\<close> and \<open>virt_to_phys\<close>, and \<open>determine_dest_offset\<close>,
  which maps a page-table entry to the guest-physical page it points to.  The interface
  \<open>translation\<close> states what the hypercalls rely on: inside one page translation is linear and the
  returned end lies behind the returned address.
\<close>

unbundle bit_operations_syntax

section \<open>Constants\<close>

definition PAGE_BITS :: nat where "PAGE_BITS = 12"
definition PAGE_2M_BITS :: nat where "PAGE_2M_BITS = 21"
definition PAGE_MAP_BITS :: nat where "PAGE_MAP_BITS = 9"
definition PAGE_SIZE :: u64 where "PAGE_SIZE = push_bit PAGE_BITS 1"
definition PG_PRESENT :: u64 where "PG_PRESENT = push_bit 0 1"
definition PG_RW :: u64 where "PG_RW = push_bit 1 1"
definition PG_ACCESSED :: u64 where "PG_ACCESSED = push_bit 5 1"
definition PG_DIRTY :: u64 where "PG_DIRTY = push_bit 6 1"
definition PG_PSE :: u64 where "PG_PSE = push_bit 7 1"
definition PG_XD :: u64 where "PG_XD = push_bit 63 1"
definition PAGE_MASK :: u64 where "PAGE_MASK = push_bit PAGE_BITS (-1) AND NOT PG_XD"
definition PAGE_2M_MASK :: u64 where "PAGE_2M_MASK = push_bit PAGE_2M_BITS (-1) AND NOT PG_XD"
definition PAGE_MAP_MASK :: u64 where "PAGE_MAP_MASK = mask 9"
definition BOOT_PML4 :: u64 where "BOOT_PML4 = 0x10000"

lemmas page_consts = PAGE_BITS_def PAGE_2M_BITS_def PAGE_MAP_BITS_def PAGE_SIZE_def PG_PRESENT_def
  PG_RW_def PG_ACCESSED_def PG_DIRTY_def PG_PSE_def PG_XD_def PAGE_MASK_def PAGE_2M_MASK_def
  PAGE_MAP_MASK_def

section \<open>The walk\<close>

definition pt_index :: "u64 \<Rightarrow> nat \<Rightarrow> u64" where
  "pt_index virtual_address level =
     drop_bit (level * PAGE_MAP_BITS) (drop_bit PAGE_BITS virtual_address) AND PAGE_MAP_MASK"

definition level_mask :: "nat \<Rightarrow> u64" where
  "level_mask level = push_bit (level * PAGE_MAP_BITS) (push_bit PAGE_BITS (-1)) AND NOT PG_XD"

definition level_size :: "nat \<Rightarrow> u64" where
  "level_size level = push_bit (level * PAGE_MAP_BITS) PAGE_SIZE"

fun virt_to_phys_for_table :: "gmem \<Rightarrow> u64 \<Rightarrow> u64 \<times> u64 \<Rightarrow> u64 \<Rightarrow> nat \<Rightarrow> u64 \<times> u64" where
  "virt_to_phys_for_table mem virtual_address result table level =
    (let index = pt_index virtual_address level;
         page_mask = level_mask level;
         page_size = level_size level;
         entry = load64 mem (table + 8 * index)
     in if entry AND PG_PRESENT \<noteq> 0
        then if level = 0 \<or> (level < 3 \<and> entry AND PG_PSE \<noteq> 0)
             then let phy = entry AND page_mask; off = virtual_address AND NOT page_mask
                  in (phy OR off, phy + page_size)
             else let phy = entry AND PAGE_MASK
                  in virt_to_phys_for_table mem virtual_address result phy (level - 1)
        else result)"

declare virt_to_phys_for_table.simps [simp del]

definition virt_to_phys :: "gmem \<Rightarrow> u64 \<Rightarrow> u64 \<times> u64" where
  "virt_to_phys mem virtual_address = virt_to_phys_for_table mem virtual_address (0, 0) BOOT_PML4 3"

text \<open>The macro \<open>virt_to_phys_with_offset\<close>: the offset from \<open>guest_mem\<close> it points to.\<close>

definition virt_to_phys_with_offset :: "gmem \<Rightarrow> u64 \<Rightarrow> u64" where
  "virt_to_phys_with_offset mem virtual_address = fst (virt_to_phys mem virtual_address)"

definition determine_dest_offset :: "u64 \<Rightarrow> u64" where
  "determine_dest_offset src_addr =
     (if src_addr AND PG_PSE \<noteq> 0 then src_addr AND PAGE_2M_MASK else src_addr AND PAGE_MASK)"

text \<open>The leaf a walk ends in: the entry and its level, \<open>None\<close> where an entry is not present.\<close>

fun leaf_of :: "gmem \<Rightarrow> u64 \<Rightarrow> u64 \<Rightarrow> nat \<Rightarrow> (u64 \<times> nat) option" where
  "leaf_of mem virtual_address table level =
    (let entry = load64 mem (table + 8 * pt_index virtual_address level)
     in if entry AND PG_PRESENT = 0 then None
        else if level = 0 \<or> (level < 3 \<and> entry AND PG_PSE \<noteq> 0) then Some (entry, level)
        else leaf_of mem virtual_address (entry AND PAGE_MASK) (level - 1))"

declare leaf_of.simps [simp del]

definition leaf :: "gmem \<Rightarrow> u64 \<Rightarrow> (u64 \<times> nat) option" where
  "leaf mem virtual_address = leaf_of mem virtual_address BOOT_PML4 3"

definition mapped_low :: "gmem \<Rightarrow> u64 \<Rightarrow> bool" where
  "mapped_low mem virtual_address \<longleftrightarrow> \<not> bit virtual_address 63 \<and> leaf mem virtual_address \<noteq> None"

text \<open>The addresses of the table entries a walk reads.\<close>

fun walk_entries_of :: "gmem \<Rightarrow> u64 \<Rightarrow> u64 \<Rightarrow> nat \<Rightarrow> u64 list" where
  "walk_entries_of mem virtual_address table level =
    (let a = table + 8 * pt_index virtual_address level; entry = load64 mem a
     in a # (if entry AND PG_PRESENT = 0 \<or> level = 0 \<or> (level < 3 \<and> entry AND PG_PSE \<noteq> 0) then []
             else walk_entries_of mem virtual_address (entry AND PAGE_MASK) (level - 1)))"

declare walk_entries_of.simps [simp del]

definition walk_entries :: "gmem \<Rightarrow> u64 \<Rightarrow> u64 list" where
  "walk_entries mem virtual_address = walk_entries_of mem virtual_address BOOT_PML4 3"

section \<open>Bits of the page-table constants\<close>

lemma bit_PG:
  "bit PG_PRESENT n \<longleftrightarrow> n = 0" "bit PG_RW n \<longleftrightarrow> n = 1" "bit PG_ACCESSED n \<longleftrightarrow> n = 5"
  "bit PG_DIRTY n \<longleftrightarrow> n = 6" "bit PG_PSE n \<longleftrightarrow> n = 7" "bit PG_XD n \<longleftrightarrow> n = 63"
  unfolding PG_PRESENT_def PG_RW_def PG_ACCESSED_def PG_DIRTY_def PG_PSE_def PG_XD_def
  by (subst bit_push_1; simp)+

lemma bit_level_mask: "bit (level_mask l) n \<longleftrightarrow> 12 + 9 * l \<le> n \<and> n < 63"
  unfolding level_mask_def PAGE_BITS_def PAGE_MAP_BITS_def push_bit_push_bit
  by (auto simp: bit_simps bit_PG bit_ones_shifted simp del: push_bit_minus_one)

lemma bit_PAGE_MASK: "bit PAGE_MASK n \<longleftrightarrow> 12 \<le> n \<and> n < 63"
  unfolding PAGE_MASK_def PAGE_BITS_def
  by (auto simp: bit_simps bit_PG bit_ones_shifted simp del: push_bit_minus_one)

lemma bit_PAGE_2M_MASK: "bit PAGE_2M_MASK n \<longleftrightarrow> 21 \<le> n \<and> n < 63"
  unfolding PAGE_2M_MASK_def PAGE_2M_BITS_def
  by (auto simp: bit_simps bit_PG bit_ones_shifted simp del: push_bit_minus_one)

lemma and_flag:
  "(e AND PG_PRESENT \<noteq> 0) = bit e 0" "(e AND PG_PSE \<noteq> 0) = bit e 7"
  unfolding PG_PRESENT_def PG_PSE_def by (rule and_single_bit)+

lemma level_size_eq: "l \<le> 3 \<Longrightarrow> unat (level_size l) = 2 ^ (12 + 9 * l)"
proof -
  assume "l \<le> 3"
  then have "l = 0 \<or> l = 1 \<or> l = 2 \<or> l = 3" by auto
  then show ?thesis by (elim disjE) (simp_all add: level_size_def page_consts)
qed

lemma PAGE_MASK_val: "PAGE_MASK = 0x7FFFFFFFFFFFF000"
  by (simp add: page_consts mask_eq_exp_minus_1)

lemma PAGE_2M_MASK_val: "PAGE_2M_MASK = 0x7FFFFFFFFFE00000"
  by (simp add: page_consts mask_eq_exp_minus_1)

lemma level_mask_val: "level_mask 0 = 0x7FFFFFFFFFFFF000" "level_mask (Suc 0) = 0x7FFFFFFFFFE00000" "level_mask 2 = 0x7FFFFFFFC0000000"
  by (simp_all add: level_mask_def page_consts mask_eq_exp_minus_1)

lemma level_size_val: "level_size 0 = 0x1000" "level_size (Suc 0) = 0x200000" "level_size 2 = 0x40000000"
  by (simp_all add: level_size_def page_consts)

lemma PG_val: "PG_PRESENT = 1" "PG_RW = 2" "PG_ACCESSED = 0x20" "PG_DIRTY = 0x40" "PG_PSE = 0x80" "PG_XD = 0x8000000000000000"
  by (simp_all add: page_consts)

section \<open>The walk and its leaf\<close>

lemma walk_leaf: "virt_to_phys_for_table m va r t l =
   (case leaf_of m va t l of None \<Rightarrow> r
    | Some (e, k) \<Rightarrow> ((e AND level_mask k) OR (va AND NOT (level_mask k)), (e AND level_mask k) + level_size k))"
proof (induction m va t l rule: leaf_of.induct)
  case (1 m va t l)
  then show ?case
    by (subst virt_to_phys_for_table.simps, subst leaf_of.simps) (auto simp: Let_def)
qed

lemma leaf_level: "leaf_of m va t l = Some (e, k) \<Longrightarrow> k \<le> l \<and> k < 3"
proof (induction m va t l rule: leaf_of.induct)
  case (1 m va t l)
  from "1.prems" show ?case
    by (subst (asm) leaf_of.simps) (auto simp: Let_def split: if_splits dest: "1.IH"[OF refl])
qed

lemma pt_index_drop:
  assumes "drop_bit (12 + 9 * k) va' = drop_bit (12 + 9 * k) va" and "k \<le> l"
  shows "pt_index va' l = pt_index va l"
proof -
  have "drop_bit (l * 9) (drop_bit 12 v) = drop_bit (9 * (l - k)) (drop_bit (12 + 9 * k) v)" for v :: u64
    using assms(2) by (simp add: algebra_simps)
  then show ?thesis
    using assms(1) unfolding pt_index_def PAGE_MAP_BITS_def PAGE_BITS_def by metis
qed

lemma leaf_same_page:
  assumes "leaf_of m va t l = Some (e, k)" and "drop_bit (12 + 9 * k) va' = drop_bit (12 + 9 * k) va"
  shows "leaf_of m va' t l = Some (e, k)"
  using assms
proof (induction m va t l rule: leaf_of.induct)
  case (1 m va t l)
  have "pt_index va' l = pt_index va l"
    using leaf_level [OF "1.prems"(1)] "1.prems"(2) by (intro pt_index_drop) auto
  with 1 show ?case
    by (subst leaf_of.simps, subst (asm) (2) leaf_of.simps) (auto simp: Let_def split: if_splits)
qed

lemma page_offset: "\<not> bit (va::u64) 63 \<Longrightarrow> k < 3 \<Longrightarrow> va AND NOT (level_mask k) = take_bit (12 + 9 * k) va"
  by (rule bit_eqI) (auto simp: bit_simps bit_level_mask dest: bit_63_last)

lemma leaf_walk:
  "virt_to_phys m va = (case leaf m va of None \<Rightarrow> (0, 0)
    | Some (e, k) \<Rightarrow> ((e AND level_mask k) OR (va AND NOT (level_mask k)), (e AND level_mask k) + level_size k))"
  by (simp add: virt_to_phys_def leaf_def walk_leaf)

lemma leaf_translation:
  assumes "leaf m va = Some (e, k)" and "\<not> bit va 63"
  shows "virt_to_phys m va = ((e AND level_mask k) + take_bit (12 + 9 * k) va, (e AND level_mask k) + level_size k)"
    and "k < 3"
proof -
  show k: "k < 3"
    using assms(1) leaf_level unfolding leaf_def by blast
  have "(e AND level_mask k) AND take_bit (12 + 9 * k) va = 0"
    by (rule bit_eqI) (auto simp: bit_simps bit_level_mask)
  then show "virt_to_phys m va = ((e AND level_mask k) + take_bit (12 + 9 * k) va, (e AND level_mask k) + level_size k)"
    using assms k by (simp add: leaf_walk page_offset or_disjoint_add)
qed

lemma leaf_local:
  "\<forall>a \<in> set (walk_entries_of m va t l). load64 m' a = load64 m a \<Longrightarrow> leaf_of m' va t l = leaf_of m va t l"
proof (induction m va t l rule: walk_entries_of.induct)
  case (1 m va t l)
  let ?e = "load64 m (t + 8 * pt_index va l)"
  let ?stop = "?e AND PG_PRESENT = 0 \<or> l = 0 \<or> (l < 3 \<and> ?e AND PG_PSE \<noteq> 0)"
  have w: "walk_entries_of m va t l = (t + 8 * pt_index va l) #
      (if ?stop then [] else walk_entries_of m va (?e AND PAGE_MASK) (l - 1))"
    by (subst walk_entries_of.simps) (simp add: Let_def)
  have e: "load64 m' (t + 8 * pt_index va l) = ?e"
    using "1.prems" w by simp
  have "leaf_of m' va (?e AND PAGE_MASK) (l - 1) = leaf_of m va (?e AND PAGE_MASK) (l - 1)" if "\<not> ?stop"
    using "1.IH" [OF refl refl that] "1.prems" w that by simp
  then show ?case
    unfolding leaf_of.simps [of _ va t l] e by (simp add: Let_def)
qed

lemma page_rest:
  assumes "k < 3"
  shows "unat (level_size k - take_bit (12 + 9 * k) va) = 2 ^ (12 + 9 * k) - unat (take_bit (12 + 9 * k) va)"
    and "unat (take_bit (12 + 9 * k) (va::u64)) < 2 ^ (12 + 9 * k)"
proof -
  show lt: "unat (take_bit (12 + 9 * k) va) < 2 ^ (12 + 9 * k)"
    unfolding unsigned_take_bit_eq by (rule take_bit_nat_less_exp)
  then show "unat (level_size k - take_bit (12 + 9 * k) va) = 2 ^ (12 + 9 * k) - unat (take_bit (12 + 9 * k) va)"
    using assms level_size_eq [of k] by (simp add: unat_sub word_le_nat_alt)
qed

interpretation x86: translation virt_to_phys mapped_low walk_entries
proof
  fix m va m'
  assume "\<forall>a \<in> set (walk_entries m va). load64 m' a = load64 m a"
  then show "virt_to_phys m' va = virt_to_phys m va"
    unfolding walk_entries_def by (simp add: leaf_walk leaf_def leaf_local)
next
  fix m va pa pe
  assume ok: "mapped_low m va" and v: "virt_to_phys m va = (pa, pe)"
  then obtain e k where l: "leaf m va = Some (e, k)" and lo: "\<not> bit va 63"
    by (auto simp: mapped_low_def)
  let ?b = "e AND level_mask k" and ?K = "12 + 9 * k"
  have k: "k < 3" and pa: "pa = ?b + take_bit ?K va" and pe: "pe = ?b + level_size k"
    using leaf_translation [OF l lo] v by auto
  have d: "unat (pe - pa) = 2 ^ ?K - unat (take_bit ?K va)"
    using page_rest(1) [OF k] by (simp add: pa pe)
  then show "pa \<noteq> pe"
    using page_rest(2) [OF k, of va] by auto
  fix i assume "i < unat (pe - pa)"
  then have i: "unat (take_bit ?K va) + i < 2 ^ ?K"
    using d by simp
  have "?K \<le> 63"
    using k by simp
  note st = add_in_page [OF i this]
  have "leaf m (va + word_of_nat i) = Some (e, k)"
    using l st(1) unfolding leaf_def by (rule leaf_same_page)
  from leaf_translation(1) [OF this] st(3) lo
  show "virt_to_phys m (va + word_of_nat i) = (pa + word_of_nat i, pe)"
    by (simp add: st(2) pa pe add.assoc)
qed

lemma unat_mod_take: "unat w mod 2 ^ n = unat (take_bit n (w::u64))"
  unfolding unsigned_take_bit_eq by (rule take_bit_eq_mod [symmetric])

lemma frame_bound: "unat (e AND level_mask k) < 2 ^ 63"
proof -
  have "\<not> bit (e AND level_mask k) 63"
    by (simp add: bit_simps bit_level_mask)
  then show ?thesis by (simp add: not_bit_63)
qed

lemma level_size_bound: "k < 3 \<Longrightarrow> 0 < unat (level_size k) \<and> unat (level_size k) \<le> 2 ^ 30"
proof -
  assume "k < 3"
  then have "k = 0 \<or> k = 1 \<or> k = 2" by auto
  then show ?thesis by (elim disjE) (simp_all add: level_size_val)
qed

lemma unat_page_end: "k < 3 \<Longrightarrow> unat ((e AND level_mask k) + level_size k) = unat (e AND level_mask k) + unat (level_size k)"
  using frame_bound [of e k] level_size_bound [of k]
  by (subst unat_add_lem [THEN iffD1]) simp_all

lemma unat_page_addr: "k < 3 \<Longrightarrow> unat ((e AND level_mask k) + take_bit (12 + 9 * k) va) =
   unat (e AND level_mask k) + unat (take_bit (12 + 9 * k) va)"
  using frame_bound [of e k] level_size_bound [of k] page_rest(2) [of k va] level_size_eq [of k]
  by (subst unat_add_lem [THEN iffD1]) simp_all

lemma frame_aligned: "unat (e AND level_mask k) mod 2 ^ (12 + 9 * k) = 0"
proof -
  have "take_bit (12 + 9 * k) (e AND level_mask k) = 0"
    by (rule bit_eqI) (auto simp: bit_simps bit_level_mask)
  then show ?thesis by (simp only: unat_mod_take unsigned_0)
qed

lemma unat_pt_index: "unat (pt_index va l) = unat va div 2 ^ (12 + 9 * l) mod 512"
proof -
  have "pt_index va l = take_bit 9 (drop_bit (12 + 9 * l) va)"
    by (simp add: pt_index_def page_consts take_bit_eq_mask algebra_simps)
  moreover have "unat (drop_bit n va) = unat va div 2 ^ n" for n
    unfolding unat_drop_bit_eq by (rule drop_bit_eq_div)
  ultimately show ?thesis
    using unat_mod_take [of "drop_bit (12 + 9 * l) va" 9] by simp
qed

lemma pt_index_eqI: "unat va div 2 ^ (12 + 9 * l) mod 512 = j \<Longrightarrow> pt_index va l = word_of_nat j"
  using unat_pt_index [of va l] by (metis word_unat_inverse)

text \<open>A small guest memory for the witnesses: the first entry of the PML4 points to the PML4.\<close>

definition tiny_mem :: gmem where "tiny_mem = store64 (\<lambda>_. 0) BOOT_PML4 0x10003"

lemma tiny_load: "load64 tiny_mem 0x10000 = 0x10003"
  unfolding tiny_mem_def BOOT_PML4_def by (rule load64_store64)

lemma self_leaf:
  assumes "load64 m 0x10000 = 0x10003" and "unat va < 4096"
  shows "leaf m va = Some (0x10003, 0)"
proof -
  have "pt_index va 0 = 0" "pt_index va (Suc 0) = 0" "pt_index va 2 = 0" "pt_index va 3 = 0"
    using assms(2) pt_index_eqI [of va 0 0] pt_index_eqI [of va 1 0] pt_index_eqI [of va 2 0] pt_index_eqI [of va 3 0]
    by simp_all
  then show ?thesis
    by (simp add: leaf_def leaf_of.simps [of _ _ _ 3] leaf_of.simps [of _ _ _ 2] leaf_of.simps [of _ _ _ "Suc 0"]
        leaf_of.simps [of _ _ _ 0] assms(1) BOOT_PML4_def PG_val PAGE_MASK_val)
qed

lemma self_mapped: "load64 m 0x10000 = 0x10003 \<Longrightarrow> unat va < 4096 \<Longrightarrow> mapped_low m va"
  by (simp add: mapped_low_def self_leaf not_bit_63)

lemma self_walk:
  assumes "load64 m 0x10000 = 0x10003" and "unat va < 4096"
  shows "virt_to_phys m va = (0x10000 + va, 0x11000)"
proof -
  have "take_bit 12 va = va"
    using assms(2) unat_mod_take [of va 12] by (simp add: word_unat_eq_iff)
  then show ?thesis
    using leaf_translation(1) [OF self_leaf [OF assms]] self_mapped [OF assms]
    by (simp add: mapped_low_def level_mask_val level_size_val)
qed

lemma self_entries:
  assumes "load64 m 0x10000 = 0x10003" and "unat va < 4096"
  shows "set (walk_entries m va) = {0x10000}"
proof -
  have "pt_index va 0 = 0" "pt_index va (Suc 0) = 0" "pt_index va 2 = 0" "pt_index va 3 = 0"
    using assms(2) pt_index_eqI [of va 0 0] pt_index_eqI [of va 1 0] pt_index_eqI [of va 2 0] pt_index_eqI [of va 3 0]
    by simp_all
  then show ?thesis
    by (simp add: walk_entries_def walk_entries_of.simps [of _ _ _ 3] walk_entries_of.simps [of _ _ _ 2]
        walk_entries_of.simps [of _ _ _ "Suc 0"] walk_entries_of.simps [of _ _ _ 0] assms(1) BOOT_PML4_def PG_val PAGE_MASK_val Let_def)
qed

lemma tiny_leaf: "leaf tiny_mem 0x123 = Some (0x10003, 0)"
  by (simp add: self_leaf tiny_load)

lemma tiny_mapped: "mapped_low tiny_mem 0x123"
  by (simp add: self_mapped tiny_load)

lemma tiny_walk: "virt_to_phys tiny_mem 0x123 = (0x10123, 0x11000)"
  by (simp add: self_walk tiny_load)

section \<open>Properties\<close>



text \<open>
  The walk never reaches a page through an entry that is not present: such an address yields
  the pair \<open>(0, 0)\<close> that \<open>virt_to_phys\<close> starts from, and only such an address yields an empty page.
\<close>

theorem virt_to_phys_unmapped_iff:
  "leaf m va = None \<longleftrightarrow> virt_to_phys m va = (0, 0)"
proof (cases "leaf m va")
  case (Some x)
  then obtain e k where l: "leaf m va = Some (e, k)" by (cases x) auto
  then have "k < 3" using leaf_level unfolding leaf_def by blast
  then have "unat ((e AND level_mask k) + level_size k) \<noteq> 0"
    using level_size_bound [of k] unat_page_end [of k e] by simp
  then show ?thesis using l by (auto simp: leaf_walk)
qed (simp add: leaf_walk)

text \<open>
  Bit 63 of the physical address is bit 63 of the virtual address: the page mask excludes the
  XD bit, so its complement, which extracts the page offset, includes it.  Every translated address
  of the upper half therefore gets a physical address of at least \<open>2^63\<close>.
\<close>

theorem virt_to_phys_bit63:
  "leaf m va \<noteq> None \<Longrightarrow> bit (fst (virt_to_phys m va)) 63 = bit va 63"
  by (auto simp: leaf_walk bit_simps bit_level_mask)

theorem virt_to_phys_bit63_witness:
  "leaf tiny_mem 0x8000000000000123 \<noteq> None \<and> bit (fst (virt_to_phys tiny_mem 0x8000000000000123)) 63"
proof -
  have "pt_index 0x8000000000000123 l = 0" if "l \<in> {0, Suc 0, 2, 3}" for l
    using that by (auto simp: pt_index_def page_consts mask_eq_exp_minus_1)
  then have "leaf tiny_mem 0x8000000000000123 = Some (0x10003, 0)"
    by (simp add: leaf_def leaf_of.simps [of _ _ _ 3] leaf_of.simps [of _ _ _ 2] leaf_of.simps [of _ _ _ "Suc 0"]
        leaf_of.simps [of _ _ _ 0] tiny_load BOOT_PML4_def PG_val PAGE_MASK_val)
  then show ?thesis
    using virt_to_phys_bit63 [of tiny_mem "0x8000000000000123"] by (simp add: bit_iff_odd)
qed

end
