(* ===== verification/Cpu_X86.thy ===== *)
theory Cpu_X86
  imports Paging_X86
begin

text \<open>
  The virtual CPU of the x86-64 hypervisor: the descriptor macros of \<open>src/uhyve-x86_64.h\<close> and the
  start-up code of \<open>src/uhyve-x86_64.c\<close> that brings a core into 64-bit mode (\<open>setup_system_gdt\<close>,
  \<open>setup_system_page_tables\<close>, \<open>setup_system_64bit\<close>, \<open>setup_system\<close>, \<open>filter_cpuid\<close>,
  \<open>init_cpu_state\<close>) or saves and restores it (\<open>save_cpu_state\<close>, \<open>restore_cpu_state\<close>).

  KVM itself is outside the program.  What \<open>ioctl\<close> sets on a virtual CPU is the record \<open>vcpu\<close>; a
  \<open>KVM_GET_x\<close> reads a field, a \<open>KVM_SET_x\<close> writes it.  \<open>kvm_ioctl\<close> ends the process when the call
  fails, so the operations here are the runs in which the calls succeed.
\<close>

unbundle bit_operations_syntax

section \<open>Segments and control registers\<close>

record kvm_segment =
  seg_base :: u64
  seg_limit :: u32
  seg_selector :: u16
  seg_type :: u8
  seg_present :: u8
  seg_dpl :: u8
  seg_db :: u8
  seg_s :: u8
  seg_l :: u8
  seg_g :: u8
  seg_avl :: u8

record kvm_dtable =
  dt_base :: u64
  dt_limit :: u16

record kvm_sregs =
  sr_cs :: kvm_segment
  sr_ds :: kvm_segment
  sr_es :: kvm_segment
  sr_fs :: kvm_segment
  sr_gs :: kvm_segment
  sr_ss :: kvm_segment
  sr_tr :: kvm_segment
  sr_ldt :: kvm_segment
  sr_gdt :: kvm_dtable
  sr_idt :: kvm_dtable
  sr_cr0 :: u64
  sr_cr2 :: u64
  sr_cr3 :: u64
  sr_cr4 :: u64
  sr_cr8 :: u64
  sr_efer :: u64
  sr_apic_base :: u64
  sr_interrupt_bitmap :: "u64 list"

record kvm_regs =
  r_rax :: u64  r_rbx :: u64  r_rcx :: u64  r_rdx :: u64
  r_rsi :: u64  r_rdi :: u64  r_rsp :: u64  r_rbp :: u64
  r_r8 :: u64   r_r9 :: u64   r_r10 :: u64  r_r11 :: u64
  r_r12 :: u64  r_r13 :: u64  r_r14 :: u64  r_r15 :: u64
  r_rip :: u64  r_rflags :: u64

section \<open>Global descriptors\<close>

definition GDT_ENTRY :: "u64 \<Rightarrow> u64 \<Rightarrow> u64 \<Rightarrow> u64" where
  "GDT_ENTRY flags base limit =
     (push_bit (56 - 24) (base AND 0xff000000)) OR
     (push_bit 40 (flags AND 0x0000f0ff)) OR
     (push_bit (48 - 16) (limit AND 0x000f0000)) OR
     (push_bit 16 (base AND 0x00ffffff)) OR
     (limit AND 0x0000ffff)"

definition GDT_GET_BASE :: "u64 \<Rightarrow> u64" where
  "GDT_GET_BASE x =
     (drop_bit 32 (x AND 0xFF00000000000000)) OR
     (drop_bit 16 (x AND 0x000000FF00000000)) OR
     (drop_bit 16 (x AND 0x00000000FFFF0000))"

definition GDT_GET_LIMIT :: "u64 \<Rightarrow> u32" where
  "GDT_GET_LIMIT x = ucast ((drop_bit 32 (x AND 0x000F000000000000)) OR (x AND 0x000000000000FFFF))"

definition GDT_GET_G :: "u64 \<Rightarrow> u8" where "GDT_GET_G x = ucast (drop_bit 55 (x AND 0x0080000000000000))"
definition GDT_GET_DB :: "u64 \<Rightarrow> u8" where "GDT_GET_DB x = ucast (drop_bit 54 (x AND 0x0040000000000000))"
definition GDT_GET_L :: "u64 \<Rightarrow> u8" where "GDT_GET_L x = ucast (drop_bit 53 (x AND 0x0020000000000000))"
definition GDT_GET_AVL :: "u64 \<Rightarrow> u8" where "GDT_GET_AVL x = ucast (drop_bit 52 (x AND 0x0010000000000000))"
definition GDT_GET_P :: "u64 \<Rightarrow> u8" where "GDT_GET_P x = ucast (drop_bit 47 (x AND 0x0000800000000000))"
definition GDT_GET_DPL :: "u64 \<Rightarrow> u8" where "GDT_GET_DPL x = ucast (drop_bit 45 (x AND 0x0000600000000000))"
definition GDT_GET_S :: "u64 \<Rightarrow> u8" where "GDT_GET_S x = ucast (drop_bit 44 (x AND 0x0000100000000000))"
definition GDT_GET_TYPE :: "u64 \<Rightarrow> u8" where "GDT_GET_TYPE x = ucast (drop_bit 40 (x AND 0x00000F0000000000))"

text \<open>\<open>GDT_TO_KVM_SEGMENT(seg, gdt_table, sel)\<close>, with the table at address \<open>gdt_table\<close> of guest memory.\<close>

definition GDT_TO_KVM_SEGMENT :: "gmem \<Rightarrow> u64 \<Rightarrow> u64 \<Rightarrow> kvm_segment" where
  "GDT_TO_KVM_SEGMENT mem gdt_table sel =
    (let gdt_ent = load64 mem (gdt_table + 8 * sel)
     in \<lparr>seg_base = GDT_GET_BASE gdt_ent, seg_limit = GDT_GET_LIMIT gdt_ent,
         seg_selector = ucast (sel * 8), seg_type = GDT_GET_TYPE gdt_ent,
         seg_present = GDT_GET_P gdt_ent, seg_dpl = GDT_GET_DPL gdt_ent, seg_db = GDT_GET_DB gdt_ent,
         seg_s = GDT_GET_S gdt_ent, seg_l = GDT_GET_L gdt_ent, seg_g = GDT_GET_G gdt_ent,
         seg_avl = GDT_GET_AVL gdt_ent\<rparr>)"

definition BOOT_GDT :: u64 where "BOOT_GDT = 0x1000"
definition BOOT_PDPTE :: u64 where "BOOT_PDPTE = 0x11000"
definition BOOT_PDE :: u64 where "BOOT_PDE = 0x12000"
definition BOOT_INFO_ADDR :: u64 where "BOOT_INFO_ADDR = 0x9000"
definition GUEST_PAGE_SIZE :: u64 where "GUEST_PAGE_SIZE = 0x200000"
definition X86_CR0_PE :: u64 where "X86_CR0_PE = push_bit 0 1"
definition X86_CR0_PG :: u64 where "X86_CR0_PG = push_bit 31 1"
definition X86_CR4_PAE :: u64 where "X86_CR4_PAE = push_bit 5 1"
definition X86_PDPT_P :: u64 where "X86_PDPT_P = push_bit 0 1"
definition X86_PDPT_RW :: u64 where "X86_PDPT_RW = push_bit 1 1"
definition X86_PDPT_PS :: u64 where "X86_PDPT_PS = push_bit 7 1"
definition EFER_LME :: u64 where "EFER_LME = push_bit 8 1"
definition EFER_LMA :: u64 where "EFER_LMA = push_bit 10 1"
definition EFER_NX :: u64 where "EFER_NX = push_bit 11 1"

lemmas boot_consts = BOOT_PML4_def BOOT_GDT_def BOOT_PDPTE_def BOOT_PDE_def BOOT_INFO_ADDR_def GUEST_PAGE_SIZE_def
lemmas x86_flags = X86_CR0_PE_def X86_CR0_PG_def X86_CR4_PAE_def X86_PDPT_P_def X86_PDPT_RW_def
  X86_PDPT_PS_def EFER_LME_def EFER_LMA_def EFER_NX_def

section \<open>Start-up of a core\<close>

definition setup_system_64bit :: "kvm_sregs \<Rightarrow> kvm_sregs" where
  "setup_system_64bit sregs = sregs\<lparr>
     sr_cr0 := sr_cr0 sregs OR X86_CR0_PE,
     sr_cr4 := sr_cr4 sregs OR X86_CR4_PAE,
     sr_efer := sr_efer sregs OR (EFER_LME OR EFER_LMA OR EFER_NX)\<rparr>"

definition mem_set :: "gmem \<Rightarrow> u64 \<Rightarrow> u8 \<Rightarrow> nat \<Rightarrow> gmem" where
  "mem_set mem a c n = store_bytes mem a (replicate n c)"

definition pde_loop :: "gmem \<Rightarrow> u64 \<Rightarrow> u64 \<times> gmem" where
  "pde_loop mem pde =
     fold (\<lambda>i (paddr, mem). (paddr + GUEST_PAGE_SIZE,
             store64 mem (pde + 8 * word_of_nat i) (paddr OR (X86_PDPT_P OR X86_PDPT_RW OR X86_PDPT_PS))))
       [0..<512] (0, mem)"

definition setup_system_page_tables :: "kvm_sregs \<Rightarrow> gmem \<Rightarrow> kvm_sregs \<times> gmem" where
  "setup_system_page_tables sregs mem =
    (let mem = mem_set mem BOOT_PML4 0 4096;
         mem = mem_set mem BOOT_PDPTE 0 4096;
         mem = mem_set mem BOOT_PDE 0 4096;
         mem = store64 mem (BOOT_PML4 + 8 * 0) (BOOT_PDPTE OR (X86_PDPT_P OR X86_PDPT_RW));
         mem = store64 mem (BOOT_PML4 + 8 * 511) (BOOT_PML4 OR (X86_PDPT_P OR X86_PDPT_RW));
         mem = store64 mem (BOOT_PDPTE + 8 * 0) (BOOT_PDE OR (X86_PDPT_P OR X86_PDPT_RW));
         mem = snd (pde_loop mem BOOT_PDE)
     in (sregs\<lparr>sr_cr3 := BOOT_PML4, sr_cr4 := sr_cr4 sregs OR X86_CR4_PAE,
               sr_cr0 := sr_cr0 sregs OR X86_CR0_PG\<rparr>, mem))"

definition setup_system_gdt :: "kvm_sregs \<Rightarrow> gmem \<Rightarrow> u64 \<Rightarrow> kvm_sregs \<times> gmem" where
  "setup_system_gdt sregs mem off =
    (let mem = store64 mem (off + 8 * 0) (GDT_ENTRY 0 0 0);
         mem = store64 mem (off + 8 * 1) (GDT_ENTRY 0xA09B 0 0xFFFFF);
         mem = store64 mem (off + 8 * 2) (GDT_ENTRY 0xC093 0 0xFFFFF);
         code_seg = GDT_TO_KVM_SEGMENT mem off 1;
         data_seg = GDT_TO_KVM_SEGMENT mem off 2
     in (sregs\<lparr>sr_gdt := \<lparr>dt_base = off, dt_limit = 8 * 3 - 1\<rparr>, sr_cs := code_seg, sr_ds := data_seg,
               sr_es := data_seg, sr_fs := data_seg, sr_gs := data_seg, sr_ss := data_seg\<rparr>, mem))"

section \<open>The virtual CPU\<close>

record kvm_cpuid_entry2 =
  ce_function :: u32
  ce_index :: u32
  ce_flags :: u32
  ce_eax :: u32
  ce_ebx :: u32
  ce_ecx :: u32
  ce_edx :: u32

record vcpu =
  v_regs :: kvm_regs
  v_sregs :: kvm_sregs
  v_msrs :: "u32 \<Rightarrow> u64"
  v_xcrs :: bytes
  v_mp_state :: u32
  v_lapic :: bytes
  v_fpu :: bytes
  v_xsave :: bytes
  v_events :: bytes
  v_cpuid :: "kvm_cpuid_entry2 list"
  v_apic_base :: u64

record vcpu_state =
  st_msr_data :: "(u32 \<times> u64) list"
  st_regs :: kvm_regs
  st_sregs :: kvm_sregs
  st_fpu :: bytes
  st_lapic :: bytes
  st_xsave :: bytes
  st_xcrs :: bytes
  st_events :: bytes
  st_mp_state :: u32

definition KVM_MP_STATE_RUNNABLE :: u32 where "KVM_MP_STATE_RUNNABLE = 0"
definition APIC_DEFAULT_BASE :: u64 where "APIC_DEFAULT_BASE = 0xfee00000"
definition CPUID_FUNC_PERFMON :: u32 where "CPUID_FUNC_PERFMON = 0x0A"
definition MSR_IA32_MISC_ENABLE :: u32 where "MSR_IA32_MISC_ENABLE = 0x1a0"

definition filter_cpuid_entry :: "bool \<Rightarrow> kvm_cpuid_entry2 \<Rightarrow> kvm_cpuid_entry2" where
  "filter_cpuid_entry cap_tsc_deadline entry =
    (if ce_function entry = 1 then
       (let entry = entry\<lparr>ce_ecx := ce_ecx entry OR push_bit 31 1\<rparr>;
            entry = (if cap_tsc_deadline then entry\<lparr>ce_ecx := ce_ecx entry OR push_bit 24 1\<rparr> else entry)
        in entry\<lparr>ce_edx := ce_edx entry OR push_bit 5 1\<rparr>)
     else if ce_function entry = CPUID_FUNC_PERFMON then entry\<lparr>ce_eax := 0\<rparr>
     else entry)"

definition filter_cpuid :: "bool \<Rightarrow> kvm_cpuid_entry2 list \<Rightarrow> kvm_cpuid_entry2 list" where
  "filter_cpuid cap_tsc_deadline entries = map (filter_cpuid_entry cap_tsc_deadline) entries"

text \<open>\<open>supported\<close> is the answer of \<open>KVM_GET_SUPPORTED_CPUID\<close>.\<close>

definition setup_cpuid :: "bool \<Rightarrow> kvm_cpuid_entry2 list \<Rightarrow> vcpu \<Rightarrow> vcpu" where
  "setup_cpuid cap_tsc_deadline supported v = v\<lparr>v_cpuid := filter_cpuid cap_tsc_deadline supported\<rparr>"

text \<open>
  \<open>static_sregs\<close> is the function-local \<open>static struct kvm_sregs sregs\<close>, which the boot processor fills
  and the other cores reuse.
\<close>

definition setup_system :: "kvm_sregs \<Rightarrow> vcpu \<Rightarrow> gmem \<Rightarrow> u32 \<Rightarrow> kvm_sregs \<times> vcpu \<times> gmem" where
  "setup_system static_sregs v mem core =
    (let (sregs, mem) =
       (if core = 0 then
          let sregs = v_sregs v;
              (sregs, mem) = setup_system_gdt sregs mem BOOT_GDT;
              (sregs, mem) = setup_system_page_tables sregs mem
          in (setup_system_64bit sregs, mem)
        else (static_sregs, mem))
     in (sregs, v\<lparr>v_sregs := sregs\<rparr>, mem))"

definition KH_CPU_ONLINE :: u64 where "KH_CPU_ONLINE = 120"
definition KH_CURRENT_BOOT_ID :: u64 where "KH_CURRENT_BOOT_ID = 128"

definition zero_regs :: kvm_regs where
  "zero_regs = \<lparr>r_rax = 0, r_rbx = 0, r_rcx = 0, r_rdx = 0, r_rsi = 0, r_rdi = 0, r_rsp = 0, r_rbp = 0,
     r_r8 = 0, r_r9 = 0, r_r10 = 0, r_r11 = 0, r_r12 = 0, r_r13 = 0, r_r14 = 0, r_r15 = 0,
     r_rip = 0, r_rflags = 0\<rparr>"

text \<open>
  \<open>None\<close>: the core still spins in \<open>while (kheader->cpu_online < cpuid)\<close>, waiting for its predecessor.
\<close>

definition init_cpu_state ::
  "bool \<Rightarrow> kvm_cpuid_entry2 list \<Rightarrow> u64 \<Rightarrow> u64 \<Rightarrow> u32 \<Rightarrow> kvm_sregs \<Rightarrow> vcpu \<Rightarrow> gmem \<Rightarrow>
     (kvm_sregs \<times> vcpu \<times> gmem) option" where
  "init_cpu_state cap_tsc_deadline supported kheader elf_entry cpuid static_sregs v mem =
    (let regs = zero_regs\<lparr>r_rip := elf_entry, r_rdi := BOOT_INFO_ADDR, r_rflags := 0x2\<rparr>;
         v = v\<lparr>v_apic_base := APIC_DEFAULT_BASE\<rparr>;
         v = setup_cpuid cap_tsc_deadline supported v;
         v = v\<lparr>v_mp_state := KVM_MP_STATE_RUNNABLE\<rparr>;
         v = v\<lparr>v_msrs := (v_msrs v)(MSR_IA32_MISC_ENABLE := 1)\<rparr>
     in if load32 mem (kheader + KH_CPU_ONLINE) < cpuid then None
        else let mem = store32 mem (kheader + KH_CURRENT_BOOT_ID) cpuid;
                 (static_sregs, v, mem) = setup_system static_sregs v mem cpuid
             in Some (static_sregs, v\<lparr>v_regs := regs\<rparr>, mem))"

definition required_msrs :: "u32 list" where
  "required_msrs = [0x1b, 0x174, 0x175, 0x176, 0x277, 0x1a0, 0x10, 0xc0000083, 0xc0000081, 0xc0000080,
     0xc0000082, 0xc0000101, 0xc0000100, 0xc0000102]"

definition save_cpu_state :: "vcpu \<Rightarrow> vcpu_state" where
  "save_cpu_state v =
     \<lparr>st_msr_data = map (\<lambda>i. (i, v_msrs v i)) required_msrs, st_regs = v_regs v, st_sregs = v_sregs v,
      st_fpu = v_fpu v, st_lapic = v_lapic v, st_xsave = v_xsave v, st_xcrs = v_xcrs v,
      st_events = v_events v, st_mp_state = v_mp_state v\<rparr>"

definition set_msrs :: "(u32 \<times> u64) list \<Rightarrow> (u32 \<Rightarrow> u64) \<Rightarrow> u32 \<Rightarrow> u64" where
  "set_msrs entries msrs = fold (\<lambda>(i, d) f. f(i := d)) entries msrs"

definition restore_cpu_state :: "bool \<Rightarrow> kvm_cpuid_entry2 list \<Rightarrow> vcpu_state \<Rightarrow> vcpu \<Rightarrow> vcpu" where
  "restore_cpu_state cap_tsc_deadline supported cpu_state v =
    (let cpu_state = cpu_state\<lparr>st_mp_state := KVM_MP_STATE_RUNNABLE\<rparr>;
         v = v\<lparr>v_apic_base := APIC_DEFAULT_BASE\<rparr>;
         v = setup_cpuid cap_tsc_deadline supported v;
         v = v\<lparr>v_sregs := st_sregs cpu_state\<rparr>;
         v = v\<lparr>v_regs := st_regs cpu_state\<rparr>;
         v = v\<lparr>v_msrs := set_msrs (st_msr_data cpu_state) (v_msrs v)\<rparr>;
         v = v\<lparr>v_xcrs := st_xcrs cpu_state\<rparr>;
         v = v\<lparr>v_mp_state := st_mp_state cpu_state\<rparr>;
         v = v\<lparr>v_lapic := st_lapic cpu_state\<rparr>;
         v = v\<lparr>v_fpu := st_fpu cpu_state\<rparr>;
         v = v\<lparr>v_xsave := st_xsave cpu_state\<rparr>
     in v\<lparr>v_events := st_events cpu_state\<rparr>)"

section \<open>The boot page tables\<close>

definition pde_entry :: "nat \<Rightarrow> u64" where
  "pde_entry i = (word_of_nat i * GUEST_PAGE_SIZE) OR (X86_PDPT_P OR X86_PDPT_RW OR X86_PDPT_PS)"

lemma pde_loop_array: "snd (pde_loop mem pde) = store_array pde_entry 512 pde mem"
proof -
  have "fold (\<lambda>i (paddr, mem). (paddr + GUEST_PAGE_SIZE,
             store64 mem (pde + 8 * word_of_nat i) (paddr OR (X86_PDPT_P OR X86_PDPT_RW OR X86_PDPT_PS))))
       [0..<n] (0, mem) = (word_of_nat n * GUEST_PAGE_SIZE, store_array pde_entry n pde mem)" for n
    by (induction n) (simp_all add: store_array_def pde_entry_def distrib_right)
  then show ?thesis by (simp add: pde_loop_def)
qed

lemma load64_mem_set_zero:
  assumes "unat a \<le> unat b" and "unat b + 8 \<le> unat a + n" and "unat a + n \<le> 2 ^ 64"
  shows "load64 (mem_set mem a 0 n) b = 0"
proof -
  have "mem_set mem a 0 n (b + word_of_nat i) = 0" if "i < 8" for i
  proof -
    have "unat (b + word_of_nat i) = unat b + i"
      using that assms by (subst unat_add_lem [THEN iffD1]) (simp_all add: unat_of_nat)
    then have "in_run (b + word_of_nat i) a (length (replicate n (0::u8)))"
      using that assms by (simp add: in_run_nat)
    then show ?thesis
      unfolding mem_set_def by (subst store_bytes_in) (simp_all add: in_run_def)
  qed
  then have "load_bytes (mem_set mem a 0 n) b 8 = replicate 8 0"
    by (intro nth_equalityI) (simp_all add: load_bytes_nth)
  then show ?thesis by (simp only: load64_def dec64_def le_val_zeros) simp
qed

lemma load64_mem_set_other:
  assumes "disjoint_runs b 8 a n"
  shows "load64 (mem_set mem a c n) b = load64 mem b"
  using assms by (simp add: mem_set_def load64_def load_store_other)

lemma page_tables_mem: "snd (setup_system_page_tables sregs mem) = 
   store_array pde_entry 512 0x12000
    (store64 (store64 (store64 
      (mem_set (mem_set (mem_set mem 0x10000 0 4096) 0x11000 0 4096) 0x12000 0 4096)
      0x10000 0x11003) 0x10FF8 0x10003) 0x11000 0x12003)"
  by (simp add: setup_system_page_tables_def Let_def pde_loop_array boot_consts x86_flags)

lemma boot_pml4_0: "load64 (snd (setup_system_page_tables sregs mem)) 0x10000 = 0x11003"
  unfolding page_tables_mem
  by (simp add: load_store_array_other load64_store64_other disj_num)

lemma boot_pml4_511: "load64 (snd (setup_system_page_tables sregs mem)) 0x10FF8 = 0x10003"
  unfolding page_tables_mem
  by (simp add: load_store_array_other load64_store64_other disj_num)

lemma boot_pml4_rest: 
  assumes "0x10000 < unat a" "unat a + 8 \<le> 0x10FF8" "8 dvd unat a"
  shows "load64 (snd (setup_system_page_tables sregs mem)) a = 0"
proof -
  have "0x10008 \<le> unat a" using assms by presburger
  then show ?thesis using assms
  unfolding page_tables_mem
  by (simp add: load_store_array_other load64_store64_other disj_num load64_mem_set_zero load64_mem_set_other)
qed

lemma boot_pdpte_0: "load64 (snd (setup_system_page_tables sregs mem)) 0x11000 = 0x12003"
  unfolding page_tables_mem
  by (simp add: load_store_array_other load64_store64_other disj_num)

lemma boot_pdpte_rest: 
  assumes "0x11000 < unat a" "unat a + 8 \<le> 0x12000" "8 dvd unat a"
  shows "load64 (snd (setup_system_page_tables sregs mem)) a = 0"
proof -
  have "0x11008 \<le> unat a" using assms by presburger
  then show ?thesis using assms
  unfolding page_tables_mem
  by (simp add: load_store_array_other load64_store64_other disj_num load64_mem_set_zero load64_mem_set_other)
qed

lemma boot_pde: "j < 512 \<Longrightarrow> load64 (snd (setup_system_page_tables sregs mem)) (0x12000 + 8 * word_of_nat j) = pde_entry j"
  unfolding page_tables_mem by (rule load_store_array) simp_all

lemma pt_slot: "unat base + 4096 \<le> 2 ^ 64 \<Longrightarrow> unat (base + 8 * pt_index va l) = unat base + 8 * unat (pt_index va l)"
proof -
  assume "unat base + 4096 \<le> 2 ^ 64"
  moreover have "unat (pt_index va l) < 512"
    by (simp add: unat_pt_index)
  ultimately show ?thesis
    using unat_array_slot [of base 512 "unat (pt_index va l)"] by simp
qed

lemma pde_entry_bits: "j < 512 \<Longrightarrow> pde_entry j = push_bit 21 (word_of_nat j) OR (PG_PRESENT OR PG_RW OR PG_PSE)"
  by (simp add: pde_entry_def GUEST_PAGE_SIZE_def x86_flags PG_val push_bit_eq_mult)

lemma boot_leaf:
  assumes "unat va < 2 ^ 30"
  shows "leaf (snd (setup_system_page_tables sregs mem)) va = Some (pde_entry (unat va div 2 ^ 21), 1)"
proof -
  let ?m = "snd (setup_system_page_tables sregs mem)" and ?j = "unat va div 2 ^ 21"
  have j: "?j < 512"
    using assms by simp
  have i3: "pt_index va 3 = 0" and i2: "pt_index va 2 = 0" and i1: "pt_index va 1 = word_of_nat ?j"
    using assms j pt_index_eqI [of va 3 0] pt_index_eqI [of va 2 0] pt_index_eqI [of va 1 ?j] by simp_all
  have e: "bit (pde_entry ?j) 0" "bit (pde_entry ?j) 7"
    using j by (simp_all add: pde_entry_bits bit_simps bit_PG)
  show ?thesis
    unfolding leaf_def BOOT_PML4_def
    using boot_pml4_0 [of sregs mem] boot_pdpte_0 [of sregs mem] boot_pde [OF j, of sregs mem] i3 i2 i1 and_flag e
    by (simp add: leaf_of.simps [of _ _ _ 3] leaf_of.simps [of _ _ _ 2] leaf_of.simps [of _ _ _ "Suc 0"] Let_def PG_val PAGE_MASK_val)
qed

lemma boot_identity_map:
  assumes "unat va < 2 ^ 30"
  shows "virt_to_phys (snd (setup_system_page_tables sregs mem)) va = (va, (va AND NOT (mask 21)) + 0x200000)"
proof -
  let ?j = "unat va div 2 ^ 21"
  have lo: "\<not> bit va 63" and j: "?j < 512"
    using assms by (simp_all add: not_bit_63)
  have pj: "push_bit 21 (word_of_nat ?j) = va AND NOT (mask 21)"
  proof -
    have "word_of_nat ?j = drop_bit 21 va"
      using unat_drop_bit_eq [of 21 va] drop_bit_eq_div [of 21 "unat va"] by (metis word_unat_inverse)
    then show ?thesis by (simp add: push_bit_drop_bit_va)
  qed
  have fr: "pde_entry ?j AND level_mask 1 = va AND NOT (mask 21)"
    unfolding pde_entry_bits [OF j] pj
    by (rule bit_eqI) (use lo in \<open>auto simp: bit_simps bit_PG bit_level_mask dest: bit_63_last\<close>)
  have "(va AND NOT (mask 21)) + take_bit 21 va = va"
    by (simp add: low_split)
  then show ?thesis
    using leaf_translation(1) [OF boot_leaf [OF assms] lo] by (simp add: fr [simplified] level_size_val)
qed

lemma boot_map_limit:
  assumes "2 ^ 30 \<le> unat va" and "unat va < 2 ^ 47"
  shows "virt_to_phys (snd (setup_system_page_tables sregs mem)) va = (0, 0)"
proof -
  let ?m = "snd (setup_system_page_tables sregs mem)"
  have "leaf ?m va = None"
  proof (cases "pt_index va 3 = 0")
    case True
    then have "unat va div 2 ^ 39 mod 512 = 0"
      using unat_pt_index [of va 3] by simp
    then have "unat (pt_index va 2) \<noteq> 0"
      using assms unat_pt_index [of va 2] by (simp del: unat_eq_0 unat_eq_zero)
    then have "load64 ?m (0x11000 + 8 * pt_index va 2) = 0"
      using pt_slot [of "0x11000" va 2] unat_pt_index [of va 2] by (intro boot_pdpte_rest) simp_all
    then show ?thesis
      unfolding leaf_def BOOT_PML4_def using True boot_pml4_0 [of sregs mem]
      by (simp add: leaf_of.simps [of _ _ _ 3] leaf_of.simps [of _ _ _ 2] Let_def PG_val PAGE_MASK_val)
  next
    case False
    have i: "unat (pt_index va 3) < 256" 
      using assms unat_pt_index [of va 3] by simp
    then have "load64 ?m (0x10000 + 8 * pt_index va 3) = 0"
      using pt_slot [of "0x10000" va 3] False by (intro boot_pml4_rest) (simp_all add: unat_gt_0 )
    then show ?thesis
      unfolding leaf_def BOOT_PML4_def by (simp add: leaf_of.simps [of _ _ _ 3] Let_def)
  qed
  then show ?thesis by (simp add: leaf_walk)
qed

lemma boot_walk_entries:
  assumes "unat va < 2 ^ 30"
  shows "walk_entries (snd (setup_system_page_tables sregs mem)) va = [0x10000, 0x11000, 0x12000 + 8 * word_of_nat (unat va div 2 ^ 21)]"
proof -
  let ?j = "unat va div 2 ^ 21"
  have j: "?j < 512"
    using assms by simp
  have i3: "pt_index va 3 = 0" and i2: "pt_index va 2 = 0" and i1: "pt_index va 1 = word_of_nat ?j"
    using assms j pt_index_eqI [of va 3 0] pt_index_eqI [of va 2 0] pt_index_eqI [of va 1 ?j] by simp_all
  have e: "bit (pde_entry ?j) 0" "bit (pde_entry ?j) 7"
    using j by (simp_all add: pde_entry_bits bit_simps bit_PG)
  show ?thesis
    unfolding walk_entries_def BOOT_PML4_def
    using boot_pml4_0 [of sregs mem] boot_pdpte_0 [of sregs mem] boot_pde [OF j, of sregs mem] i3 i2 i1 and_flag e
    by (simp add: walk_entries_of.simps [of _ _ _ 3] walk_entries_of.simps [of _ _ _ 2] walk_entries_of.simps [of _ _ _ "Suc 0"]
        Let_def PG_val PAGE_MASK_val)
qed

text \<open>The memory of a guest that has left the boot page tables as they are.\<close>

definition keeps_tables :: "gmem \<Rightarrow> gmem \<Rightarrow> bool" where
  "keeps_tables boot mem \<longleftrightarrow> (\<forall>a. 0x10000 \<le> unat a \<and> unat a < 0x13000 \<longrightarrow> mem a = boot a)"

lemma keeps_tables_entry:
  assumes "keeps_tables boot m" and "0x10000 \<le> unat a" and "unat a + 8 \<le> 0x13000"
  shows "load64 m a = load64 boot a"
  using assms by (intro load64_cong) (simp add: keeps_tables_def in_run_nat)

lemma booted_translation:
  assumes "keeps_tables (snd (setup_system_page_tables sregs mem)) m" and "unat va < 2 ^ 30"
  shows "mapped_low m va" and "virt_to_phys m va = (va, (va AND NOT (mask 21)) + 0x200000)"
proof -
  let ?boot = "snd (setup_system_page_tables sregs mem)" and ?j = "unat va div 2 ^ 21"
  have j: "?j < 512"
    using assms(2) by simp
  then have "unat (0x12000 + 8 * word_of_nat ?j :: u64) = 0x12000 + 8 * ?j"
    using unat_array_slot [of "0x12000" 512 ?j] by simp
  then have same: "\<forall>a \<in> set (walk_entries ?boot va). load64 m a = load64 ?boot a"
    using keeps_tables_entry [OF assms(1)] j unfolding boot_walk_entries [OF assms(2)] by simp
  then have "leaf m va = leaf ?boot va"
    unfolding walk_entries_def leaf_def by (rule leaf_local)
  then show "mapped_low m va"
    using assms(2) boot_leaf [OF assms(2), of sregs mem] by (simp add: mapped_low_def not_bit_63)
  show "virt_to_phys m va = (va, (va AND NOT (mask 21)) + 0x200000)"
    using x86.local [OF same] boot_identity_map [OF assms(2)] by simp
qed

lemma mem_set_outside: "\<not> in_run x a n \<Longrightarrow> mem_set mem a c n x = mem x"
  by (simp add: mem_set_def store_bytes_out)

lemma page_tables_frame:
  assumes "unat a < 0x10000 \<or> 0x13000 \<le> unat a"
  shows "snd (setup_system_page_tables sregs mem) a = mem a"
  using assms unfolding page_tables_mem
  by (auto simp: store_array_outside store64_outside mem_set_outside in_run_nat)

section \<open>Descriptors\<close>

lemma gdt_masks:
  "(0xff000000 :: u64) = push_bit 24 (mask 8)" "(0x00ffffff :: u64) = mask 24" "(0x0000ffff :: u64) = mask 16"
  "(0x000f0000 :: u64) = push_bit 16 (mask 4)" "(0x0000f0ff :: u64) = mask 8 OR push_bit 12 (mask 4)"
  "(0xFF00000000000000 :: u64) = push_bit 56 (mask 8)" "(0x000000FF00000000 :: u64) = push_bit 32 (mask 8)"
  "(0x00000000FFFF0000 :: u64) = push_bit 16 (mask 16)" "(0x000F000000000000 :: u64) = push_bit 48 (mask 4)"
  by (simp_all add: mask_eq_exp_minus_1)

lemma bit_GDT_ENTRY: "bit (GDT_ENTRY flags base limit) n \<longleftrightarrow>
   (if n < 16 then bit limit n else if n < 40 then bit base (n - 16) else if n < 48 then bit flags (n - 40)
    else if n < 52 then bit limit (n - 32) else if n < 56 then bit flags (n - 40)
    else n < 64 \<and> bit base (n - 32))"
  unfolding GDT_ENTRY_def gdt_masks
  by (auto simp: bit_simps)

lemma GDT_base: "GDT_GET_BASE (GDT_ENTRY flags base limit) = take_bit 32 base"
  unfolding GDT_GET_BASE_def gdt_masks
  by (rule bit_eqI) (auto simp: bit_simps bit_GDT_ENTRY)

lemma GDT_limit: "GDT_GET_LIMIT (GDT_ENTRY flags base limit) = ucast (take_bit 20 limit)"
  unfolding GDT_GET_LIMIT_def gdt_masks
  by (rule bit_eqI) (auto simp: bit_simps bit_GDT_ENTRY)

definition boot_code_seg :: kvm_segment where
  "boot_code_seg = \<lparr>seg_base = 0, seg_limit = 0xFFFFF, seg_selector = 8, seg_type = 0xB, seg_present = 1,
     seg_dpl = 0, seg_db = 0, seg_s = 1, seg_l = 1, seg_g = 1, seg_avl = 0\<rparr>"

definition boot_data_seg :: kvm_segment where
  "boot_data_seg = \<lparr>seg_base = 0, seg_limit = 0xFFFFF, seg_selector = 16, seg_type = 3, seg_present = 1,
     seg_dpl = 0, seg_db = 1, seg_s = 1, seg_l = 0, seg_g = 1, seg_avl = 0\<rparr>"

lemmas GDT_GET_defs = GDT_GET_G_def GDT_GET_DB_def GDT_GET_L_def GDT_GET_AVL_def GDT_GET_P_def
  GDT_GET_DPL_def GDT_GET_S_def GDT_GET_TYPE_def

lemma setup_system_gdt_segments:
  "fst (setup_system_gdt sregs mem BOOT_GDT) = sregs\<lparr>sr_gdt := \<lparr>dt_base = BOOT_GDT, dt_limit = 23\<rparr>,
     sr_cs := boot_code_seg, sr_ds := boot_data_seg, sr_es := boot_data_seg, sr_fs := boot_data_seg,
     sr_gs := boot_data_seg, sr_ss := boot_data_seg\<rparr>"
  by (simp add: setup_system_gdt_def Let_def GDT_TO_KVM_SEGMENT_def boot_consts load64_store64_other disj_num
      GDT_GET_BASE_def GDT_GET_LIMIT_def boot_code_seg_def boot_data_seg_def GDT_ENTRY_def GDT_GET_defs
      mask_eq_exp_minus_1 take_bit_eq_mask)

lemma setup_system_core0:
  "snd (snd (setup_system st v mem 0)) =
     snd (setup_system_page_tables (fst (setup_system_gdt (v_sregs v) mem BOOT_GDT))
                                   (snd (setup_system_gdt (v_sregs v) mem BOOT_GDT)))"
  by (simp add: setup_system_def Let_def split_beta)

lemma set_msrs_map: "set_msrs (map (\<lambda>i. (i, f i)) ms) g = (\<lambda>i. if i \<in> set ms then f i else g i)"
  unfolding set_msrs_def by (induction ms arbitrary: g) auto

section \<open>Properties\<close>

text \<open>A powered-on core with cleared registers, for the witnesses.\<close>

definition zero_seg :: kvm_segment where
  "zero_seg = \<lparr>seg_base = 0, seg_limit = 0, seg_selector = 0, seg_type = 0, seg_present = 0, seg_dpl = 0,
     seg_db = 0, seg_s = 0, seg_l = 0, seg_g = 0, seg_avl = 0\<rparr>"

definition zero_sregs :: kvm_sregs where
  "zero_sregs = \<lparr>sr_cs = zero_seg, sr_ds = zero_seg, sr_es = zero_seg, sr_fs = zero_seg, sr_gs = zero_seg,
     sr_ss = zero_seg, sr_tr = zero_seg, sr_ldt = zero_seg, sr_gdt = \<lparr>dt_base = 0, dt_limit = 0\<rparr>,
     sr_idt = \<lparr>dt_base = 0, dt_limit = 0\<rparr>, sr_cr0 = 0, sr_cr2 = 0, sr_cr3 = 0, sr_cr4 = 0, sr_cr8 = 0,
     sr_efer = 0, sr_apic_base = 0, sr_interrupt_bitmap = []\<rparr>"

definition zero_vcpu :: vcpu where
  "zero_vcpu = \<lparr>v_regs = zero_regs, v_sregs = zero_sregs, v_msrs = (\<lambda>_. 0), v_xcrs = [], v_mp_state = 1,
     v_lapic = [], v_fpu = [], v_xsave = [], v_events = [], v_cpuid = [], v_apic_base = 0\<rparr>"

text \<open>
  C18.  The page tables the boot processor builds identity-map the first GiB in pages of 2 MiB, and the
  walk of the hypervisor finds nothing behind it in the lower half of the address space.
\<close>

theorem boot_map:
  assumes "unat va < 2 ^ 47"
  shows "virt_to_phys (snd (snd (setup_system st v mem 0))) va =
    (if unat va < 2 ^ 30 then (va, (va AND NOT (mask 21)) + 0x200000) else (0, 0))"
  unfolding setup_system_core0
  using assms boot_identity_map [of va] boot_map_limit [of va] by simp

theorem boot_map_witness:
  "unat (0x123456::u64) < 2 ^ 47 \<and>
   virt_to_phys (snd (snd (setup_system zero_sregs zero_vcpu (\<lambda>_. 0) 0))) 0x123456 = (0x123456, 0x200000)"
  by (subst boot_map) (simp_all add: mask_eq_exp_minus_1)

text \<open>
  After \<open>setup_system\<close> the boot processor is in 64-bit mode: protection, paging, PAE and the long
  mode bits are set, CR3 points to the boot PML4, CS is a present 64-bit code segment, the other
  segment registers are flat data segments, and no bit of CR0 got lost.
\<close>

theorem boot_long_mode:
  assumes "setup_system st v mem 0 = (s, v', mem')"
  shows "v_sregs v' = s \<and> sr_cs s = boot_code_seg \<and> sr_ss s = boot_data_seg \<and> sr_ds s = boot_data_seg \<and>
    sr_es s = boot_data_seg \<and> sr_fs s = boot_data_seg \<and> sr_gs s = boot_data_seg \<and>
    sr_gdt s = \<lparr>dt_base = BOOT_GDT, dt_limit = 23\<rparr> \<and> sr_cr3 s = BOOT_PML4 \<and>
    bit (sr_cr0 s) 0 \<and> bit (sr_cr0 s) 31 \<and> bit (sr_cr4 s) 5 \<and>
    bit (sr_efer s) 8 \<and> bit (sr_efer s) 10 \<and> bit (sr_efer s) 11 \<and>
    (\<forall>n. bit (sr_cr0 (v_sregs v)) n \<longrightarrow> bit (sr_cr0 s) n)"
proof -
  have s: "s = setup_system_64bit (fst (setup_system_page_tables
      (fst (setup_system_gdt (v_sregs v) mem BOOT_GDT)) (snd (setup_system_gdt (v_sregs v) mem BOOT_GDT))))"
    and v': "v_sregs v' = s"
    using assms by (auto simp: setup_system_def Let_def split_beta)
  show ?thesis
    unfolding v' unfolding s setup_system_gdt_segments
    by (simp add: setup_system_page_tables_def setup_system_64bit_def Let_def x86_flags bit_or_iff bit_push_1)
qed

theorem boot_long_mode_witness:
  "\<exists>v' mem'. setup_system zero_sregs zero_vcpu (\<lambda>_. 0) 0 = (v_sregs v', v', mem') \<and>
     seg_l (sr_cs (v_sregs v')) = 1 \<and> bit (sr_efer (v_sregs v')) 10"
proof -
  obtain s v' mem' where e: "setup_system zero_sregs zero_vcpu (\<lambda>_. 0) 0 = (s, v', mem')"
    by (metis prod.exhaust)
  from boot_long_mode [OF e] e show ?thesis
    by (intro exI [of _ v'] exI [of _ mem']) (simp add: boot_code_seg_def)
qed

text \<open>
  Restoring a saved CPU state on any virtual CPU gives the saved registers, system registers,
  the 14 saved MSRs, FPU, XSAVE, XCR, local APIC and event state; the core is runnable, the other MSRs
  are those of the new CPU and the CPUID table is the filtered one of the new host.
\<close>

theorem restore_save_cpu_state:
  "restore_cpu_state tsc supp (save_cpu_state v) w =
    w\<lparr>v_regs := v_regs v, v_sregs := v_sregs v,
      v_msrs := (\<lambda>i. if i \<in> set required_msrs then v_msrs v i else v_msrs w i),
      v_xcrs := v_xcrs v, v_mp_state := KVM_MP_STATE_RUNNABLE, v_lapic := v_lapic v, v_fpu := v_fpu v,
      v_xsave := v_xsave v, v_events := v_events v,
      v_cpuid := filter_cpuid tsc supp, v_apic_base := APIC_DEFAULT_BASE\<rparr>"
  by (simp add: restore_cpu_state_def save_cpu_state_def set_msrs_map setup_cpuid_def Let_def)

text \<open>
  A further core that the kernel has brought online starts in the mode of the boot processor:
  same system registers, same entry point and boot information pointer, and guest memory changes only
  in \<open>current_boot_id\<close>.
\<close>

theorem secondary_core:
  assumes "init_cpu_state tsc supp kh entry 0 st v mem = Some (st0, v0, mem0)"
    and "core \<noteq> 0" and "core \<le> load32 mem1 (kh + KH_CPU_ONLINE)"
  shows "\<exists>w1. init_cpu_state tsc supp kh entry core st0 w mem1 =
           Some (st0, w1, store32 mem1 (kh + KH_CURRENT_BOOT_ID) core) \<and>
         v_sregs w1 = v_sregs v0 \<and> v_regs w1 = v_regs v0 \<and> r_rip (v_regs w1) = entry \<and>
         r_rdi (v_regs w1) = BOOT_INFO_ADDR \<and> v_cpuid w1 = v_cpuid v0 \<and> v_mp_state w1 = KVM_MP_STATE_RUNNABLE"
  using assms
  by (auto simp: init_cpu_state_def setup_system_def setup_cpuid_def Let_def split_beta split: if_splits)

theorem secondary_core_witness:
  "\<exists>st0 v0 mem0 w1. init_cpu_state True [] 0x9000 0x200000 0 zero_sregs zero_vcpu (\<lambda>_. 0) = Some (st0, v0, mem0) \<and>
     init_cpu_state True [] 0x9000 0x200000 1 st0 zero_vcpu (store32 mem0 (0x9000 + KH_CPU_ONLINE) 1) =
       Some (st0, w1, store32 (store32 mem0 (0x9000 + KH_CPU_ONLINE) 1) (0x9000 + KH_CURRENT_BOOT_ID) 1) \<and>
     v_sregs w1 = v_sregs v0"
proof -
  obtain st0 v0 mem0 where e:
    "init_cpu_state True [] 0x9000 0x200000 0 zero_sregs zero_vcpu (\<lambda>_. 0) = Some (st0, v0, mem0)"
    by (auto simp: init_cpu_state_def Let_def split_beta)
  have le: "(1::u32) \<le> load32 (store32 mem0 (0x9000 + KH_CPU_ONLINE) 1) (0x9000 + KH_CPU_ONLINE)"
    by (simp only: load32_store32)
  obtain w1 where
    "init_cpu_state True [] 0x9000 0x200000 1 st0 zero_vcpu (store32 mem0 (0x9000 + KH_CPU_ONLINE) 1) =
       Some (st0, w1, store32 (store32 mem0 (0x9000 + KH_CPU_ONLINE) 1) (0x9000 + KH_CURRENT_BOOT_ID) 1)"
    "v_sregs w1 = v_sregs v0"
    using secondary_core [OF e one_neq_zero le, of zero_vcpu] by blast
  with e show ?thesis by blast
qed

end
