(* ===== verification/Mem_Mappings.thy ===== *)
theory Mem_Mappings
  imports Paging_X86
begin

text \<open>
  The lists of guest memory regions that a migration sends (\<open>mem_mappings_t\<close>): the regions that back
  guest-physical memory around the 32-bit I/O gap, and the regions the guest has allocated, which
  \<open>determine_mem_mappings\<close> of \<open>src/uhyve-x86_64.c\<close> computes from the free list the guest hands over.

  The array \<open>mem_chunks\<close> is a function from \<open>size_t\<close> indices, because the code moves its index below
  the first slot and back (\<open>*cur_slot -= 1\<close> in slot 0 wraps, the following \<open>++cur_slot\<close> undoes it).
  \<open>malloc\<close> returns uninitialised memory: the initial contents are a parameter.
\<close>

unbundle bit_operations_syntax

record mem_chunk =
  c_size :: u64
  c_ptr :: u64

record mem_mappings_t =
  mem_chunks :: "u64 \<Rightarrow> mem_chunk"
  count :: u64

definition KVM_32BIT_MAX_MEM_SIZE :: u64 where "KVM_32BIT_MAX_MEM_SIZE = push_bit 32 1"
definition KVM_32BIT_GAP_SIZE :: u64 where "KVM_32BIT_GAP_SIZE = push_bit 20 768"
definition KVM_32BIT_GAP_START :: u64 where "KVM_32BIT_GAP_START = KVM_32BIT_MAX_MEM_SIZE - KVM_32BIT_GAP_SIZE"
definition KVM_32BIT_GAP_END :: u64 where "KVM_32BIT_GAP_END = KVM_32BIT_GAP_START + KVM_32BIT_GAP_SIZE"

lemma gap_val: "KVM_32BIT_MAX_MEM_SIZE = 0x100000000" "KVM_32BIT_GAP_SIZE = 0x30000000"
  "KVM_32BIT_GAP_START = 0xD0000000" "KVM_32BIT_GAP_END = 0x100000000"
  by (simp_all add: KVM_32BIT_MAX_MEM_SIZE_def KVM_32BIT_GAP_SIZE_def KVM_32BIT_GAP_START_def KVM_32BIT_GAP_END_def)

definition mapping_list :: "mem_mappings_t \<Rightarrow> mem_chunk list" where
  "mapping_list mm = map (\<lambda>i. mem_chunks mm (word_of_nat i)) [0..<unat (count mm)]"

section \<open>Guest-physical memory\<close>

definition determine_guest_physical_memory_regions :: "u64 \<Rightarrow> mem_mappings_t \<Rightarrow> mem_mappings_t" where
  "determine_guest_physical_memory_regions guest_size mm =
    (if guest_size < KVM_32BIT_GAP_START
     then mm\<lparr>count := 1, mem_chunks := (mem_chunks mm)(0 := \<lparr>c_size = guest_size, c_ptr = 0\<rparr>)\<rparr>
     else mm\<lparr>count := 2, mem_chunks := (mem_chunks mm)
            (0 := \<lparr>c_size = KVM_32BIT_GAP_START, c_ptr = 0\<rparr>,
             1 := \<lparr>c_size = guest_size - (KVM_32BIT_GAP_START + KVM_32BIT_GAP_SIZE),
                   c_ptr = KVM_32BIT_GAP_START + KVM_32BIT_GAP_SIZE\<rparr>)\<rparr>)"

text \<open>\<open>guest_mem\<close> is the host address at which the guest's memory is mapped.\<close>

definition convert_to_host_virt :: "u64 \<Rightarrow> mem_mappings_t \<Rightarrow> mem_mappings_t" where
  "convert_to_host_virt guest_mem mm =
     fold (\<lambda>i mm. mm\<lparr>mem_chunks := (mem_chunks mm)(word_of_nat i :=
             (mem_chunks mm (word_of_nat i))\<lparr>c_ptr := guest_mem + c_ptr (mem_chunks mm (word_of_nat i))\<rparr>)\<rparr>)
       [0..<unat (count mm)] mm"

section \<open>Allocated memory\<close>

definition check_for_io_gap :: "mem_mappings_t \<Rightarrow> u64 \<Rightarrow> mem_mappings_t \<times> u64" where
  "check_for_io_gap mm cur_slot =
    (let c = mem_chunks mm cur_slot; cur_start = c_ptr c; cur_end = c_ptr c + c_size c
     in if cur_start = KVM_32BIT_GAP_START \<and> cur_end = KVM_32BIT_GAP_END
        then (mm\<lparr>count := count mm - 1\<rparr>, cur_slot - 1)
        else if cur_end = KVM_32BIT_GAP_END
        then (mm\<lparr>mem_chunks := (mem_chunks mm)(cur_slot := c\<lparr>c_size := c_size c - KVM_32BIT_GAP_SIZE\<rparr>)\<rparr>, cur_slot)
        else if cur_start = KVM_32BIT_GAP_START
        then (mm\<lparr>mem_chunks := (mem_chunks mm)(cur_slot :=
                c\<lparr>c_size := c_size c - KVM_32BIT_GAP_SIZE, c_ptr := c_ptr c + KVM_32BIT_GAP_SIZE\<rparr>)\<rparr>, cur_slot)
        else if cur_start < KVM_32BIT_GAP_START \<and> KVM_32BIT_GAP_END < cur_end
        then (mm\<lparr>mem_chunks := (mem_chunks mm)
                 (cur_slot := c\<lparr>c_size := KVM_32BIT_GAP_START - cur_start\<rparr>,
                  cur_slot + 1 := \<lparr>c_size = cur_end - KVM_32BIT_GAP_END, c_ptr = KVM_32BIT_GAP_END\<rparr>),
                 count := count mm + 1\<rparr>, cur_slot + 1)
        else (mm, cur_slot))"

text \<open>
  A node of the guest's free list, at an offset of guest memory: \<open>start\<close>, \<open>end\<close> and the guest-virtual
  pointer \<open>next\<close>.  The end of the list is the node at offset 0, that is, the pointer \<open>guest_mem\<close>.
\<close>

definition fl_start :: "gmem \<Rightarrow> u64 \<Rightarrow> u64" where "fl_start mem cur = load64 mem cur"
definition fl_end :: "gmem \<Rightarrow> u64 \<Rightarrow> u64" where "fl_end mem cur = load64 mem (cur + 8)"
definition fl_next :: "gmem \<Rightarrow> u64 \<Rightarrow> u64" where
  "fl_next mem cur = virt_to_phys_with_offset mem (load64 mem (cur + 16))"

text \<open>\<open>None\<close>: the fuel does not suffice, as for a cyclic list, on which the loop never ends.\<close>

fun free_list_length :: "nat \<Rightarrow> gmem \<Rightarrow> u64 \<Rightarrow> u64 \<Rightarrow> u64 option" where
  "free_list_length fuel mem cur n =
    (if cur = 0 then Some n
     else case fuel of 0 \<Rightarrow> None | Suc fuel' \<Rightarrow> free_list_length fuel' mem (fl_next mem cur) (n + 1))"

fun free_list_loop :: "nat \<Rightarrow> gmem \<Rightarrow> u64 \<Rightarrow> u64 \<Rightarrow> u64 \<Rightarrow> mem_mappings_t \<Rightarrow> (mem_mappings_t \<times> u64 \<times> u64) option" where
  "free_list_loop fuel mem cur nxt cur_slot mm =
    (if nxt = 0 then Some (mm, cur, cur_slot)
     else case fuel of 0 \<Rightarrow> None
      | Suc fuel' \<Rightarrow>
        (let mm = mm\<lparr>mem_chunks := (mem_chunks mm)(cur_slot :=
               \<lparr>c_size = fl_start mem nxt - fl_end mem cur, c_ptr = fl_end mem cur\<rparr>)\<rparr>;
             (mm, cur_slot) = check_for_io_gap mm cur_slot;
             cur = fl_next mem cur;
             nxt = fl_next mem cur
         in free_list_loop fuel' mem cur nxt (cur_slot + 1) mm))"

declare free_list_length.simps [simp del] free_list_loop.simps [simp del]

definition determine_mem_mappings ::
  "nat \<Rightarrow> (u64 \<Rightarrow> mem_chunk) \<Rightarrow> u64 \<Rightarrow> gmem \<Rightarrow> u64 \<Rightarrow> mem_mappings_t option" where
  "determine_mem_mappings fuel malloced guest_size mem free_list =
    (case free_list_length fuel mem free_list 0 of
       None \<Rightarrow> None
     | Some len \<Rightarrow>
       (let mem_mappings_cnt_max = len + 2;
            mm = \<lparr>mem_chunks = malloced, count = mem_mappings_cnt_max - 2\<rparr>;
            mm = mm\<lparr>mem_chunks := (mem_chunks mm)(0 :=
                   \<lparr>c_size = fl_start mem free_list - 0x800000, c_ptr = 0x800000\<rparr>)\<rparr>;
            (mm, cur_slot) = check_for_io_gap mm 0
        in case free_list_loop fuel mem free_list (fl_next mem free_list) (cur_slot + 1) mm of
             None \<Rightarrow> None
           | Some (mm, cur, cur_slot) \<Rightarrow>
             if guest_size \<noteq> fl_end mem cur
             then let mm = mm\<lparr>mem_chunks := (mem_chunks mm)(cur_slot :=
                        \<lparr>c_size = guest_size - fl_end mem cur, c_ptr = fl_end mem cur\<rparr>)\<rparr>
                  in Some (fst (check_for_io_gap mm cur_slot))
             else Some mm))"

section \<open>Lemmas\<close>

text \<open>The address \<open>a\<close> lies in a chunk, in one of a list of chunks, in the gap.\<close>

definition in_chunk :: "u64 \<Rightarrow> mem_chunk \<Rightarrow> bool" where
  "in_chunk a c \<longleftrightarrow> in_run a (c_ptr c) (unat (c_size c))"

definition covered :: "u64 \<Rightarrow> mem_mappings_t \<Rightarrow> bool" where
  "covered a mm \<longleftrightarrow> list_ex (in_chunk a) (mapping_list mm)"

definition in_gap :: "u64 \<Rightarrow> bool" where
  "in_gap a \<longleftrightarrow> KVM_32BIT_GAP_START \<le> a \<and> a < KVM_32BIT_GAP_END"

lemma in_chunk_nat: "unat (c_ptr c) + unat (c_size c) \<le> 2 ^ 64 \<Longrightarrow>
  in_chunk a c \<longleftrightarrow> unat (c_ptr c) \<le> unat a \<and> unat a < unat (c_ptr c) + unat (c_size c)"
  by (simp add: in_chunk_def in_run_nat)

lemma guest_regions_cover:
  assumes "guest_size < KVM_32BIT_GAP_START \<or> KVM_32BIT_GAP_END \<le> guest_size"
  shows "covered a (determine_guest_physical_memory_regions guest_size mm) \<longleftrightarrow> a < guest_size \<and> \<not> in_gap a"
  using assms unat_less_exp [of guest_size]
  by (auto simp: covered_def mapping_list_def determine_guest_physical_memory_regions_def in_chunk_nat in_gap_def
      gap_val word_less_nat_alt word_le_nat_alt unat_sub upt_rec)

text \<open>The free list in guest memory, and the allocated chunks between its regions.\<close>

primrec free_list_at :: "gmem \<Rightarrow> u64 \<Rightarrow> (u64 \<times> u64) list \<Rightarrow> bool" where
  "free_list_at mem cur [] \<longleftrightarrow> cur = 0"
| "free_list_at mem cur (r # rs) \<longleftrightarrow>
     cur \<noteq> 0 \<and> r = (fl_start mem cur, fl_end mem cur) \<and> free_list_at mem (fl_next mem cur) rs"

primrec between :: "u64 \<Rightarrow> (u64 \<times> u64) list \<Rightarrow> mem_chunk list" where
  "between e [] = []"
| "between e (r # rs) = \<lparr>c_size = fst r - e, c_ptr = e\<rparr> # between (snd r) rs"

lemma length_between [simp]: "length (between e rs) = length rs"
  by (induction rs arbitrary: e) auto

lemma free_list_length_at:
  "free_list_at mem cur rs \<Longrightarrow> length rs \<le> fuel \<Longrightarrow> free_list_length fuel mem cur n = Some (n + word_of_nat (length rs))"
proof (induction rs arbitrary: fuel cur n)
  case (Cons r rs)
  then obtain fuel' where "fuel = Suc fuel'" by (cases fuel) auto
  with Cons show ?case by (simp add: free_list_length.simps [of "Suc _"] algebra_simps)
qed (simp add: free_list_length.simps)

text \<open>Below the gap \<open>check_for_io_gap\<close> leaves a chunk alone.\<close>

lemma check_below_gap:
  assumes "c_ptr (mem_chunks mm slot) < KVM_32BIT_GAP_START"
    and "c_ptr (mem_chunks mm slot) + c_size (mem_chunks mm slot) < KVM_32BIT_GAP_START"
  shows "check_for_io_gap mm slot = (mm, slot)"
  using assms by (auto simp: check_for_io_gap_def Let_def gap_val word_less_nat_alt)

definition below_gap :: "(u64 \<times> u64) list \<Rightarrow> bool" where
  "below_gap rs \<longleftrightarrow> list_all (\<lambda>(s, e). s < KVM_32BIT_GAP_START \<and> e < KVM_32BIT_GAP_START) rs"

lemma free_list_loop_at:
  assumes "free_list_at mem cur (r # rs)" and "length rs \<le> fuel" and "below_gap (r # rs)" and "length rs < 2 ^ 64"
  shows "\<exists>mm' cur'. free_list_loop fuel mem cur (fl_next mem cur) slot mm = Some (mm', cur', slot + word_of_nat (length rs)) \<and>
     count mm' = count mm \<and> fl_end mem cur' = snd (last (r # rs)) \<and>
     (\<forall>i < length rs. mem_chunks mm' (slot + word_of_nat i) = between (snd r) rs ! i) \<and>
     (\<forall>x. length rs \<le> unat (x - slot) \<longrightarrow> mem_chunks mm' x = mem_chunks mm x)"
  using assms
proof (induction rs arbitrary: fuel cur slot mm r)
  case Nil
  then show ?case by (simp add: free_list_loop.simps)
next
  case (Cons q qs)
  let ?nxt = "fl_next mem cur"
  let ?c = "\<lparr>c_size = fl_start mem ?nxt - fl_end mem cur, c_ptr = fl_end mem cur\<rparr>"
  let ?mm = "mm\<lparr>mem_chunks := (mem_chunks mm)(slot := ?c)\<rparr>"
  obtain fuel' where f: "fuel = Suc fuel'"
    using Cons.prems(2) by (cases fuel) auto
  have r: "r = (fl_start mem cur, fl_end mem cur)" and q: "q = (fl_start mem ?nxt, fl_end mem ?nxt)"
    and nz: "?nxt \<noteq> 0" and tl: "free_list_at mem ?nxt (q # qs)"
    using Cons.prems(1) by auto
  have bg: "below_gap (q # qs)" and chk: "check_for_io_gap ?mm slot = (?mm, slot)"
    using Cons.prems(3) by (auto simp: below_gap_def r q intro!: check_below_gap)
  from Cons.IH [OF tl _ bg, of fuel' "slot + 1" ?mm] Cons.prems(2,4) f
  obtain mm' cur' where
    l: "free_list_loop fuel' mem ?nxt (fl_next mem ?nxt) (slot + 1) ?mm = Some (mm', cur', slot + 1 + word_of_nat (length qs))"
    and rest: "count mm' = count mm" "fl_end mem cur' = snd (last (q # qs))"
    and new: "\<And>i. i < length qs \<Longrightarrow> mem_chunks mm' (slot + 1 + word_of_nat i) = between (snd q) qs ! i"
    and old: "\<And>x. length qs \<le> unat (x - (slot + 1)) \<Longrightarrow> mem_chunks mm' x = mem_chunks ?mm x"
    by auto
  have "unat (slot - (slot + 1)) = 2 ^ 64 - 1"
    by (simp add: unsigned_minus_1_eq_mask mask_eq_exp_minus_1)
  then have slot: "mem_chunks mm' slot = ?c"
    using old [of slot] Cons.prems(4) by simp
  have out: "mem_chunks mm' x = mem_chunks mm x" if "length (q # qs) \<le> unat (x - slot)" for x
  proof -
    have "x - slot \<noteq> 0" and e: "x - (slot + 1) = (x - slot) - 1"
      using that by (auto simp: algebra_simps)
    then have "unat (x - (slot + 1)) = unat (x - slot) - 1"
      unfolding e by (intro unat_minus_one)
    then show ?thesis
      using old [of x] that by auto
  qed
  have "mem_chunks mm' (slot + word_of_nat i) = between (snd r) (q # qs) ! i" if "i < length (q # qs)" for i
    using that slot new [of "i - 1"] by (cases i) (simp_all add: r q add.assoc)
  then show ?case
    using l nz rest out
    by (simp add: free_list_loop.simps [of "Suc _"] f chk Let_def algebra_simps)
qed

section \<open>Properties\<close>

text \<open>
  The guest-physical regions of a guest whose memory ends below the gap, or was extended by the gap
  as \<open>init_kvm_arch\<close> does, cover exactly the guest's addresses outside the gap.
\<close>

theorem guest_physical_regions_exact:
  assumes "guest_size < KVM_32BIT_GAP_START \<or> KVM_32BIT_GAP_END \<le> guest_size"
  shows "covered a (determine_guest_physical_memory_regions guest_size mm) \<longleftrightarrow> a < guest_size \<and> \<not> in_gap a"
  using assms by (rule guest_regions_cover)

theorem guest_physical_regions_exact_witness:
  "KVM_32BIT_GAP_END \<le> 0x140000000 \<and>
   covered 0x120000000 (determine_guest_physical_memory_regions 0x140000000 \<lparr>mem_chunks = (\<lambda>_. \<lparr>c_size = 0, c_ptr = 0\<rparr>), count = 0\<rparr>)"
  using guest_physical_regions_exact [of "0x140000000" "0x120000000"] by (simp add: gap_val in_gap_def)

text \<open>
  \<open>check_for_io_gap\<close> on a chunk that contains the gap: the slots from the old position up to
  the new one cover the addresses of the chunk outside the gap, and the counter moves with the slot.
\<close>

theorem check_for_io_gap_exact:
  assumes "c_ptr (mem_chunks mm slot) \<le> KVM_32BIT_GAP_START"
    and "unat KVM_32BIT_GAP_END \<le> unat (c_ptr (mem_chunks mm slot)) + unat (c_size (mem_chunks mm slot))"
    and "unat (c_ptr (mem_chunks mm slot)) + unat (c_size (mem_chunks mm slot)) < 2 ^ 64"
    and "check_for_io_gap mm slot = (mm', slot')"
  shows "count mm' - count mm = slot' - slot \<and>
    (in_chunk a (mem_chunks mm slot) \<and> \<not> in_gap a \<longleftrightarrow>
      (slot' = slot \<and> in_chunk a (mem_chunks mm' slot) \<or>
       slot' = slot + 1 \<and> (in_chunk a (mem_chunks mm' slot) \<or> in_chunk a (mem_chunks mm' (slot + 1)))))"
proof -
  obtain p n where c: "mem_chunks mm slot = \<lparr>c_size = n, c_ptr = p\<rparr>"
    by (metis mem_chunk.surjective old.unit.exhaust)
  have pn: "unat p \<le> 0xD0000000" "0x100000000 \<le> unat p + unat n" "unat p + unat n < 2 ^ 64"
    using assms(1,2,3) by (simp_all add: c gap_val word_le_nat_alt)
  then have u: "unat (p + n) = unat p + unat n"
    by (subst unat_add_lem [THEN iffD1]) simp_all
  have inc: "in_chunk a \<lparr>c_size = k, c_ptr = q\<rparr> \<longleftrightarrow> unat q \<le> unat a \<and> unat a < unat q + unat k"
    if "unat q + unat k \<le> 2 ^ 64" for q k
    using that by (subst in_chunk_nat) simp_all
  have gp: "in_gap a \<longleftrightarrow> 0xD0000000 \<le> unat a \<and> unat a < 0x100000000"
    by (simp add: in_gap_def gap_val word_less_nat_alt word_le_nat_alt)
  have sub: "unat (n - 0x30000000) = unat n - 0x30000000" "unat (0xD0000000 - p) = 0xD0000000 - unat p"
    "unat (p + n - 0x100000000) = unat p + unat n - 0x100000000"
    using pn u by (simp_all add: unat_sub word_le_nat_alt)
  consider (remove) "unat p = 0xD0000000" "unat p + unat n = 0x100000000"
    | (shrink) "unat p < 0xD0000000" "unat p + unat n = 0x100000000"
    | (move) "unat p = 0xD0000000" "unat p + unat n > 0x100000000"
    | (split) "unat p < 0xD0000000" "unat p + unat n > 0x100000000"
    using pn by linarith
  then show ?thesis
  proof cases
    case remove
    then have "p = 0xD0000000" "p + n = 0x100000000"
      using u by (simp_all add: word_unat_eq_iff)
    moreover have "slot - 1 \<noteq> slot + 1" by simp
    ultimately show ?thesis
      using assms(4) remove unfolding c by (auto simp: check_for_io_gap_def gap_val c inc gp)
  next
    case shrink
    then have "p \<noteq> 0xD0000000" "p + n = 0x100000000"
      using u by (auto simp: word_unat_eq_iff)
    then show ?thesis
      using assms(4) shrink unfolding c by (auto simp: check_for_io_gap_def gap_val c inc gp sub)
  next
    case move
    then have "p = 0xD0000000" "p + n \<noteq> 0x100000000"
      using u by (auto simp: word_unat_eq_iff)
    then show ?thesis
      using assms(4) move pn unfolding c by (auto simp: check_for_io_gap_def gap_val c inc gp sub)
  next
    case split
    then have "p < 0xD0000000" "p \<noteq> 0xD0000000" "p + n \<noteq> 0x100000000" "0x100000000 < p + n"
      using u by (auto simp: word_unat_eq_iff word_less_nat_alt)
    then show ?thesis
      using assms(4) split pn unfolding c by (auto simp: check_for_io_gap_def gap_val c inc gp sub)
  qed
qed

theorem check_for_io_gap_exact_witness:
  "\<exists>mm' slot'. check_for_io_gap \<lparr>mem_chunks = (\<lambda>_. \<lparr>c_size = 0x100000000, c_ptr = 0xC0000000\<rparr>), count = 1\<rparr> 0 = (mm', slot') \<and>
     count mm' - 1 = slot' \<and>
     (slot' = 0 \<and> in_chunk 0xC0000010 (mem_chunks mm' 0) \<or>
      slot' = 1 \<and> (in_chunk 0xC0000010 (mem_chunks mm' 0) \<or> in_chunk 0xC0000010 (mem_chunks mm' 1)))"
proof -
  let ?mm = "\<lparr>mem_chunks = (\<lambda>_. \<lparr>c_size = 0x100000000, c_ptr = 0xC0000000\<rparr>), count = 1\<rparr>"
  obtain mm' slot' where e: "check_for_io_gap ?mm 0 = (mm', slot')"
    by (metis prod.exhaust)
  have "in_chunk 0xC0000010 (mem_chunks ?mm 0) \<and> \<not> in_gap 0xC0000010"
    by (simp add: in_chunk_nat in_gap_def gap_val)
  with check_for_io_gap_exact [OF _ _ _ e, of "0xC0000010"] e show ?thesis
    by (simp add: gap_val)
qed

lemma mapping_list_nth: "i < unat (count mm) \<Longrightarrow> mapping_list mm ! i = mem_chunks mm (word_of_nat i)"
  by (simp add: mapping_list_def)

text \<open>
  C19.  On the free list of a guest below the gap, \<open>determine_mem_mappings\<close> ends and reports the chunk
  before the first free region and the chunks between free regions, in order, and no more: the
  allocation behind the last free region is stored in a slot that \<open>count\<close> does not include.
\<close>

theorem determine_mem_mappings_below_gap:
  assumes "free_list_at mem free_list (r # rs)" and "below_gap (r # rs)" and "guest_size < KVM_32BIT_GAP_START"
    and "length (r # rs) \<le> fuel" and "length (r # rs) < 2 ^ 64"
  shows "\<exists>mm. determine_mem_mappings fuel malloced guest_size mem free_list = Some mm \<and>
    mapping_list mm = \<lparr>c_size = fst r - 0x800000, c_ptr = 0x800000\<rparr> # between (snd r) rs"
proof -
  let ?n = "word_of_nat (length (r # rs)) :: u64"
  let ?c = "\<lparr>c_size = fst r - 0x800000, c_ptr = 0x800000\<rparr>"
  let ?mm = "\<lparr>mem_chunks = malloced(0 := ?c), count = ?n\<rparr>"
  have r: "r = (fl_start mem free_list, fl_end mem free_list)"
    using assms(1) by simp
  have n: "unat ?n = length (r # rs)"
    using assms(5) by (intro unat_word_of_nat_u64)
  have len: "free_list_length fuel mem free_list 0 = Some ?n"
    using free_list_length_at [OF assms(1,4), of 0] by simp
  have c0: "check_for_io_gap ?mm 0 = (?mm, 0)"
    using assms(2) by (intro check_below_gap) (auto simp: gap_val below_gap_def)
  obtain mm' cur' where
    l: "free_list_loop fuel mem free_list (fl_next mem free_list) 1 ?mm = Some (mm', cur', 1 + word_of_nat (length rs))"
    and cnt: "count mm' = ?n" and e: "fl_end mem cur' = snd (last (r # rs))"
    and new: "\<And>i. i < length rs \<Longrightarrow> mem_chunks mm' (1 + word_of_nat i) = between (snd r) rs ! i"
    and old: "\<And>x. length rs \<le> unat (x - 1) \<Longrightarrow> mem_chunks mm' x = mem_chunks ?mm x"
    using free_list_loop_at [OF assms(1) _ assms(2), of fuel 1 ?mm] assms(4,5) by auto
  have z: "mem_chunks mm' 0 = ?c"
    using old [of 0] assms(5) by (simp add: unsigned_minus_1_eq_mask mask_eq_exp_minus_1)
  have "last (r # rs) \<in> set (r # rs)"
    by (rule last_in_set) simp
  then have eb: "fl_end mem cur' < KVM_32BIT_GAP_START"
    using assms(2) e by (auto simp: below_gap_def list_all_iff)
  define mm where "mm = (if guest_size \<noteq> fl_end mem cur'
     then mm'\<lparr>mem_chunks := (mem_chunks mm')(?n := \<lparr>c_size = guest_size - fl_end mem cur', c_ptr = fl_end mem cur'\<rparr>)\<rparr> else mm')"
  have "determine_mem_mappings fuel malloced guest_size mem free_list = Some mm"
    using len c0 l eb assms(3) r
    by (simp add: determine_mem_mappings_def mm_def Let_def check_below_gap)
  moreover have "mapping_list mm = ?c # between (snd r) rs"
  proof (rule nth_equalityI)
    show "length (mapping_list mm) = length (?c # between (snd r) rs)"
      using n cnt by (simp add: mapping_list_def mm_def)
    fix i assume "i < length (mapping_list mm)"
    then have i: "i < length (r # rs)"
      using n cnt by (simp add: mapping_list_def mm_def split: if_splits)
    then have "(word_of_nat i :: u64) \<noteq> ?n"
      using n assms(5) by (metis less_irrefl less_trans unat_word_of_nat_u64)
    then have "mapping_list mm ! i = mem_chunks mm' (word_of_nat i)"
      using i n cnt by (simp add: mapping_list_nth mm_def)
    then show "mapping_list mm ! i = (?c # between (snd r) rs) ! i"
      using z new [of "i - 1"] i by (cases i) simp_all
  qed
  ultimately show ?thesis by blast
qed

text \<open>A guest whose only free region is \<open>[0x900000, 0xA00000)\<close>, with the list's node at \<open>0x20000\<close>.\<close>

definition one_region_mem :: gmem where
  "one_region_mem = store64 (store64 (\<lambda>_. 0) 0x20000 0x900000) 0x20008 0xA00000"

lemma one_region_free_list: "free_list_at one_region_mem 0x20000 [(0x900000, 0xA00000)]"
proof -
  have "load64 one_region_mem 0x20000 = 0x900000" "load64 one_region_mem 0x20008 = 0xA00000"
    "load64 one_region_mem 0x20010 = 0" and p: "load64 one_region_mem 0x10000 = 0"
    by (simp_all add: one_region_mem_def load64_store64_other disj_num)
  moreover have "leaf one_region_mem 0 = None"
    using p by (simp add: leaf_def leaf_of.simps [of _ _ _ 3] BOOT_PML4_def pt_index_def)
  ultimately show ?thesis
    by (simp add: fl_start_def fl_end_def fl_next_def virt_to_phys_with_offset_def leaf_walk)
qed

theorem determine_mem_mappings_below_gap_witness:
  "\<exists>mm. determine_mem_mappings 1 (\<lambda>_. \<lparr>c_size = 0, c_ptr = 0\<rparr>) 0x40000000 one_region_mem 0x20000 = Some mm \<and>
     mapping_list mm = [\<lparr>c_size = 0x100000, c_ptr = 0x800000\<rparr>] \<and> \<not> covered 0xB00000 mm"
proof -
  have "below_gap [(0x900000, 0xA00000)]" "(0x40000000 :: u64) < KVM_32BIT_GAP_START"
    by (simp_all add: below_gap_def gap_val)
  from determine_mem_mappings_below_gap [OF one_region_free_list this, of 1]
  show ?thesis
    by (fastforce simp: covered_def in_chunk_nat)
qed

end
