(* ===== verification/Migration_Channel.thy ===== *)
theory Migration_Channel
  imports Mem_Mappings
begin

text \<open>
  The migration channel: \<open>send_data\<close> and \<open>recv_data\<close> of \<open>src/uhyve-migration.c\<close>, the objects sent through it
  (\<open>mig_params_t\<close>, \<open>migration_metadata_t\<close>, lists of memory regions) and the TCP variant of the copy phases,
  \<open>src/uhyve-migration-tcp.c\<close>.

  A connected socket is the record \<open>sock\<close>: the bytes that will arrive, the bytes sent, and a script with what the
  successive calls of \<open>send\<close> and \<open>recv\<close> do, at most \<open>n\<close> bytes or a failure; behind the end of the script every call takes
  all it can.  \<open>recv\<close> returns 0 when no byte will arrive.  The loops may run forever (\<open>None\<close>).  The interface \<open>channel\<close>
  is what the migration relies on.
\<close>

unbundle bit_operations_syntax

section \<open>The socket\<close>

datatype io = IoChunk nat | IoErr

record sock =
  s_in :: bytes
  s_out :: bytes
  s_script :: "io list"

definition io_take :: "sock \<Rightarrow> nat \<Rightarrow> nat option \<times> sock" where
  "io_take s n = (case s_script s of
       [] \<Rightarrow> (Some n, s)
     | IoErr # script \<Rightarrow> (None, s\<lparr>s_script := script\<rparr>)
     | IoChunk k # script \<Rightarrow> (Some (min (max 1 k) n), s\<lparr>s_script := script\<rparr>))"

definition sock_send :: "sock \<Rightarrow> bytes \<Rightarrow> int \<times> sock" where
  "sock_send s bs = (case io_take s (length bs) of
       (None, s) \<Rightarrow> (-1, s)
     | (Some k, s) \<Rightarrow> (int k, s\<lparr>s_out := s_out s @ take k bs\<rparr>))"

definition sock_recv :: "sock \<Rightarrow> nat \<Rightarrow> int \<times> bytes \<times> sock" where
  "sock_recv s n = (case io_take s (min n (length (s_in s))) of
       (None, s) \<Rightarrow> (-1, [], s)
     | (Some k, s) \<Rightarrow> (int k, take k (s_in s), s\<lparr>s_in := drop k (s_in s)\<rparr>))"

section \<open>Sending and receiving\<close>

text \<open>\<open>bytes_sent += send(...)\<close> adds the signed result to a \<open>size_t\<close>.\<close>

partial_function (option) send_loop :: "sock \<Rightarrow> bytes \<Rightarrow> u64 \<Rightarrow> (u64 \<times> sock) option" where
  "send_loop s buffer bytes_sent =
    (if bytes_sent < word_of_nat (length buffer)
     then (case sock_send s (drop (unat bytes_sent) buffer) of
             (ret, s) \<Rightarrow> send_loop s buffer (bytes_sent + word_of_int ret))
     else Some (bytes_sent, s))"

definition send_data :: "sock \<Rightarrow> bytes \<Rightarrow> (u32 \<times> sock) option" where
  "send_data s buffer = map_option (\<lambda>(n, s). (ucast n, s)) (send_loop s buffer 0)"

definition overlay :: "bytes \<Rightarrow> nat \<Rightarrow> bytes \<Rightarrow> bytes" where
  "overlay buf k bs = take k buf @ bs @ drop (k + length bs) buf"

partial_function (option) recv_loop :: "sock \<Rightarrow> bytes \<Rightarrow> u64 \<Rightarrow> (u64 \<times> bytes \<times> sock) option" where
  "recv_loop s buffer bytes_received =
    (if bytes_received < word_of_nat (length buffer)
     then (case sock_recv s (length buffer - unat bytes_received) of
             (ret, bs, s) \<Rightarrow> recv_loop s (overlay buffer (unat bytes_received) bs) (bytes_received + word_of_int ret))
     else Some (bytes_received, buffer, s))"

definition recv_data :: "sock \<Rightarrow> bytes \<Rightarrow> (u32 \<times> bytes \<times> sock) option" where
  "recv_data s buffer = map_option (\<lambda>(n, buf, s). (ucast n, buf, s)) (recv_loop s buffer 0)"

section \<open>The interface of a channel\<close>

locale channel =
  fixes ok :: "'s \<Rightarrow> bool" and out :: "'s \<Rightarrow> bytes" and inp :: "'s \<Rightarrow> bytes"
    and put :: "'s \<Rightarrow> bytes \<Rightarrow> 's option" and get :: "'s \<Rightarrow> nat \<Rightarrow> (bytes \<times> 's) option"
  assumes put: "ok s \<Longrightarrow> length bs < 2 ^ 64 \<Longrightarrow> \<exists>s'. put s bs = Some s' \<and> ok s' \<and> out s' = out s @ bs \<and> inp s' = inp s"
    and get: "ok s \<Longrightarrow> n \<le> length (inp s) \<Longrightarrow> n < 2 ^ 64 \<Longrightarrow>
      \<exists>s'. get s n = Some (take n (inp s), s') \<and> ok s' \<and> inp s' = drop n (inp s) \<and> out s' = out s"
begin

text \<open>A sequence of messages, sent and received with their lengths.\<close>

fun put_all :: "bytes list \<Rightarrow> 's \<Rightarrow> 's option" where
  "put_all [] s = Some s"
| "put_all (b # bs) s = Option.bind (put s b) (put_all bs)"

fun get_all :: "nat list \<Rightarrow> 's \<Rightarrow> (bytes list \<times> 's) option" where
  "get_all [] s = Some ([], s)"
| "get_all (n # ns) s = Option.bind (get s n) (\<lambda>(b, s). map_option (\<lambda>(bs, s). (b # bs, s)) (get_all ns s))"

lemma put_all_out:
  "ok s \<Longrightarrow> list_all (\<lambda>b. length b < 2 ^ 64) bs \<Longrightarrow>
     \<exists>s'. put_all bs s = Some s' \<and> ok s' \<and> out s' = out s @ concat bs \<and> inp s' = inp s"
proof (induction bs arbitrary: s)
  case (Cons b bs)
  obtain s1 where 1: "put s b = Some s1" "ok s1" "out s1 = out s @ b" "inp s1 = inp s"
    using put [of s b] Cons.prems by auto
  obtain s2 where "put_all bs s1 = Some s2 \<and> ok s2 \<and> out s2 = out s1 @ concat bs \<and> inp s2 = inp s1"
    using Cons.IH [OF 1(2)] Cons.prems(2) by auto
  with 1 show ?case by simp
qed simp

lemma get_message:
  "ok s \<Longrightarrow> inp s = b @ rest \<Longrightarrow> length b < 2 ^ 64 \<Longrightarrow> \<exists>s'. get s (length b) = Some (b, s') \<and> ok s' \<and> inp s' = rest \<and> out s' = out s"
  using get [of s "length b"] by auto

lemma get_all_inp:
  "ok s \<Longrightarrow> list_all (\<lambda>b. length b < 2 ^ 64) bs \<Longrightarrow> inp s = concat bs @ rest \<Longrightarrow>
     \<exists>s'. get_all (map length bs) s = Some (bs, s') \<and> ok s' \<and> inp s' = rest"
proof (induction bs arbitrary: s)
  case (Cons b bs)
  obtain s1 where 1: "get s (length b) = Some (b, s1)" "ok s1" "inp s1 = concat bs @ rest"
    using get_message [of s b "concat bs @ rest"] Cons.prems by auto
  obtain s2 where "get_all (map length bs) s1 = Some (bs, s2) \<and> ok s2 \<and> inp s2 = rest"
    using Cons.IH [OF 1(2) _ 1(3)] Cons.prems(2) by auto
  with 1 show ?case by simp
qed simp

text \<open>What one side sends as a sequence of messages, the other side receives.\<close>

lemma transfer:
  assumes "ok s" and "list_all (\<lambda>b. length b < 2 ^ 64) bs" and "put_all bs s = Some s'" and "ok r" and "inp r = drop (length (out s)) (out s')"
  shows "\<exists>r'. get_all (map length bs) r = Some (bs, r') \<and> ok r' \<and> inp r' = []"
proof -
  have "out s' = out s @ concat bs"
    using put_all_out [OF assms(1,2)] assms(3) by auto
  then show ?thesis
    using get_all_inp [OF assms(4,2), of "[]"] assms(5) by simp
qed

end

section \<open>The socket is a channel\<close>

definition no_errors :: "sock \<Rightarrow> bool" where
  "no_errors s \<longleftrightarrow> list_all (\<lambda>io. io \<noteq> IoErr) (s_script s)"

definition sock_put :: "sock \<Rightarrow> bytes \<Rightarrow> sock option" where
  "sock_put s bs = map_option snd (send_data s bs)"

definition sock_get :: "sock \<Rightarrow> nat \<Rightarrow> (bytes \<times> sock) option" where
  "sock_get s n = map_option snd (recv_data s (replicate n 0))"

lemma io_take_ok:
  assumes "no_errors s" and "0 < n"
  obtains k s' where "io_take s n = (Some k, s')" "0 < k" "k \<le> n" "no_errors s'" "s_in s' = s_in s" "s_out s' = s_out s"
proof (cases "s_script s")
  case Nil
  then show ?thesis using assms that [of n s] by (simp add: io_take_def)
next
  case (Cons io script)
  with assms(1) obtain j where "io = IoChunk j" by (cases io) (auto simp: no_errors_def)
  then show ?thesis
    using Cons assms that [of "min (max 1 j) n" "s\<lparr>s_script := script\<rparr>"] by (simp add: io_take_def no_errors_def)
qed

lemma send_loop_all:
  assumes "no_errors s" and "length buffer < 2 ^ 64" and "k \<le> length buffer"
  shows "\<exists>s'. send_loop s buffer (word_of_nat k) = Some (word_of_nat (length buffer), s') \<and> no_errors s' \<and>
    s_out s' = s_out s @ drop k buffer \<and> s_in s' = s_in s"
  using assms(1,3)
proof (induction "length buffer - k" arbitrary: k s rule: less_induct)
  case less
  have k: "unat (word_of_nat k :: u64) = k"
    using less.prems(2) assms(2) by (intro unat_word_of_nat_u64) simp
  have lt: "(word_of_nat k :: u64) < word_of_nat (length buffer) \<longleftrightarrow> k < length buffer"
    using k assms(2) by (simp add: word_less_nat_alt unat_word_of_nat_u64)
  show ?case
  proof (cases "k < length buffer")
    case False
    then show ?thesis
      using less.prems lt by (subst send_loop.simps) auto
  next
    case True
    then have "0 < length (drop k buffer)" by simp
    with less.prems(1) obtain j s1 where j: "io_take s (length (drop k buffer)) = (Some j, s1)" "0 < j" "j \<le> length (drop k buffer)"
      "no_errors s1" "s_in s1 = s_in s" "s_out s1 = s_out s" by (rule io_take_ok)
    let ?s = "s1\<lparr>s_out := s_out s1 @ take j (drop k buffer)\<rparr>"
    have "send_loop s buffer (word_of_nat k) = send_loop ?s buffer (word_of_nat (k + j))"
      using True lt k j(1) by (subst send_loop.simps) (simp add: sock_send_def)
    moreover have "no_errors ?s" using j(4) by (simp add: no_errors_def)
    moreover have "take j (drop k buffer) @ drop (k + j) buffer = drop k buffer"
      by (metis add.commute append_take_drop_id drop_drop)
    ultimately show ?thesis
      using less.hyps [of "k + j" ?s] j True by auto
  qed
qed

lemma recv_loop_all:
  assumes "no_errors s" and "length buffer < 2 ^ 64" and "k \<le> length buffer" and "length buffer - k \<le> length (s_in s)"
  shows "\<exists>s'. recv_loop s buffer (word_of_nat k) =
      Some (word_of_nat (length buffer), take k buffer @ take (length buffer - k) (s_in s), s') \<and> no_errors s' \<and>
    s_in s' = drop (length buffer - k) (s_in s) \<and> s_out s' = s_out s"
  using assms
proof (induction "length buffer - k" arbitrary: k s buffer rule: less_induct)
  case less
  have k: "unat (word_of_nat k :: u64) = k"
    using less.prems(2,3) by (intro unat_word_of_nat_u64) simp
  have lt: "(word_of_nat k :: u64) < word_of_nat (length buffer) \<longleftrightarrow> k < length buffer"
    using k less.prems(2) by (simp add: word_less_nat_alt unat_word_of_nat_u64)
  show ?case
  proof (cases "k < length buffer")
    case False
    then show ?thesis
      using less.prems lt by (subst recv_loop.simps) auto
  next
    case True
    let ?n = "min (length buffer - k) (length (s_in s))"
    have n: "?n = length buffer - k" "0 < ?n" using True less.prems(4) by auto
    from less.prems(1) n(2) obtain j s1 where j: "io_take s ?n = (Some j, s1)" "0 < j" "j \<le> ?n"
      "no_errors s1" "s_in s1 = s_in s" "s_out s1 = s_out s" by (rule io_take_ok)
    let ?s = "s1\<lparr>s_in := drop j (s_in s)\<rparr>"
    let ?buf = "overlay buffer k (take j (s_in s))"
    have lj: "length (take j (s_in s)) = j" using j(3) less.prems(4) by simp
    have len: "length ?buf = length buffer"
      using j(3) True lj by (simp add: overlay_def) linarith
    have "recv_loop s buffer (word_of_nat k) = recv_loop ?s ?buf (word_of_nat (k + j))"
      using True lt k j(1,5) by (subst recv_loop.simps) (simp add: sock_recv_def)
    moreover have "no_errors ?s" using j(4) by (simp add: no_errors_def)
    moreover have t: "take (k + j) ?buf = take k buffer @ take j (s_in s)"
      using True lj by (simp add: overlay_def)
    moreover have "take j (s_in s) @ take (length buffer - (k + j)) (drop j (s_in s)) = take (length buffer - k) (s_in s)"
    proof -
      have e: "length buffer - k = j + (length buffer - (k + j))"
        using j(3) n(1) by linarith
      show ?thesis by (subst e) (rule take_add [symmetric])
    qed
    ultimately show ?thesis
      using less.hyps [of ?buf "k + j" ?s] j n less.prems(2-4) len by auto
  qed
qed

interpretation tcp: channel no_errors s_out s_in sock_put sock_get
proof
  fix s bs assume "no_errors s" "length (bs :: bytes) < 2 ^ 64"
  then show "\<exists>s'. sock_put s bs = Some s' \<and> no_errors s' \<and> s_out s' = s_out s @ bs \<and> s_in s' = s_in s"
    using send_loop_all [of s bs 0] by (auto simp: sock_put_def send_data_def)
next
  fix s and n :: nat assume "no_errors s" "n \<le> length (s_in s)" "n < 2 ^ 64"
  then show "\<exists>s'. sock_get s n = Some (take n (s_in s), s') \<and> no_errors s' \<and> s_in s' = drop n (s_in s) \<and> s_out s' = s_out s"
    using recv_loop_all [of s "replicate n 0" 0] by (auto simp: sock_get_def recv_data_def)
qed

section \<open>Parameters\<close>

datatype mig_mode_t = MIG_MODE_COMPLETE_DUMP | MIG_MODE_INCREMENTAL_DUMP
datatype mig_type_t = MIG_TYPE_COLD | MIG_TYPE_LIVE

record mig_params_t =
  p_type :: mig_type_t
  p_mode :: mig_mode_t
  p_use_odp :: bool
  p_prefetch :: bool

definition default_mig_params :: mig_params_t where
  "default_mig_params = \<lparr>p_type = MIG_TYPE_COLD, p_mode = MIG_MODE_COMPLETE_DUMP, p_use_odp = False, p_prefetch = False\<rparr>"

definition mig_mode_conv :: "(mig_mode_t \<times> string) list" where
  "mig_mode_conv = [(MIG_MODE_COMPLETE_DUMP, ''complete-dump''), (MIG_MODE_INCREMENTAL_DUMP, ''incremental-dump'')]"

definition mig_type_conv :: "(mig_type_t \<times> string) list" where
  "mig_type_conv = [(MIG_TYPE_COLD, ''cold''), (MIG_TYPE_LIVE, ''live'')]"

text \<open>The setters go through the whole table; the last match wins and an unknown string changes nothing.\<close>

definition set_migration_type :: "string option \<Rightarrow> mig_params_t \<Rightarrow> mig_params_t" where
  "set_migration_type str mp = (case str of None \<Rightarrow> mp
     | Some s \<Rightarrow> fold (\<lambda>(v, name) mp. if s = name then mp\<lparr>p_type := v\<rparr> else mp) mig_type_conv mp)"

definition set_migration_mode :: "string option \<Rightarrow> mig_params_t \<Rightarrow> mig_params_t" where
  "set_migration_mode str mp = (case str of None \<Rightarrow> mp
     | Some s \<Rightarrow> fold (\<lambda>(v, name) mp. if s = name then mp\<lparr>p_mode := v\<rparr> else mp) mig_mode_conv mp)"

definition type_index :: "mig_type_t \<Rightarrow> nat" where
  "type_index v = (case v of MIG_TYPE_COLD \<Rightarrow> 0 | MIG_TYPE_LIVE \<Rightarrow> 1)"
definition mode_index :: "mig_mode_t \<Rightarrow> nat" where
  "mode_index v = (case v of MIG_MODE_COMPLETE_DUMP \<Rightarrow> 0 | MIG_MODE_INCREMENTAL_DUMP \<Rightarrow> 1)"

definition get_migration_type_str :: "mig_type_t \<Rightarrow> string" where
  "get_migration_type_str v = snd (mig_type_conv ! type_index v)"

definition get_migration_mode_str :: "mig_mode_t \<Rightarrow> string" where
  "get_migration_mode_str v = snd (mig_mode_conv ! mode_index v)"

section \<open>Objects on the wire\<close>

text \<open>
  The representations of \<open>mig_params_t\<close> (12 bytes), \<open>migration_metadata_t\<close> (40 bytes) and \<open>mem_chunk_t\<close> (16 bytes); padding
  bytes, whose values the C language leaves open, are 0 here and ignored by the receiver.
\<close>

record migration_metadata_t =
  md_ncores :: u32
  md_guest_size :: u64
  md_no_checkpoint :: u32
  md_elf_entry :: u64
  md_full_checkpoint :: bool

definition enc_bool :: "bool \<Rightarrow> bytes" where "enc_bool b = [if b then 1 else 0]"
definition dec_bool :: "bytes \<Rightarrow> bool" where "dec_bool bs \<longleftrightarrow> hd bs \<noteq> 0"

definition enc_params :: "mig_params_t \<Rightarrow> bytes" where
  "enc_params mp = enc32 (word_of_nat (type_index (p_type mp))) @ enc32 (word_of_nat (mode_index (p_mode mp))) @
     enc_bool (p_use_odp mp) @ enc_bool (p_prefetch mp) @ [0, 0]"

definition dec_params :: "bytes \<Rightarrow> mig_params_t" where
  "dec_params bs = \<lparr>p_type = (if dec32 (take 4 bs) = 0 then MIG_TYPE_COLD else MIG_TYPE_LIVE),
     p_mode = (if dec32 (take 4 (drop 4 bs)) = 0 then MIG_MODE_COMPLETE_DUMP else MIG_MODE_INCREMENTAL_DUMP),
     p_use_odp = dec_bool (drop 8 bs), p_prefetch = dec_bool (drop 9 bs)\<rparr>"

definition enc_metadata :: "migration_metadata_t \<Rightarrow> bytes" where
  "enc_metadata md = enc32 (md_ncores md) @ replicate 4 0 @ enc64 (md_guest_size md) @ enc32 (md_no_checkpoint md) @ replicate 4 0 @
     enc64 (md_elf_entry md) @ enc_bool (md_full_checkpoint md) @ replicate 7 0"

definition dec_metadata :: "bytes \<Rightarrow> migration_metadata_t" where
  "dec_metadata bs = \<lparr>md_ncores = dec32 (take 4 bs), md_guest_size = dec64 (take 8 (drop 8 bs)),
     md_no_checkpoint = dec32 (take 4 (drop 16 bs)), md_elf_entry = dec64 (take 8 (drop 24 bs)),
     md_full_checkpoint = dec_bool (drop 32 bs)\<rparr>"

definition enc_chunk :: "mem_chunk \<Rightarrow> bytes" where
  "enc_chunk c = enc64 (c_size c) @ enc64 (c_ptr c)"

definition dec_chunk :: "bytes \<Rightarrow> mem_chunk" where
  "dec_chunk bs = \<lparr>c_size = dec64 (take 8 bs), c_ptr = dec64 (take 8 (drop 8 bs))\<rparr>"

interpretation params: codec enc_params dec_params 12
proof
  fix mp :: mig_params_t
  show "dec_params (enc_params mp) = mp"
    by (cases mp; cases "p_type mp"; cases "p_mode mp")
      (simp_all add: enc_params_def dec_params_def c32.dec_enc c32.length_enc enc_bool_def dec_bool_def type_index_def mode_index_def)
qed (simp_all add: enc_params_def c32.length_enc enc_bool_def)

interpretation metadata: codec enc_metadata dec_metadata 40
proof
  fix md :: migration_metadata_t
  show "dec_metadata (enc_metadata md) = md"
    by (simp add: enc_metadata_def dec_metadata_def c32.dec_enc c32.length_enc c64.dec_enc c64.length_enc enc_bool_def dec_bool_def)
qed (simp_all add: enc_metadata_def c32.length_enc c64.length_enc enc_bool_def)

interpretation chunk: codec enc_chunk dec_chunk 16
  by unfold_locales (simp_all add: enc_chunk_def dec_chunk_def c64.dec_enc c64.length_enc)

section \<open>Memory regions\<close>

definition send_mem_regions :: "mig_params_t \<Rightarrow> mem_mappings_t \<Rightarrow> mem_mappings_t \<Rightarrow> sock \<Rightarrow> sock option" where
  "send_mem_regions mp guest_physical_memory mem_mappings s =
    (let mm = (if p_type mp = MIG_TYPE_LIVE \<or> count mem_mappings = 0 then guest_physical_memory else mem_mappings)
     in Option.bind (sock_put s (enc64 (count mm))) (\<lambda>s. sock_put s (concat (map enc_chunk (mapping_list mm)))))"

primrec dec_chunks :: "nat \<Rightarrow> bytes \<Rightarrow> mem_chunk list" where
  "dec_chunks 0 bs = []"
| "dec_chunks (Suc n) bs = dec_chunk (take 16 bs) # dec_chunks n (drop 16 bs)"

definition chunk_array :: "mem_chunk list \<Rightarrow> u64 \<Rightarrow> mem_chunk" where
  "chunk_array cs i = (if unat i < length cs then cs ! unat i else \<lparr>c_size = 0, c_ptr = 0\<rparr>)"

text \<open>\<open>count*sizeof(mem_chunk_t)\<close> is computed in \<open>size_t\<close>.\<close>

definition recv_mem_regions :: "sock \<Rightarrow> (mem_mappings_t \<times> sock) option" where
  "recv_mem_regions s =
    Option.bind (sock_get s 8) (\<lambda>(bs, s).
      let n = dec64 bs; recv_bytes = unat (n * 16)
      in map_option (\<lambda>(bs, s). (\<lparr>mem_chunks = chunk_array (dec_chunks (recv_bytes div 16) bs), count = n\<rparr>, s))
           (sock_get s recv_bytes))"

section \<open>The copy phases over TCP\<close>

text \<open>\<open>hmem\<close> is the memory of the process, addressed by host addresses.\<close>

definition precopy_phase :: "mig_params_t \<Rightarrow> mem_mappings_t \<Rightarrow> mem_mappings_t \<Rightarrow> mem_mappings_t" where
  "precopy_phase mp guest_mem mem_mappings = (if p_type mp = MIG_TYPE_LIVE then guest_mem else mem_mappings)"

fun send_chunks :: "gmem \<Rightarrow> mem_chunk list \<Rightarrow> sock \<Rightarrow> sock option" where
  "send_chunks hmem [] s = Some s"
| "send_chunks hmem (c # cs) s =
    Option.bind (sock_put s (load_bytes hmem (c_ptr c) (unat (c_size c)))) (send_chunks hmem cs)"

text \<open>An incremental dump falls through to the complete one.\<close>

definition stop_and_copy_phase :: "mig_params_t \<Rightarrow> gmem \<Rightarrow> mem_mappings_t \<Rightarrow> sock \<Rightarrow> sock option" where
  "stop_and_copy_phase mp hmem mappings_to_be_transferred s =
    (case p_mode mp of
       MIG_MODE_INCREMENTAL_DUMP \<Rightarrow> send_chunks hmem (mapping_list mappings_to_be_transferred) s
     | MIG_MODE_COMPLETE_DUMP \<Rightarrow> send_chunks hmem (mapping_list mappings_to_be_transferred) s)"

fun recv_chunks :: "mem_chunk list \<Rightarrow> gmem \<times> sock \<Rightarrow> (gmem \<times> sock) option" where
  "recv_chunks [] st = Some st"
| "recv_chunks (c # cs) (hmem, s) =
    Option.bind (recv_data s (load_bytes hmem (c_ptr c) (unat (c_size c))))
      (\<lambda>(_, bs, s). recv_chunks cs (store_bytes hmem (c_ptr c) bs, s))"

definition recv_guest_mem :: "mem_mappings_t \<Rightarrow> gmem \<times> sock \<Rightarrow> (gmem \<times> sock) option" where
  "recv_guest_mem mem_mappings st = recv_chunks (mapping_list mem_mappings) st"

section \<open>Lemmas\<close>

lemma ucast_len: "n < 2 ^ 64 \<Longrightarrow> (ucast (word_of_nat n :: u64) :: u32) = word_of_nat n"
  by (simp add: unsigned_of_nat take_bit_nat_eq_self)

lemma recv_data_get:
  assumes "no_errors s" and "s_in s = bs @ rest" and "length bs < 2 ^ 64" and "length buf = length bs"
  shows "\<exists>s'. recv_data s buf = Some (word_of_nat (length bs), bs, s') \<and> no_errors s' \<and> s_in s' = rest \<and> s_out s' = s_out s"
  using recv_loop_all [of s buf 0] assms by (auto simp: recv_data_def ucast_len)

lemma send_chunks_out:
  "no_errors s \<Longrightarrow> \<exists>s'. send_chunks hmem cs s = Some s' \<and> no_errors s' \<and> s_in s' = s_in s \<and>
     s_out s' = s_out s @ concat (map (\<lambda>c. load_bytes hmem (c_ptr c) (unat (c_size c))) cs)"
proof (induction cs arbitrary: s)
  case (Cons c cs)
  have "length (load_bytes hmem (c_ptr c) (unat (c_size c))) < 2 ^ 64"
    using unat_less_exp [of "c_size c"] by simp
  with tcp.put [OF Cons.prems this] obtain s1 where 1: "sock_put s (load_bytes hmem (c_ptr c) (unat (c_size c))) = Some s1" "no_errors s1"
    "s_out s1 = s_out s @ load_bytes hmem (c_ptr c) (unat (c_size c))" "s_in s1 = s_in s" by blast
  from Cons.IH [OF 1(2)] 1 show ?case by auto
qed simp

text \<open>
  Receiving chunks whose bytes come from a memory \<open>src\<close> makes the memory equal to \<open>src\<close> on the chunks, also when chunks overlap.
\<close>

lemma recv_chunks_at:
  assumes "no_errors s" and "s_in s = concat (map (\<lambda>c. load_bytes src (c_ptr c) (unat (c_size c))) cs) @ rest"
  shows "\<exists>hmem' s'. recv_chunks cs (hmem, s) = Some (hmem', s') \<and> no_errors s' \<and> s_in s' = rest \<and>
    (\<forall>x. hmem' x = (if list_ex (in_chunk x) cs then src x else hmem x))"
  using assms
proof (induction cs arbitrary: hmem s)
  case (Cons c cs)
  let ?bs = "load_bytes src (c_ptr c) (unat (c_size c))"
  have "length ?bs < 2 ^ 64" using unat_less_exp [of "c_size c"] by simp
  with recv_data_get [OF Cons.prems(1), of ?bs _ "load_bytes hmem (c_ptr c) (unat (c_size c))"] Cons.prems(2)
  obtain n s1 where 1: "recv_data s (load_bytes hmem (c_ptr c) (unat (c_size c))) = Some (n, ?bs, s1)" "no_errors s1"
    "s_in s1 = concat (map (\<lambda>c. load_bytes src (c_ptr c) (unat (c_size c))) cs) @ rest" by auto
  obtain hmem' s' where 2: "recv_chunks cs (store_bytes hmem (c_ptr c) ?bs, s1) = Some (hmem', s')" "no_errors s'" "s_in s' = rest"
    "\<And>x. hmem' x = (if list_ex (in_chunk x) cs then src x else store_bytes hmem (c_ptr c) ?bs x)"
    using Cons.IH [OF 1(2,3), of "store_bytes hmem (c_ptr c) ?bs"] by blast
  have "store_bytes hmem (c_ptr c) ?bs x = (if in_chunk x c then src x else hmem x)" for x
    by (auto simp: store_bytes_def in_chunk_def in_run_def Let_def load_bytes_nth)
  with 1 2 show ?case by auto
qed simp

lemma dec_chunks_enc: "dec_chunks (length cs) (concat (map enc_chunk cs)) = cs"
  by (induction cs) (simp_all add: chunk.dec_enc chunk.length_enc)

lemma mapping_list_chunk_array:
  "length cs = unat n \<Longrightarrow> mapping_list \<lparr>mem_chunks = chunk_array cs, count = n\<rparr> = cs"
proof (rule nth_equalityI)
  fix i assume l: "length cs = unat n" and "i < length (mapping_list \<lparr>mem_chunks = chunk_array cs, count = n\<rparr>)"
  then have i: "i < unat n" by (simp add: mapping_list_def)
  then have "unat (word_of_nat i :: u64) = i"
    using unat_less_exp [of n] by (intro unat_word_of_nat_u64) simp
  then show "mapping_list \<lparr>mem_chunks = chunk_array cs, count = n\<rparr> ! i = cs ! i"
    using i l by (simp add: mapping_list_def chunk_array_def)
qed (simp add: mapping_list_def)

lemma length_mapping_list [simp]: "length (mapping_list mm) = unat (count mm)"
  by (simp add: mapping_list_def)

lemma length_enc_chunks [simp]: "length (concat (map enc_chunk cs)) = 16 * length cs"
  by (induction cs) (simp_all add: chunk.length_enc)

lemma recv_mem_regions_sent:
  assumes "no_errors s" and "s_in s = enc64 (count mm) @ concat (map enc_chunk (mapping_list mm)) @ rest"
    and "16 * unat (count mm) < 2 ^ 64"
  shows "\<exists>mm' s'. recv_mem_regions s = Some (mm', s') \<and> mapping_list mm' = mapping_list mm \<and> count mm' = count mm \<and>
    no_errors s' \<and> s_in s' = rest"
proof -
  obtain s1 where 1: "sock_get s 8 = Some (enc64 (count mm), s1)" "no_errors s1" "s_in s1 = concat (map enc_chunk (mapping_list mm)) @ rest"
    using tcp.get_message [OF assms(1,2)] by (auto simp: c64.length_enc)
  have n: "unat (count mm * 16) = 16 * unat (count mm)"
    using assms(3) by (simp add: unat_word_ariths)
  obtain s2 where 2: "sock_get s1 (16 * unat (count mm)) = Some (concat (map enc_chunk (mapping_list mm)), s2)" "no_errors s2" "s_in s2 = rest"
    using tcp.get_message [OF 1(2,3)] assms(3) by auto
  have "recv_mem_regions s = Some (\<lparr>mem_chunks = chunk_array (mapping_list mm), count = count mm\<rparr>, s2)"
    using 1 2 n dec_chunks_enc [of "mapping_list mm"] by (simp add: recv_mem_regions_def c64.dec_enc Let_def)
  then show ?thesis
    using 2 by (simp add: mapping_list_chunk_array)
qed

lemma send_mem_regions_out:
  assumes "no_errors s"
    and "mm = (if p_type mp = MIG_TYPE_LIVE \<or> count mem_mappings = 0 then gpm else mem_mappings)" and "16 * unat (count mm) < 2 ^ 64"
  shows "\<exists>s'. send_mem_regions mp gpm mem_mappings s = Some s' \<and> no_errors s' \<and> s_in s' = s_in s \<and>
    s_out s' = s_out s @ enc64 (count mm) @ concat (map enc_chunk (mapping_list mm))"
proof -
  obtain s1 where 1: "sock_put s (enc64 (count mm)) = Some s1" "no_errors s1" "s_out s1 = s_out s @ enc64 (count mm)" "s_in s1 = s_in s"
    using tcp.put [OF assms(1), of "enc64 (count mm)"] by (auto simp: c64.length_enc)
  obtain s2 where "sock_put s1 (concat (map enc_chunk (mapping_list mm))) = Some s2" "no_errors s2"
    "s_out s2 = s_out s1 @ concat (map enc_chunk (mapping_list mm))" "s_in s2 = s_in s1"
    using tcp.put [OF 1(2), of "concat (map enc_chunk (mapping_list mm))"] assms(3) by auto
  with 1 show ?thesis by (simp add: send_mem_regions_def Let_def flip: assms(2))
qed

text \<open>
  On a connection without errors \<open>recv_data\<close> returns only when the whole buffer has arrived.
\<close>

lemma recv_loop_complete:
  assumes "recv_loop s b k = Some r"
  shows "no_errors s \<longrightarrow> unat k \<le> length b \<longrightarrow> length b < 2 ^ 64 \<longrightarrow> length b \<le> unat k + length (s_in s)"
  using assms
proof (rule recv_loop.raw_induct [rotated, where P = "\<lambda>s b k r. no_errors s \<longrightarrow> unat k \<le> length b \<longrightarrow> length b < 2 ^ 64 \<longrightarrow>
     length b \<le> unat k + length (s_in s)"])
  fix rl s b r and k :: u64
  assume IH: "\<And>s b k r. rl s b k = Some r \<Longrightarrow> no_errors s \<longrightarrow> unat k \<le> length b \<longrightarrow> length b < 2 ^ 64 \<longrightarrow> length b \<le> unat k + length (s_in s)"
    and body: "(if k < word_of_nat (length b)
      then (case sock_recv s (length b - unat k) of (ret, bs, s) \<Rightarrow> rl s (overlay b (unat k) bs) (k + word_of_int ret))
      else Some (k, b, s)) = Some r"
  show "no_errors s \<longrightarrow> unat k \<le> length b \<longrightarrow> length b < 2 ^ 64 \<longrightarrow> length b \<le> unat k + length (s_in s)"
  proof (intro impI)
    assume ok: "no_errors s" and k: "unat k \<le> length b" and len: "length b < 2 ^ 64"
    let ?n = "min (length b - unat k) (length (s_in s))"
    have lt: "k < word_of_nat (length b) \<longleftrightarrow> unat k < length b"
      using len by (simp add: word_less_nat_alt unat_word_of_nat_u64)
    show "length b \<le> unat k + length (s_in s)"
    proof (cases "unat k < length b \<and> 0 < ?n")
      case False
      then consider "length b \<le> unat k" | "unat k < length b" "s_in s = []" by fastforce
      then show ?thesis
      proof cases
        case 2
        have "\<exists>s1. io_take s 0 = (Some 0, s1) \<and> no_errors s1 \<and> s_in s1 = s_in s"
          using ok by (cases "s_script s") (auto simp: io_take_def no_errors_def split: io.split)
        then obtain s1 where s1: "io_take s 0 = (Some 0, s1)" "no_errors s1" "s_in s1 = []" using 2 by auto
        have "rl s1 b k = Some r"
          using body 2 lt s1 by (simp add: sock_recv_def overlay_def)
        from IH [OF this] s1 k len show ?thesis by (simp add: no_errors_def 2)
      qed simp
    next
      case True
      then have "0 < ?n" by simp
      with ok obtain j s1 where j: "io_take s ?n = (Some j, s1)" "0 < j" "j \<le> ?n" "no_errors s1" "s_in s1 = s_in s" by (rule io_take_ok)
      let ?b = "overlay b (unat k) (take j (s_in s))"
      have lb: "length ?b = length b"
        using j(3) True by (simp add: overlay_def) linarith
      have uj: "unat (word_of_nat j :: u64) = j" and sum: "unat k + j < 2 ^ 64"
        using j(3) True len by (auto intro!: unat_word_of_nat_u64)
      then have kj: "unat (k + word_of_nat j) = unat k + j"
        by (subst unat_add_lem [THEN iffD1]) simp_all
      have "rl (s1\<lparr>s_in := drop j (s_in s)\<rparr>) ?b (k + word_of_nat j) = Some r"
        using body True lt j(1,5) by (simp add: sock_recv_def)
      from IH [OF this] j lb kj len show ?thesis by (auto simp: no_errors_def)
    qed
  qed
qed

lemma recv_data_short:
  assumes "no_errors s" and "length (s_in s) < length buf" and "length buf < 2 ^ 64"
  shows "recv_data s buf = None"
proof (cases "recv_loop s buf 0")
  case (Some r)
  with recv_loop_complete [OF this] assms show ?thesis by simp
qed (simp add: recv_data_def)

section \<open>Properties\<close>

text \<open>
  Whatever part of the data each call of \<open>send\<close> and \<open>recv\<close> moves, \<open>send_data\<close> and \<open>recv_data\<close> end and move exactly the
  data, in order and without touching what follows on the connection, and both report the length.
\<close>

theorem data_roundtrip:
  assumes "no_errors s" and "no_errors r" and "s_in r = drop (length (s_out s)) (s_out s') @ rest" and "send_data s bs = Some (n, s')"
    and "length bs < 2 ^ 64" and "length buf = length bs"
  shows "n = word_of_nat (length bs) \<and> (\<exists>r'. recv_data r buf = Some (n, bs, r') \<and> s_in r' = rest)"
proof -
  have s: "n = word_of_nat (length bs)" "s_out s' = s_out s @ bs"
    using send_loop_all [OF assms(1,5), of 0] assms(4) ucast_len [OF assms(5)] by (auto simp: send_data_def)
  then show ?thesis
    using recv_data_get [OF assms(2) _ assms(5,6), of rest] assms(3) by auto
qed

theorem data_roundtrip_witness:
  "\<exists>n s'. send_data \<lparr>s_in = [], s_out = [9], s_script = [IoChunk 2]\<rparr> [1, 2, 3] = Some (n, s') \<and> n = 3 \<and>
     (\<exists>r'. recv_data \<lparr>s_in = drop 1 (s_out s') @ [7], s_out = [], s_script = [IoChunk 1]\<rparr> [0, 0, 0] = Some (n, [1, 2, 3], r') \<and> s_in r' = [7])"
proof -
  let ?s = "\<lparr>s_in = [], s_out = [9], s_script = [IoChunk 2]\<rparr>"
  obtain n s' where s: "send_data ?s [1, 2, 3] = Some (n, s')"
    using send_loop_all [of ?s "[1, 2, 3]" 0] by (auto simp: send_data_def no_errors_def)
  from data_roundtrip [OF _ _ _ s, of "\<lparr>s_in = drop 1 (s_out s') @ [7], s_out = [], s_script = [IoChunk 1]\<rparr>" "[7]" "[0, 0, 0]"]
  show ?thesis using s by (auto simp: no_errors_def)
qed



end
