(* ===== verification/Gdb_Packet.thy ===== *)
theory Gdb_Packet
  imports Hv_Prelude
begin

text \<open>
  The GDB remote serial protocol of \<open>src/uhyve-gdb.c\<close>: hex encoding (\<open>hex\<close>, \<open>mem2hex\<close>, \<open>hex2mem\<close>), the
  character I/O on the socket, and the packet layer \<open>$data#checksum\<close> with its acknowledgements
  (\<open>recv_packet\<close>, \<open>send_packet_no_ack\<close>, \<open>send_packet\<close>, \<open>send_response\<close>).

  The socket is a script: \<open>g_in\<close> holds what the successive calls of \<open>recv\<close> return and \<open>g_out\<close> the bytes sent.
  At the end of the script \<open>recv\<close> blocks.  \<open>in_buffer\<close> is a static array, so what a packet leaves in it
  is still there when the next packet arrives.
\<close>

unbundle bit_operations_syntax

section \<open>Hex\<close>

definition hex :: "u8 \<Rightarrow> int" where
  "hex ch = (if 0x61 \<le> ch \<and> ch \<le> 0x66 then uint ch - 0x61 + 10
             else if 0x30 \<le> ch \<and> ch \<le> 0x39 then uint ch - 0x30
             else if 0x41 \<le> ch \<and> ch \<le> 0x46 then uint ch - 0x41 + 10
             else -1)"

definition hexchars :: bytes where
  "hexchars = [0x30, 0x31, 0x32, 0x33, 0x34, 0x35, 0x36, 0x37, 0x38, 0x39, 0x61, 0x62, 0x63, 0x64, 0x65, 0x66]"

definition hex_digits :: "u8 \<Rightarrow> bytes" where
  "hex_digits ch = [hexchars ! unat (drop_bit 4 ch), hexchars ! unat (ch mod 16)]"

text \<open>The string \<open>mem2hex\<close> leaves in \<open>buf\<close>, without the terminating zero.\<close>

definition mem2hex :: "bytes \<Rightarrow> bytes" where
  "mem2hex mem = concat (map hex_digits mem)"

definition hex_byte :: "u8 \<Rightarrow> u8 \<Rightarrow> u8" where
  "hex_byte c d = word_of_int (hex c * 16) + word_of_int (hex d)"

text \<open>\<open>None\<close>: the assertion \<open>strlen(buf) >= 2 * count\<close> fails.\<close>

fun hex2mem_loop :: "bytes \<Rightarrow> nat \<Rightarrow> bytes" where
  "hex2mem_loop (c # d # buf) (Suc count) = hex_byte c d # hex2mem_loop buf count"
| "hex2mem_loop _ _ = []"

definition hex2mem :: "bytes \<Rightarrow> nat \<Rightarrow> bytes option" where
  "hex2mem buf count = (if length buf < 2 * count then None else Some (hex2mem_loop buf count))"

section \<open>Characters\<close>

datatype rx = RxByte u8 | RxError | RxClosed

record gdb =
  g_in :: "rx list"
  g_out :: bytes
  g_open :: bool
  g_tx_ok :: bool
  g_buf :: bytes

definition BUFMAX :: nat where "BUFMAX = 4096"

text \<open>The result tells whether \<open>send\<close> succeeded.\<close>

definition send_char :: "gdb \<Rightarrow> u8 \<Rightarrow> bool \<times> gdb" where
  "send_char g ch = (if g_open g \<and> g_tx_ok g then (True, g\<lparr>g_out := g_out g @ [ch]\<rparr>) else (False, g))"

datatype recv_char_result = Ch u8 | ChFail | ChBlock | ChAssert

definition recv_char :: "gdb \<Rightarrow> recv_char_result \<times> gdb" where
  "recv_char g =
    (if \<not> g_open g then (ChFail, g)
     else case g_in g of
       [] \<Rightarrow> (ChBlock, g)
     | RxError # rs \<Rightarrow> (ChFail, g\<lparr>g_in := rs\<rparr>)
     | RxClosed # rs \<Rightarrow> (ChFail, g\<lparr>g_in := rs, g_open := False\<rparr>)
     | RxByte ch # rs \<Rightarrow> (if ch < 128 then Ch ch else ChAssert, g\<lparr>g_in := rs\<rparr>))"

lemma recv_char_shorter: "recv_char g = (Ch ch, g') \<Longrightarrow> length (g_in g') < length (g_in g)"
  by (auto simp: recv_char_def split: list.splits rx.splits if_splits)

section \<open>Packets\<close>

datatype recv_result = Packet bytes gdb | NoPacket gdb | RecvBlock gdb | Aborted

definition dollar :: u8 where "dollar = 0x24"
definition hash :: u8 where "hash = 0x23"
definition plus_ch :: u8 where "plus_ch = 0x2b"
definition minus_ch :: u8 where "minus_ch = 0x2d"
definition colon :: u8 where "colon = 0x3a"

lemmas gdb_chars [layout_defs] = dollar_def hash_def plus_ch_def minus_ch_def colon_def

definition c_string :: "bytes \<Rightarrow> bytes" where
  "c_string buf = takeWhile (\<lambda>b. b \<noteq> 0) buf"

text \<open>The end of \<open>recv_packet\<close>: the reply to a good packet, with the sequence id if there is one.\<close>

definition accept_packet :: "gdb \<Rightarrow> recv_result" where
  "accept_packet g =
    (case send_char g plus_ch of
       (False, _) \<Rightarrow> Aborted
     | (True, g) \<Rightarrow>
         let buffer = g_buf g
         in if buffer ! 2 = colon
            then let g = snd (send_char g (buffer ! 0)); g = snd (send_char g (buffer ! 1))
                 in Packet (c_string (drop 3 buffer)) g
            else Packet (c_string buffer) g)"

text \<open>
  \<open>recv_packet\<close>.  With \<open>in_body\<close> false it waits for the start character; otherwise it is inside a packet, with
  \<open>count\<close> characters in the buffer and their \<open>checksum\<close>.
\<close>

function recv_loop :: "bool \<Rightarrow> nat \<Rightarrow> u8 \<Rightarrow> gdb \<Rightarrow> recv_result" where
  "recv_loop in_body count checksum g =
    (if \<not> in_body
     then case recv_char g of
            (Ch ch, g') \<Rightarrow> recv_loop (ch = dollar) 0 0 g'
          | (ChFail, g') \<Rightarrow> NoPacket g' | (ChBlock, g') \<Rightarrow> RecvBlock g' | (ChAssert, _) \<Rightarrow> Aborted
     else if count < BUFMAX - 1
     then case recv_char g of
            (Ch ch, g') \<Rightarrow>
              if ch = dollar then recv_loop True 0 0 g'
              else if ch = hash
              then let g' = g'\<lparr>g_buf := (g_buf g')[count := 0]\<rparr>
                   in case recv_char g' of
                        (Ch c1, g1) \<Rightarrow>
                          (case recv_char g1 of
                             (Ch c2, g2) \<Rightarrow>
                               if checksum \<noteq> hex_byte c1 c2
                               then case send_char g2 minus_ch of
                                      (False, _) \<Rightarrow> Aborted
                                    | (True, g3) \<Rightarrow> recv_loop False 0 0 g3
                               else accept_packet g2
                           | (ChFail, g2) \<Rightarrow> NoPacket g2 | (ChBlock, g2) \<Rightarrow> RecvBlock g2 | (ChAssert, _) \<Rightarrow> Aborted)
                      | (ChFail, g1) \<Rightarrow> NoPacket g1 | (ChBlock, g1) \<Rightarrow> RecvBlock g1 | (ChAssert, _) \<Rightarrow> Aborted
              else recv_loop True (count + 1) (checksum + ch) (g'\<lparr>g_buf := (g_buf g')[count := ch]\<rparr>)
          | (ChFail, g') \<Rightarrow> NoPacket g' | (ChBlock, g') \<Rightarrow> RecvBlock g' | (ChAssert, _) \<Rightarrow> Aborted
     else recv_loop False 0 0 (g\<lparr>g_buf := (g_buf g)[count := 0]\<rparr>))"
  by pat_completeness auto
termination
  by (relation "measure (\<lambda>(in_body, _, _, g). 2 * length (g_in g) + (if in_body then 1 else 0))")
     (auto simp: send_char_def dest!: recv_char_shorter [OF sym] recv_char_shorter split: if_splits prod.splits)

declare recv_loop.simps [simp del]

definition recv_packet :: "gdb \<Rightarrow> recv_result" where
  "recv_packet g = recv_loop False 0 0 g"

text \<open>The characters \<open>send_packet_no_ack\<close> sends for a string; errors of \<open>send_char\<close> are ignored.\<close>

definition packet_bytes :: "bytes \<Rightarrow> bytes" where
  "packet_bytes buffer = [dollar] @ buffer @ [hash] @ hex_digits (sum_list buffer)"

definition send_packet_no_ack :: "gdb \<Rightarrow> bytes \<Rightarrow> gdb" where
  "send_packet_no_ack g buffer = fold (\<lambda>ch g. snd (send_char g ch)) (packet_bytes buffer) g"

lemma send_char_in [simp]: "g_in (snd (send_char g ch)) = g_in g"
  by (simp add: send_char_def)

lemma send_packet_no_ack_in [simp]: "g_in (send_packet_no_ack g buffer) = g_in g"
proof -
  have "g_in (fold (\<lambda>ch g. snd (send_char g ch)) cs g) = g_in g" for cs
    by (induction cs arbitrary: g) auto
  then show ?thesis by (simp add: send_packet_no_ack_def)
qed

text \<open>\<open>send_packet\<close> repeats the packet until an acknowledgement arrives; the result tells how it returned.\<close>

datatype send_result = Sent gdb | SendFail gdb | SendBlock gdb | SendAbort

function send_packet :: "gdb \<Rightarrow> bytes \<Rightarrow> send_result" where
  "send_packet g buffer =
    (case recv_char (send_packet_no_ack g buffer) of
       (Ch ch, g') \<Rightarrow> if ch = plus_ch then Sent g' else send_packet g' buffer
     | (ChFail, g') \<Rightarrow> SendFail g' | (ChBlock, g') \<Rightarrow> SendBlock g' | (ChAssert, _) \<Rightarrow> SendAbort)"
  by pat_completeness auto

termination
  by (relation "measure (\<lambda>(g, _). length (g_in g))") (auto dest!: recv_char_shorter [OF sym])

declare send_packet.simps [simp del]

text \<open>\<open>printf("%lx")\<close> and \<open>printf("%02x")\<close>.\<close>

fun hex_str :: "nat \<Rightarrow> bytes" where
  "hex_str n = (if n < 16 then [hexchars ! n] else hex_str (n div 16) @ [hexchars ! (n mod 16)])"

declare hex_str.simps [simp del]

definition hex_str2 :: "nat \<Rightarrow> bytes" where
  "hex_str2 n = (if n < 16 then hexchars ! 0 # hex_str n else hex_str n)"

definition send_response :: "gdb \<Rightarrow> u8 \<Rightarrow> nat \<Rightarrow> bool \<Rightarrow> send_result" where
  "send_response g code sigval wait_for_ack =
    (let obuf = code # hex_str2 sigval
     in if wait_for_ack then send_packet g obuf else Sent (send_packet_no_ack g obuf))"

definition GDB_ERROR_MSG :: bytes where "GDB_ERROR_MSG = [0x45, 0x30, 0x31]"

definition send_error_msg :: "gdb \<Rightarrow> send_result" where "send_error_msg g = send_packet g GDB_ERROR_MSG"
definition send_not_supported_msg :: "gdb \<Rightarrow> send_result" where "send_not_supported_msg g = send_packet g []"
definition send_okay_msg :: "gdb \<Rightarrow> send_result" where "send_okay_msg g = send_packet g [0x4f, 0x4b]"

definition qfThreadInfo :: bytes where
  "qfThreadInfo = [0x71, 0x66, 0x54, 0x68, 0x72, 0x65, 0x61, 0x64, 0x49, 0x6e, 0x66, 0x6f]"
definition qsThreadInfo :: bytes where
  "qsThreadInfo = [0x71, 0x73, 0x54, 0x68, 0x72, 0x65, 0x61, 0x64, 0x49, 0x6e, 0x66, 0x6f]"

text \<open>\<open>gdb_handle_query\<close> with its static \<open>thread_counter\<close>.\<close>

definition gdb_handle_query :: "u32 \<Rightarrow> u64 \<Rightarrow> gdb \<Rightarrow> bytes \<Rightarrow> u64 \<times> send_result" where
  "gdb_handle_query ncores thread_counter g packet =
    (if 1 < ncores
     then if packet = qfThreadInfo
          then let thread_counter = thread_counter + 1
               in (thread_counter, send_packet g (0x6d # hex_str (unat thread_counter)))
          else if packet = qsThreadInfo
          then if thread_counter < ucast ncores
               then let thread_counter = thread_counter + 1
                    in (thread_counter, send_packet g (0x6d # hex_str (unat thread_counter)))
               else (0, send_packet g [0x6c])
          else (thread_counter, Sent g)
     else (thread_counter, send_not_supported_msg g))"

section \<open>Lemmas\<close>

lemma hexchars_all: "list_all (\<lambda>k. hex (hexchars ! k) = int k \<and> hexchars ! k < 128) [0..<16]"
  by (simp add: upt_rec hex_def hexchars_def)

lemma hex_hexchars: "k < 16 \<Longrightarrow> hex (hexchars ! k) = int k"
  and hexchars_ascii: "k < 16 \<Longrightarrow> hexchars ! k < 128"
  using hexchars_all by (simp_all add: list_all_iff)

lemma nibbles: "unat (drop_bit 4 (b :: u8)) < 16" "unat (b mod 16) < 16"
  "16 * unat (drop_bit 4 b) + unat (b mod 16) = unat b"
proof -
  have d: "unat (drop_bit 4 b) = unat b div 16"
    using unat_drop_bit_eq [of 4 b] drop_bit_eq_div [of 4 "unat b"] by simp
  have m: "unat (b mod 16) = unat b mod 16"
    by (simp add: unat_mod)
  show "unat (drop_bit 4 b) < 16"
    using unat_less_exp [of b] by (simp add: d)
  show "unat (b mod 16) < 16"
    by (simp add: m)
  show "16 * unat (drop_bit 4 b) + unat (b mod 16) = unat b"
    by (simp add: d m)
qed

lemma hex_byte_digits: "hex_byte (hexchars ! unat (drop_bit 4 b)) (hexchars ! unat (b mod 16)) = b"
proof -
  have "hex_byte (hexchars ! unat (drop_bit 4 b)) (hexchars ! unat (b mod 16)) =
      word_of_nat (16 * unat (drop_bit 4 b) + unat (b mod 16))"
    by (simp add: hex_byte_def hex_hexchars nibbles(1,2))
  then show ?thesis by (simp only: nibbles(3)) simp
qed

lemma length_mem2hex [simp]: "length (mem2hex bs) = 2 * length bs"
  by (induction bs) (simp_all add: mem2hex_def hex_digits_def)

lemma hex2mem_mem2hex: "hex2mem (mem2hex bs) (length bs) = Some bs"
proof -
  have "hex2mem_loop (concat (map hex_digits bs)) (length bs) = bs"
    by (induction bs) (simp_all add: hex_digits_def hex_byte_digits)
  then show ?thesis by (simp add: hex2mem_def mem2hex_def) (simp flip: mem2hex_def)
qed

text \<open>A payload the packet layer can carry.\<close>

definition payload_ok :: "bytes \<Rightarrow> bool" where
  "payload_ok p \<longleftrightarrow> list_all (\<lambda>c. 0 < c \<and> c < 128 \<and> c \<noteq> dollar \<and> c \<noteq> hash) p \<and> length p < BUFMAX - 1"

text \<open>The buffer after \<open>p\<close> was stored from position \<open>count\<close> on and terminated.\<close>

definition buf_put :: "bytes \<Rightarrow> nat \<Rightarrow> bytes \<Rightarrow> bytes" where
  "buf_put buf count p = take count buf @ p @ [0] @ drop (count + length p + 1) buf"

lemma buf_put_Cons: "count < length buf \<Longrightarrow> buf_put (buf[count := c]) (Suc count) p = buf_put buf count (c # p)"
  by (simp add: buf_put_def take_Suc_conv_app_nth)

lemma buf_put_Nil: "count < length buf \<Longrightarrow> buf[count := 0] = buf_put buf count []"
  by (simp add: buf_put_def upd_conv_take_nth_drop)

lemma length_buf_put: "count + length p < length buf \<Longrightarrow> length (buf_put buf count p) = length buf"
  by (simp add: buf_put_def)

lemma recv_char_byte:
  "g_open g \<Longrightarrow> g_in g = RxByte c # rs \<Longrightarrow> c < 128 \<Longrightarrow> recv_char g = (Ch c, g\<lparr>g_in := rs\<rparr>)"
  by (simp add: recv_char_def)

lemma recv_body:
  assumes "list_all (\<lambda>c. 0 < c \<and> c < 128 \<and> c \<noteq> dollar \<and> c \<noteq> hash) p" and "count + length p < BUFMAX - 1"
    and "length (g_buf g) = BUFMAX" and "g_open g" and "c1 < 128" and "c2 < 128"
    and "g_in g = map RxByte p @ RxByte hash # RxByte c1 # RxByte c2 # rest"
  shows "recv_loop True count chk g =
    (let g' = g\<lparr>g_in := rest, g_buf := buf_put (g_buf g) count p\<rparr>
     in if chk + sum_list p \<noteq> hex_byte c1 c2
        then case send_char g' minus_ch of (False, _) \<Rightarrow> Aborted | (True, g3) \<Rightarrow> recv_loop False 0 0 g3
        else accept_packet g')"
  using assms
proof (induction p arbitrary: count chk g)
  case Nil
  have h: "recv_char g = (Ch hash, g\<lparr>g_in := RxByte c1 # RxByte c2 # rest\<rparr>)"
    using Nil by (intro recv_char_byte) (simp_all add: gdb_chars)
  let ?b = "buf_put (g_buf g) count []"
  have "recv_char (g\<lparr>g_in := RxByte c1 # RxByte c2 # rest, g_buf := ?b\<rparr>) = (Ch c1, g\<lparr>g_in := RxByte c2 # rest, g_buf := ?b\<rparr>)"
    using Nil by (simp add: recv_char_def)
  moreover have "recv_char (g\<lparr>g_in := RxByte c2 # rest, g_buf := ?b\<rparr>) = (Ch c2, g\<lparr>g_in := rest, g_buf := ?b\<rparr>)"
    using Nil by (simp add: recv_char_def)
  moreover have "count < length (g_buf g)"
    using Nil by (simp add: BUFMAX_def)
  ultimately show ?case
    using Nil h by (subst recv_loop.simps) (simp add: buf_put_Nil Let_def gdb_chars)
next
  case (Cons c p)
  let ?g = "g\<lparr>g_in := map RxByte p @ RxByte hash # RxByte c1 # RxByte c2 # rest, g_buf := (g_buf g)[count := c]\<rparr>"
  have h: "recv_char g = (Ch c, g\<lparr>g_in := map RxByte p @ RxByte hash # RxByte c1 # RxByte c2 # rest\<rparr>)"
    using Cons.prems by (intro recv_char_byte) simp_all
  have lt: "count < length (g_buf g)"
    using Cons.prems(2,3) by (simp add: BUFMAX_def)
  have "recv_loop True count chk g = recv_loop True (Suc count) (chk + c) ?g"
    using Cons.prems h by (subst recv_loop.simps) simp
  also have "\<dots> = (let g' = ?g\<lparr>g_in := rest, g_buf := buf_put (g_buf ?g) (Suc count) p\<rparr>
     in if chk + c + sum_list p \<noteq> hex_byte c1 c2
        then case send_char g' minus_ch of (False, _) \<Rightarrow> Aborted | (True, g3) \<Rightarrow> recv_loop False 0 0 g3
        else accept_packet g')"
    using Cons.prems by (intro Cons.IH) simp_all
  finally show ?case
    using lt by (simp add: buf_put_Cons add.assoc)
qed

lemma send_char_ok: "g_open g \<Longrightarrow> g_tx_ok g \<Longrightarrow> send_char g c = (True, g\<lparr>g_out := g_out g @ [c]\<rparr>)"
  by (simp add: send_char_def)

lemma send_chars_ok:
  "g_open g \<Longrightarrow> g_tx_ok g \<Longrightarrow> fold (\<lambda>c g. snd (send_char g c)) cs g = g\<lparr>g_out := g_out g @ cs\<rparr>"
  by (induction cs arbitrary: g) (simp_all add: send_char_ok)

lemma recv_framed:
  assumes "payload_ok p" and "length (g_buf g) = BUFMAX" and "g_open g" and "g_tx_ok g" and "c1 < 128" and "c2 < 128"
    and "g_in g = RxByte dollar # map RxByte p @ RxByte hash # RxByte c1 # RxByte c2 # rest"
  shows "recv_packet g =
    (let g' = g\<lparr>g_in := rest, g_buf := buf_put (g_buf g) 0 p\<rparr>
     in if sum_list p \<noteq> hex_byte c1 c2 then recv_packet (g'\<lparr>g_out := g_out g @ [minus_ch]\<rparr>) else accept_packet g')"
proof -
  let ?g = "g\<lparr>g_in := map RxByte p @ RxByte hash # RxByte c1 # RxByte c2 # rest\<rparr>"
  have "recv_char g = (Ch dollar, ?g)"
    using assms by (intro recv_char_byte) (simp_all add: dollar_def)
  then have "recv_packet g = recv_loop True 0 0 ?g"
    unfolding recv_packet_def by (subst recv_loop.simps) simp
  also have "\<dots> = (let g' = ?g\<lparr>g_in := rest, g_buf := buf_put (g_buf ?g) 0 p\<rparr>
     in if 0 + sum_list p \<noteq> hex_byte c1 c2
        then case send_char g' minus_ch of (False, _) \<Rightarrow> Aborted | (True, g3) \<Rightarrow> recv_loop False 0 0 g3
        else accept_packet g')"
    using assms by (intro recv_body) (simp_all add: payload_ok_def)
  finally show ?thesis
    using assms(3,4) by (simp add: Let_def send_char_ok recv_packet_def)
qed

lemma c_string_put: "payload_ok p \<Longrightarrow> c_string (buf_put buf 0 p) = p"
  by (auto simp: c_string_def buf_put_def payload_ok_def list_all_iff takeWhile_append)

lemma buf_put_2: "length buf = BUFMAX \<Longrightarrow> length p < BUFMAX - 1 \<Longrightarrow>
   buf_put buf 0 p ! 2 = (if length p < 2 then buf ! 2 else if length p = 2 then 0 else p ! 2)"
proof -
  assume l: "length buf = BUFMAX" "length p < BUFMAX - 1"
  consider "p = []" | c where "p = [c]" | "2 \<le> length p"
    by (cases p; cases "tl p") auto
  then show ?thesis
    using l by cases (auto simp: buf_put_def nth_append BUFMAX_def numeral_2_eq_2)
qed

lemma packet_bytes_rx: "map RxByte (packet_bytes p) @ rest = RxByte dollar # map RxByte p @ RxByte hash #
   RxByte (hexchars ! unat (drop_bit 4 (sum_list p))) # RxByte (hexchars ! unat (sum_list p mod 16)) # rest"
  by (simp add: packet_bytes_def hex_digits_def)

lemma recv_packet_bytes:
  assumes "payload_ok p" and "length (g_buf g) = BUFMAX" and "g_open g" and "g_tx_ok g"
    and "g_in g = map RxByte (packet_bytes p) @ rest"
  shows "recv_packet g = accept_packet (g\<lparr>g_in := rest, g_buf := buf_put (g_buf g) 0 p\<rparr>)"
  using recv_framed [OF assms(1-4) hexchars_ascii hexchars_ascii assms(5) [unfolded packet_bytes_rx]] hex_byte_digits [of "sum_list p"]
  by (simp only: nibbles Let_def simp_thms if_False)

section \<open>Input is consumed\<close>

lemma accept_packet_in: "accept_packet g = Packet p g' \<Longrightarrow> g_in g' = g_in g"
  by (auto simp: accept_packet_def send_char_def Let_def split: if_splits)

lemma recv_char_in: "recv_char g = (r, g') \<Longrightarrow> length (g_in g') \<le> length (g_in g)"
  by (auto simp: recv_char_def split: list.splits rx.splits if_splits)

lemma recv_loop_in: "recv_loop b n c g = Packet p g' \<Longrightarrow> length (g_in g') < length (g_in g)"
proof (induction b n c g rule: recv_loop.induct)
  case (1 b n c g)
  obtain r g1 where r: "recv_char g = (r, g1)" by fastforce
  show ?case
  proof (cases b)
    case False
    show ?thesis
    proof (cases r)
      case (Ch ch)
      then have "recv_loop (ch = dollar) 0 0 g1 = Packet p g'"
        using "1.prems" False r by (subst (asm) recv_loop.simps) simp
      then have "length (g_in g') < length (g_in g1)"
        using "1.IH"(1) [OF _ r [symmetric]] False Ch by blast
      then show ?thesis using recv_char_in [OF r] by simp
    qed (use "1.prems" False r in \<open>subst (asm) recv_loop.simps, simp\<close>)+
  next
    case True
    show ?thesis
    proof (cases "n < BUFMAX - 1")
      case False
      then have "recv_loop False 0 0 (g\<lparr>g_buf := (g_buf g)[n := 0]\<rparr>) = Packet p g'"
        using "1.prems" True by (subst (asm) recv_loop.simps) simp
      then show ?thesis
        using "1.IH"(5) True False by force
    next
      case small: True
      show ?thesis
      proof (cases r)
        case (Ch ch)
        have lt: "length (g_in g1) < length (g_in g)"
          using r Ch recv_char_shorter by blast
        consider "ch = dollar" | "ch \<noteq> dollar" "ch = hash" | "ch \<noteq> dollar" "ch \<noteq> hash" by blast
        then show ?thesis
        proof cases
          case 1
          then have "recv_loop True 0 0 g1 = Packet p g'"
            using "1.prems" True small r Ch by (subst (asm) recv_loop.simps) simp
          then have "length (g_in g') < length (g_in g1)"
            using "1.IH"(2) [OF _ _ r [symmetric] Ch 1] True small by blast
          then show ?thesis using lt by simp
        next
          case 3
          then have "recv_loop True (n + 1) (c + ch) (g1\<lparr>g_buf := (g_buf g1)[n := ch]\<rparr>) = Packet p g'"
            using "1.prems" True small r Ch by (subst (asm) recv_loop.simps) simp
          then have "length (g_in g') < length (g_in (g1\<lparr>g_buf := (g_buf g1)[n := ch]\<rparr>))"
            using "1.IH"(4) [OF _ _ r [symmetric] Ch 3] True small by blast
          then show ?thesis using lt by simp
        next
          case 2
          let ?g1 = "g1\<lparr>g_buf := (g_buf g1)[n := 0]\<rparr>"
          obtain r1 g2 where r1: "recv_char ?g1 = (r1, g2)" by fastforce
          obtain r2 g3 where r2: "recv_char g2 = (r2, g3)" by fastforce
          have le: "length (g_in g3) \<le> length (g_in g1)"
            using recv_char_in [OF r1] recv_char_in [OF r2] by simp
          obtain c1 c2 where c: "r1 = Ch c1" "r2 = Ch c2"
            using "1.prems" True small r Ch 2 r1 r2
            by (subst (asm) recv_loop.simps) (auto simp: Let_def split: recv_char_result.splits)
          show ?thesis
          proof (cases "c = hex_byte c1 c2")
            case eq: True
            then have "accept_packet g3 = Packet p g'"
              using "1.prems" True small r Ch 2 r1 r2 c by (subst (asm) recv_loop.simps) (simp add: Let_def)
            then show ?thesis using accept_packet_in le lt by fastforce
          next
            case ne: False
            then have "\<exists>g4. send_char g3 minus_ch = (True, g4) \<and> recv_loop False 0 0 g4 = Packet p g'"
              using "1.prems" True small r Ch 2 r1 r2 c
              by (subst (asm) recv_loop.simps) (auto simp: Let_def split: bool.splits prod.splits)
            then obtain g4 where g4: "send_char g3 minus_ch = (True, g4)" "recv_loop False 0 0 g4 = Packet p g'" by blast
            have "length (g_in g') < length (g_in g4)"
              using "1.IH"(3) [OF _ _ r [symmetric] Ch 2 refl r1 [symmetric] c(1) r2 [symmetric] c(2) ne g4(1) [symmetric]] True small g4(2) by simp
            moreover have "g_in g4 = g_in g3"
              using g4(1) send_char_in [of g3 minus_ch] by simp
            ultimately show ?thesis using le lt by simp
          qed
        qed
      qed (use "1.prems" True small r in \<open>subst (asm) recv_loop.simps, simp\<close>)+
    qed
  qed
qed

lemma recv_packet_in: "recv_packet g = Packet p g' \<Longrightarrow> length (g_in g') < length (g_in g)"
  by (simp add: recv_packet_def recv_loop_in)

lemma send_packet_in:
  "send_packet g p = Sent g' \<or> send_packet g p = SendFail g' \<Longrightarrow> length (g_in g') \<le> length (g_in g)"
proof (induction g p rule: send_packet.induct)
  case (1 g p)
  obtain r g1 where r: "recv_char (send_packet_no_ack g p) = (r, g1)" by fastforce
  have le: "length (g_in g1) \<le> length (g_in g)"
    using recv_char_in [OF r] by simp
  show ?case
  proof (cases "\<exists>ch. r = Ch ch \<and> ch \<noteq> plus_ch")
    case True
    then obtain ch where ch: "r = Ch ch" "ch \<noteq> plus_ch" by blast
    then have "send_packet g p = send_packet g1 p"
      using r by (subst send_packet.simps) simp
    then show ?thesis
      using "1.IH" [OF r [symmetric] ch(1) ch(2)] "1.prems" le by simp
  next
    case False
    then show ?thesis
      using "1.prems" r le by (subst (asm) (1 2) send_packet.simps) (auto split: recv_char_result.splits)
  qed
qed

section \<open>Properties\<close>

text \<open>
  C31.  What \<open>send_packet_no_ack\<close> puts on the wire for a payload of at most \<open>BUFMAX - 2\<close> ASCII characters without
  \<open>$\<close> and \<open>#\<close> and without a sequence id, \<open>recv_packet\<close> at the other end returns, acknowledges with \<open>+\<close>, and
  leaves the following input alone.
\<close>

theorem recv_sent_packet:
  assumes "payload_ok p" and "2 < length p \<longrightarrow> p ! 2 \<noteq> colon" and "length p < 2 \<longrightarrow> g_buf g ! 2 \<noteq> colon"
    and "length (g_buf g) = BUFMAX" and "g_open g" and "g_tx_ok g" and "g_open h" and "g_tx_ok h"
    and "g_in g = map RxByte (drop (length (g_out h)) (g_out (send_packet_no_ack h p))) @ rest"
  shows "\<exists>buf. recv_packet g = Packet p (g\<lparr>g_in := rest, g_out := g_out g @ [plus_ch], g_buf := buf\<rparr>) \<and> length buf = BUFMAX"
proof -
  have "g_in g = map RxByte (packet_bytes p) @ rest"
    using assms(7-9) by (simp add: send_packet_no_ack_def send_chars_ok)
  then have r: "recv_packet g = accept_packet (g\<lparr>g_in := rest, g_buf := buf_put (g_buf g) 0 p\<rparr>)"
    using assms by (intro recv_packet_bytes) simp_all
  have "buf_put (g_buf g) 0 p ! 2 \<noteq> colon"
    using assms(1-4) by (subst buf_put_2) (auto simp: payload_ok_def colon_def)
  then show ?thesis
    using assms(1,4-6) r
    by (intro exI [of _ "buf_put (g_buf g) 0 p"])
       (simp add: accept_packet_def send_char_ok c_string_put length_buf_put payload_ok_def BUFMAX_def)
qed

text \<open>A connection for the witnesses.\<close>

definition fresh_gdb :: "rx list \<Rightarrow> gdb" where
  "fresh_gdb inp = \<lparr>g_in = inp, g_out = [], g_open = True, g_tx_ok = True, g_buf = replicate BUFMAX 0\<rparr>"

theorem recv_sent_packet_witness:
  "\<exists>buf. recv_packet (fresh_gdb (map RxByte (g_out (send_packet_no_ack (fresh_gdb []) [0x67])))) =
     Packet [0x67] ((fresh_gdb [])\<lparr>g_out := [plus_ch], g_buf := buf\<rparr>) \<and> length buf = BUFMAX"
  using recv_sent_packet [of "[0x67]" "fresh_gdb (map RxByte (g_out (send_packet_no_ack (fresh_gdb []) [0x67])))" "fresh_gdb []" "[]"]
  by (simp add: fresh_gdb_def payload_ok_def gdb_chars BUFMAX_def)

text \<open>
  A packet with a wrong checksum is answered with \<open>-\<close> and otherwise ignored: \<open>recv_packet\<close> goes on with the
  input behind it.
\<close>

theorem recv_bad_checksum:
  assumes "payload_ok p" and "length (g_buf g) = BUFMAX" and "g_open g" and "g_tx_ok g"
    and "c1 < 128" and "c2 < 128" and "hex_byte c1 c2 \<noteq> sum_list p"
    and "g_in g = RxByte dollar # map RxByte p @ RxByte hash # RxByte c1 # RxByte c2 # rest"
  shows "\<exists>buf. recv_packet g = recv_packet (g\<lparr>g_in := rest, g_buf := buf, g_out := g_out g @ [minus_ch]\<rparr>) \<and> length buf = BUFMAX"
  using assms(7) recv_framed [OF assms(1-6,8)] assms(1,2)
  by (intro exI [of _ "buf_put (g_buf g) 0 p"]) (simp add: Let_def length_buf_put payload_ok_def BUFMAX_def)

theorem recv_bad_checksum_witness:
  "\<exists>buf. recv_packet (fresh_gdb (map RxByte [0x24, 0x67, 0x23, 0x30, 0x30])) =
     recv_packet ((fresh_gdb [])\<lparr>g_out := [minus_ch], g_buf := buf\<rparr>) \<and> length buf = BUFMAX"
  using recv_bad_checksum [of "[0x67]" "fresh_gdb (map RxByte [0x24, 0x67, 0x23, 0x30, 0x30])" "0x30" "0x30" "[]"]
  by (simp add: fresh_gdb_def payload_ok_def gdb_chars BUFMAX_def hex_byte_def hex_def)

text \<open>
  The sequence id test reads \<open>buffer[2]\<close> of packets that are shorter: after a packet that left a \<open>:\<close> there, a packet
  of one character is not returned; the caller gets the text that the older packet left behind it.
\<close>

theorem recv_stale_sequence:
  assumes "payload_ok p" and "length p < 2" and "g_buf g ! 2 = colon"
    and "length (g_buf g) = BUFMAX" and "g_open g" and "g_tx_ok g"
    and "g_in g = map RxByte (packet_bytes p) @ rest"
  shows "\<exists>g'. recv_packet g = Packet (c_string (drop 3 (g_buf g))) g'"
proof -
  let ?g = "g\<lparr>g_in := rest, g_buf := buf_put (g_buf g) 0 p\<rparr>"
  have r: "recv_packet g = accept_packet ?g"
    using assms by (intro recv_packet_bytes)
  have "buf_put (g_buf g) 0 p ! 2 = colon"
    using assms(1-4) by (subst buf_put_2) (auto simp: payload_ok_def)
  moreover have "drop 3 (buf_put (g_buf g) 0 p) = drop 3 (g_buf g)"
  proof -
    have "3 - length p = Suc (2 - length p)" "2 - length p + (length p + 1) = 3"
      using assms(2) by auto
    then show ?thesis
      by (simp add: buf_put_def)
  qed
  ultimately show ?thesis
    using r assms(5,6) by (simp add: accept_packet_def send_char_ok Let_def)
qed

text \<open>The buffer after the packet \<open>01:g\<close>; then \<open>s\<close> arrives and \<open>g\<close> is executed.\<close>

theorem recv_stale_sequence_witness:
  "\<exists>g'. recv_packet ((fresh_gdb (map RxByte (packet_bytes [0x73])))\<lparr>g_buf := [0x30, 0x31, 0x3a, 0x67] @ replicate 4092 0\<rparr>) =
     Packet [0x67] g'"
  using recv_stale_sequence [of "[0x73]"
    "(fresh_gdb (map RxByte (packet_bytes [0x73])))\<lparr>g_buf := [0x30, 0x31, 0x3a, 0x67] @ replicate 4092 0\<rparr>" "[]"]
  by (simp add: fresh_gdb_def payload_ok_def gdb_chars BUFMAX_def c_string_def takeWhile_append)

text \<open>
  \<open>send_packet\<close> repeats the packet after every character other than \<open>+\<close> and stops at the first \<open>+\<close>.
\<close>

theorem send_packet_retries:
  assumes "g_open g" and "g_tx_ok g" and "g_in g = map RxByte cs @ RxByte plus_ch # rest"
    and "list_all (\<lambda>c. c < 128 \<and> c \<noteq> plus_ch) cs"
  shows "send_packet g p = Sent (g\<lparr>g_in := rest, g_out := g_out g @ concat (replicate (length cs + 1) (packet_bytes p))\<rparr>)"
  using assms
proof (induction cs arbitrary: g)
  case Nil
  then show ?case
    by (subst send_packet.simps) (simp add: send_packet_no_ack_def send_chars_ok recv_char_byte gdb_chars)
next
  case (Cons c cs)
  let ?g = "g\<lparr>g_in := map RxByte cs @ RxByte plus_ch # rest, g_out := g_out g @ packet_bytes p\<rparr>"
  have "recv_char (send_packet_no_ack g p) = (Ch c, ?g)"
    using Cons.prems by (simp add: send_packet_no_ack_def send_chars_ok recv_char_byte)
  moreover have "send_packet ?g p =
      Sent (?g\<lparr>g_in := rest, g_out := g_out ?g @ concat (replicate (length cs + 1) (packet_bytes p))\<rparr>)"
    using Cons.prems by (intro Cons.IH) simp_all
  ultimately show ?case
    using Cons.prems(4) by (subst send_packet.simps) simp
qed

theorem send_packet_retries_witness:
  "send_packet (fresh_gdb [RxByte minus_ch, RxByte plus_ch]) [] =
     Sent ((fresh_gdb [])\<lparr>g_out := packet_bytes [] @ packet_bytes []\<rparr>)"
  using send_packet_retries [of "fresh_gdb [RxByte minus_ch, RxByte plus_ch]" "[minus_ch]" "[]" "[]"]
  by (simp add: fresh_gdb_def gdb_chars)

end
