(* ===== verification/C_Text.thy ===== *)
theory C_Text
  imports Gdb_Packet
begin

text \<open>
  The C library's conversions between numbers and text that the code uses: \<open>printf\<close> and \<open>scanf\<close> of \<open>%x\<close>, \<open>%u\<close>, \<open>%d\<close> and \<open>%s\<close>,
  \<open>atoi\<close> and \<open>strtoull\<close>.  Text is a list of bytes without the terminating zero.
\<close>

unbundle bit_operations_syntax

section \<open>Scanning\<close>

text \<open>
  What \<open>sscanf\<close> does for \<open>%lx\<close> and \<open>%s\<close>: the rest of the input, \<open>None\<close> for a matching failure.  A value that does not
  fit is \<open>ULONG_MAX\<close>.
\<close>

definition is_space :: "u8 \<Rightarrow> bool" where "is_space c \<longleftrightarrow> c = 0x20 \<or> 0x09 \<le> c \<and> c \<le> 0x0d"

definition skip_ws :: "bytes \<Rightarrow> bytes" where "skip_ws s = dropWhile is_space s"

definition is_hex :: "u8 \<Rightarrow> bool" where "is_hex c \<longleftrightarrow> hex c \<noteq> -1"

definition hex_value :: "bytes \<Rightarrow> nat" where
  "hex_value ds = foldl (\<lambda>n d. 16 * n + nat (hex d)) 0 ds"

definition strip_0x :: "bytes \<Rightarrow> bytes" where
  "strip_0x s = (case s of a # b # s' \<Rightarrow> if a = 0x30 \<and> (b = 0x78 \<or> b = 0x58) then s' else s | _ \<Rightarrow> s)"

definition scan_hex :: "bytes \<Rightarrow> (u64 \<times> bytes) option" where
  "scan_hex s =
    (let s = skip_ws s;
         (neg, s) = (case s of c # s' \<Rightarrow> if c = 0x2d then (True, s') else if c = 0x2b then (False, s') else (False, s) | [] \<Rightarrow> (False, []));
         s = strip_0x s;
         ds = takeWhile is_hex s;
         n = min (hex_value ds) (2 ^ 64 - 1);
         w = word_of_nat n
     in if ds = [] then None else Some (if neg then - w else w, dropWhile is_hex s))"

definition scan_char :: "u8 \<Rightarrow> bytes \<Rightarrow> bytes option" where
  "scan_char c s = (case s of d # s' \<Rightarrow> if d = c then Some s' else None | [] \<Rightarrow> None)"

definition scan_str :: "bytes \<Rightarrow> bytes option" where
  "scan_str s = (let w = takeWhile (\<lambda>c. \<not> is_space c) (skip_ws s) in if w = [] then None else Some w)"

text \<open>
  \<open>%u\<close> and \<open>%d\<close>: the library converts to 64 bits, as \<open>strtoul\<close> does, and the caller's object gets the low bits.
\<close>

definition isdigit :: "u8 \<Rightarrow> bool" where "isdigit c \<longleftrightarrow> 0x30 \<le> c \<and> c \<le> 0x39"

definition dec_value :: "bytes \<Rightarrow> nat" where
  "dec_value ds = foldl (\<lambda>n d. 10 * n + (unat d - 0x30)) 0 ds"

definition scan_sign :: "bytes \<Rightarrow> bool \<times> bytes" where
  "scan_sign s = (case s of c # s' \<Rightarrow> if c = 0x2d then (True, s') else if c = 0x2b then (False, s') else (False, s) | [] \<Rightarrow> (False, []))"

definition scan_dec :: "bytes \<Rightarrow> (u64 \<times> bytes) option" where
  "scan_dec s =
    (let (neg, s) = scan_sign (skip_ws s);
         ds = takeWhile isdigit s;
         w = word_of_nat (min (dec_value ds) (2 ^ 64 - 1))
     in if ds = [] then None else Some (if neg then - w else w, dropWhile isdigit s))"

text \<open>\<open>atoi\<close>, for values that fit an \<open>int\<close>.\<close>

definition atoi :: "bytes \<Rightarrow> int" where
  "atoi s = (let (neg, s) = scan_sign (skip_ws s); n = int (dec_value (takeWhile isdigit s)) in if neg then - n else n)"

text \<open>
  Literal text of a format: white space matches any amount of white space, other characters match themselves.  What was
  matched stays consumed when a later character does not match.
\<close>

fun scan_lit :: "bytes \<Rightarrow> bytes \<Rightarrow> bool \<times> bytes" where
  "scan_lit [] s = (True, s)"
| "scan_lit (c # f) s =
    (if is_space c then scan_lit f (skip_ws s)
     else case s of d # s' \<Rightarrow> if d = c then scan_lit f s' else (False, s) | [] \<Rightarrow> (False, s))"

text \<open>A call of \<open>fscanf\<close> with one conversion between literals: the value if it was converted, and the rest of the stream.\<close>

definition fscan1 :: "bytes \<Rightarrow> (bytes \<Rightarrow> ('a \<times> bytes) option) \<Rightarrow> bytes \<Rightarrow> bytes \<Rightarrow> 'a option \<times> bytes" where
  "fscan1 before conv after s =
    (case scan_lit before s of
       (False, s) \<Rightarrow> (None, s)
     | (True, s) \<Rightarrow> (case conv s of None \<Rightarrow> (None, skip_ws s) | Some (v, s) \<Rightarrow> (Some v, snd (scan_lit after s))))"

section \<open>Printing\<close>

fun dec_str :: "nat \<Rightarrow> bytes" where
  "dec_str n = (if n < 10 then [0x30 + word_of_nat n] else dec_str (n div 10) @ [0x30 + word_of_nat (n mod 10)])"

declare dec_str.simps [simp del]

text \<open>String literals.\<close>

definition asc :: "string \<Rightarrow> bytes" where
  "asc s = map of_char s"

section \<open>Lemmas\<close>

lemma hex_str_nonempty: "hex_str n \<noteq> []"
  by (subst hex_str.simps) simp

lemma hex_value_snoc: "hex_value (ds @ [d]) = 16 * hex_value ds + nat (hex d)"
  by (simp add: hex_value_def)

lemma hex_str_props: "hex_value (hex_str n) = n \<and> list_all is_hex (hex_str n)"
proof (induction n rule: hex_str.induct)
  case (1 n)
  have d: "k < 16 \<Longrightarrow> is_hex (hexchars ! k)" for k
    by (simp add: is_hex_def hex_hexchars)
  show ?case
  proof (cases "n < 16")
    case True
    then show ?thesis
      by (subst (1 2) hex_str.simps) (simp add: d hex_value_def hex_hexchars)
  next
    case False
    then show ?thesis
      using 1 by (subst (1 2) hex_str.simps) (simp add: d hex_value_snoc hex_hexchars)
  qed
qed

lemma hex_str_lead: "n \<noteq> 0 \<Longrightarrow> hd (hex_str n) \<noteq> 0x30"
proof (induction n rule: hex_str.induct)
  case (1 n)
  show ?case
  proof (cases "n < 16")
    case True
    have "list_all (\<lambda>k. k \<noteq> 0 \<longrightarrow> hexchars ! k \<noteq> 0x30) [0..<16]"
      by (simp add: upt_rec hexchars_def)
    with True "1.prems" show ?thesis
      by (subst hex_str.simps) (simp add: list_all_iff)
  next
    case False
    then have "hd (hex_str (n div 16)) \<noteq> 0x30"
      using 1 by simp
    with False show ?thesis
      by (subst hex_str.simps) (simp add: hex_str_nonempty)
  qed
qed

lemma is_hex_plain: "is_hex c \<Longrightarrow> \<not> is_space c \<and> c \<noteq> 0x2d \<and> c \<noteq> 0x2b"
proof -
  assume "is_hex c"
  then have "0x61 \<le> c \<and> c \<le> 0x66 \<or> 0x30 \<le> c \<and> c \<le> 0x39 \<or> 0x41 \<le> c \<and> c \<le> 0x46"
    unfolding is_hex_def hex_def by (simp split: if_splits)
  then have u: "0x30 \<le> unat c"
    unfolding word_le_nat_alt by auto
  then show ?thesis
    unfolding is_space_def word_le_nat_alt word_unat_eq_iff by auto
qed

lemma scan_hex_str:
  assumes "n < 2 ^ 64" and "rest = [] \<or> \<not> is_hex (hd rest) \<and> hd rest \<noteq> 0x78 \<and> hd rest \<noteq> 0x58"
  shows "scan_hex (hex_str n @ rest) = Some (word_of_nat n, rest)"
proof -
  obtain c ds where h: "hex_str n = c # ds"
    using hex_str_nonempty [of n] by (cases "hex_str n") auto
  have all: "list_all is_hex (hex_str n)" and v: "hex_value (hex_str n) = n"
    using hex_str_props [of n] by auto
  have c: "\<not> is_space c" "c \<noteq> 0x2d" "c \<noteq> 0x2b"
    using all h is_hex_plain [of c] by auto
  have "strip_0x (hex_str n @ rest) = hex_str n @ rest"
  proof (cases "n = 0")
    case True
    then have "hex_str n = [0x30]"
      by (subst hex_str.simps) (simp add: hexchars_def)
    then show ?thesis
      using assms(2) by (cases rest) (auto simp: strip_0x_def)
  next
    case False
    then have "c \<noteq> 0x30" using hex_str_lead [of n] h by simp
    then show ?thesis using h by (simp add: strip_0x_def split: list.splits)
  qed
  moreover have "takeWhile is_hex (hex_str n @ rest) = hex_str n" "dropWhile is_hex (hex_str n @ rest) = rest"
    using all assms(2) by (cases rest; simp add: list_all_iff)+
  moreover have "skip_ws (hex_str n @ rest) = hex_str n @ rest"
    using c h by (simp add: skip_ws_def)
  ultimately show ?thesis
    using c h v assms(1) hex_str_nonempty [of n] by (simp add: scan_hex_def Let_def min_def)
qed

lemma dec_digit: "n < 10 \<Longrightarrow> isdigit (0x30 + word_of_nat n) \<and> unat (0x30 + word_of_nat n :: u8) = 0x30 + n"
proof -
  assume n: "n < 10"
  then have "unat (0x30 + word_of_nat n :: u8) = 0x30 + n"
    by (simp add: unat_word_ariths unat_of_nat)
  with n show ?thesis by (simp add: isdigit_def word_le_nat_alt)
qed

lemma dec_value_snoc: "dec_value (ds @ [d]) = 10 * dec_value ds + (unat d - 0x30)"
  by (simp add: dec_value_def)

lemma dec_str_props: "dec_value (dec_str n) = n \<and> list_all isdigit (dec_str n) \<and> dec_str n \<noteq> []"
proof (induction n rule: dec_str.induct)
  case (1 n)
  show ?case
  proof (cases "n < 10")
    case True
    then show ?thesis
      by (subst (1 2 3) dec_str.simps) (simp add: dec_digit dec_value_def)
  next
    case False
    then show ?thesis
      using 1 by (subst (1 2 3) dec_str.simps) (simp add: dec_digit dec_value_snoc)
  qed
qed

lemma isdigit_plain: "isdigit c \<Longrightarrow> \<not> is_space c \<and> c \<noteq> 0x2d \<and> c \<noteq> 0x2b"
  by (auto simp: isdigit_def is_space_def word_le_nat_alt word_unat_eq_iff)

lemma scan_dec_str:
  assumes "n < 2 ^ 64" and "rest = [] \<or> \<not> isdigit (hd rest)"
  shows "scan_dec (dec_str n @ rest) = Some (word_of_nat n, rest)"
proof -
  obtain c ds where h: "dec_str n = c # ds"
    using dec_str_props [of n] by (cases "dec_str n") auto
  have all: "list_all isdigit (dec_str n)" and v: "dec_value (dec_str n) = n"
    using dec_str_props [of n] by auto
  have c: "\<not> is_space c" "c \<noteq> 0x2d" "c \<noteq> 0x2b"
    using all h isdigit_plain [of c] by auto
  have "takeWhile isdigit (dec_str n @ rest) = dec_str n" "dropWhile isdigit (dec_str n @ rest) = rest"
    using all assms(2) by (cases rest; simp add: list_all_iff)+
  moreover have "scan_sign (skip_ws (dec_str n @ rest)) = (False, dec_str n @ rest)"
    using c h by (simp add: skip_ws_def scan_sign_def)
  ultimately show ?thesis
    using v assms(1) h by (simp add: scan_dec_def Let_def min_def)
qed

text \<open>Text printed by a format is scanned back by the same format.\<close>

lemma scan_lit_same: "list_all (\<lambda>c. \<not> is_space c) f \<Longrightarrow> scan_lit f (f @ s) = (True, s)"
  by (induction f) auto

lemma scan_lit_append: "scan_lit (f @ g) s = (case scan_lit f s of (True, s) \<Rightarrow> scan_lit g s | (False, s) \<Rightarrow> (False, s))"
  by (induction f s rule: scan_lit.induct) (auto split: list.splits)

end
