(* ===== verification/Host_Utils.thy ===== *)
theory Host_Utils
  imports C_Text "HOL-Library.Sublist"
begin

text \<open>
  Helpers of the start-up code: \<open>src/utils.c\<close> (\<open>get_frequency_from_brand\<close>, \<open>get_cpufreq\<close>, \<open>pread_in_full\<close>) and
  \<open>memparse\<close> of \<open>src/uhyve.c\<close>.  The CPUID instruction is the parameter \<open>cpuid\<close>; a file read with \<open>pread\<close> is its content and a
  script of what the calls do.
\<close>

unbundle bit_operations_syntax

section \<open>The CPU frequency\<close>

definition cpu_brand :: "(u32 \<Rightarrow> u32 list) \<Rightarrow> bytes" where
  "cpu_brand cpuid = concat (map enc32 (take 4 (cpuid 0x80000002) @ take 4 (cpuid 0x80000003) @ take 4 (cpuid 0x80000004))) @ [0]"

text \<open>\<open>(uint32_t)(cpu_brand[i] - '0')\<close>; \<open>char\<close> is signed.\<close>

definition digit_at :: "bytes \<Rightarrow> nat \<Rightarrow> u32" where
  "digit_at brand i = scast (brand ! i) - 0x30"

definition unit_multiplier :: "u8 \<Rightarrow> u32 \<Rightarrow> u32" where
  "unit_multiplier c multiplier = (if c = 0x4d then 1 else if c = 0x47 then 1000 else if c = 0x54 then 1000000 else multiplier)"

definition brand_freq :: "bytes \<Rightarrow> nat \<Rightarrow> u32 \<Rightarrow> u32" where
  "brand_freq brand index multiplier =
    (if brand ! (index - 3) = 0x2e
     then digit_at brand (index - 4) * multiplier + digit_at brand (index - 2) * (multiplier div 10) +
          digit_at brand (index - 1) * (multiplier div 100)
     else (digit_at brand (index - 4) * 1000 + digit_at brand (index - 3) * 100 + digit_at brand (index - 2) * 10 +
           digit_at brand (index - 1)) * multiplier)"

text \<open>The loop from \<open>index\<close> on.  \<open>None\<close>: the unit is found so early that the code reads in front of the array.\<close>

function brand_loop :: "bytes \<Rightarrow> nat \<Rightarrow> u32 \<Rightarrow> u32 option" where
  "brand_loop brand index multiplier =
    (if index < 47
     then let multiplier = (if brand ! (index + 1) = 0x48 \<and> brand ! (index + 2) = 0x7a
                            then unit_multiplier (brand ! index) multiplier else multiplier)
          in if multiplier > 0
             then if index < 4 then None else Some (brand_freq brand index multiplier)
             else brand_loop brand (index + 1) multiplier
     else Some 0)"
  by pat_completeness auto
termination
  by (relation "measure (\<lambda>(brand, index, multiplier). 47 - index)") auto

declare brand_loop.simps [simp del]

definition get_frequency_from_brand :: "(u32 \<Rightarrow> u32 list) \<Rightarrow> u32 option" where
  "get_frequency_from_brand cpuid =
    (if cpuid 0x80000000 ! 0 < 0x80000004 then Some 0 else brand_loop (cpu_brand cpuid) 0 0)"

definition cpu_MHz :: bytes where "cpu_MHz = [0x63, 0x70, 0x75, 0x20, 0x4d, 0x48, 0x7a]"

text \<open>\<open>strstr\<close>.\<close>

fun strstr :: "bytes \<Rightarrow> bytes \<Rightarrow> bytes option" where
  "strstr [] pat = (if pat = [] then Some [] else None)"
| "strstr (c # s) pat = (if prefix pat (c # s) then Some (c # s) else strstr s pat)"

fun cpuinfo_freq :: "bytes list \<Rightarrow> u32" where
  "cpuinfo_freq [] = 0"
| "cpuinfo_freq (line # rest) =
    (case strstr line cpu_MHz of
       None \<Rightarrow> cpuinfo_freq rest
     | Some match \<Rightarrow> word_of_int (atoi (dropWhile (\<lambda>c. \<not> isdigit c) match)))"

text \<open>
  \<open>get_cpufreq\<close>: \<open>max_freq\<close> holds the lines of \<open>cpuinfo_max_freq\<close>, \<open>cpuinfo\<close> those of \<open>/proc/cpuinfo\<close>, as \<open>fgets\<close> returns them;
  \<open>None\<close> when the file does not open.
\<close>

definition get_cpufreq :: "(u32 \<Rightarrow> u32 list) \<Rightarrow> bytes list option \<Rightarrow> bytes list option \<Rightarrow> u32 option" where
  "get_cpufreq cpuid max_freq cpuinfo =
    (case get_frequency_from_brand cpuid of
       None \<Rightarrow> None
     | Some freq \<Rightarrow>
         if freq > 0 then Some freq
         else Some (case max_freq of
                      Some lines \<Rightarrow> (case lines of [] \<Rightarrow> freq | line # _ \<Rightarrow> word_of_int (atoi line) div 1000)
                    | None \<Rightarrow> (case cpuinfo of Some lines \<Rightarrow> cpuinfo_freq lines | None \<Rightarrow> freq)))"

section \<open>Reading a file\<close>

datatype pr = PrChunk nat | PrIntr | PrErr

record pfile =
  f_data :: bytes
  f_script :: "pr list"

datatype pread_result = PrBytes bytes | PrEINTR | PrFail

definition pread :: "pfile \<Rightarrow> nat \<Rightarrow> nat \<Rightarrow> pread_result \<times> pfile" where
  "pread f count offset =
    (let avail = take count (drop offset (f_data f))
     in case f_script f of
          [] \<Rightarrow> (PrBytes avail, f)
        | PrChunk n # script \<Rightarrow> (PrBytes (take (max 1 n) avail), f\<lparr>f_script := script\<rparr>)
        | PrIntr # script \<Rightarrow> (PrEINTR, f\<lparr>f_script := script\<rparr>)
        | PrErr # script \<Rightarrow> (PrFail, f\<lparr>f_script := script\<rparr>))"

text \<open>The loop returns what it has read and whether it succeeded.\<close>

function pread_loop :: "pfile \<Rightarrow> nat \<Rightarrow> nat \<Rightarrow> bytes \<Rightarrow> bool \<times> bytes \<times> pfile" where
  "pread_loop f count offset acc =
    (if 0 < count
     then (case pread f count offset of
             (PrEINTR, f') \<Rightarrow> pread_loop f' count offset acc
           | (PrFail, f') \<Rightarrow> (False, acc, f')
           | (PrBytes bs, f') \<Rightarrow>
               if bs = [] then (True, acc, f')
               else pread_loop f' (count - length bs) (offset + length bs) (acc @ bs))
     else (True, acc, f))"
  by pat_completeness auto
termination
proof (relation "measure (\<lambda>(f, count, offset, acc). length (f_script f) + count)", goal_cases)
  case 1
  show ?case by simp
next
  case 2
  then show ?case
    by (auto simp: pread_def Let_def split: list.splits pr.splits)
next
  case 3
  then show ?case
    by (auto simp: pread_def Let_def split: list.splits pr.splits)
qed

declare pread_loop.simps [simp del]

definition SSIZE_MAX :: nat where "SSIZE_MAX = 2 ^ 63 - 1"

definition pread_in_full :: "pfile \<Rightarrow> nat \<Rightarrow> nat \<Rightarrow> bool \<times> bytes \<times> pfile" where
  "pread_in_full f count offset = (if count > SSIZE_MAX then (False, [], f) else pread_loop f count offset [])"

section \<open>Sizes\<close>

text \<open>\<open>strtoull\<close> with base 0: the value and the rest of the string, all of it when there is no number.\<close>

definition is_oct :: "u8 \<Rightarrow> bool" where "is_oct c \<longleftrightarrow> 0x30 \<le> c \<and> c \<le> 0x37"

definition digits_value :: "nat \<Rightarrow> bytes \<Rightarrow> nat" where
  "digits_value base ds = foldl (\<lambda>n d. base * n + nat (hex d)) 0 ds"

definition strtoull :: "bytes \<Rightarrow> u64 \<times> bytes" where
  "strtoull ptr =
    (let (neg, s) = scan_sign (skip_ws ptr);
         (base, is_dig, s) =
           (if strip_0x s \<noteq> s \<and> strip_0x s \<noteq> [] \<and> is_hex (hd (strip_0x s)) then (16, is_hex, strip_0x s)
            else if s \<noteq> [] \<and> hd s = 0x30 then (8, is_oct, s)
            else (10, isdigit, s));
         ds = takeWhile is_dig s;
         w = word_of_nat (min (digits_value base ds) (2 ^ 64 - 1))
     in if ds = [] then (0, ptr) else (if neg then - w else w, dropWhile is_dig s))"

text \<open>The number of shifts by 10 that the fall-through of \<open>memparse\<close> does for a suffix.\<close>

definition suffix_shifts :: "u8 \<Rightarrow> nat" where
  "suffix_shifts c = (if c = 0x45 \<or> c = 0x65 then 6 else if c = 0x50 \<or> c = 0x70 then 5 else if c = 0x54 \<or> c = 0x74 then 4
     else if c = 0x47 \<or> c = 0x67 then 3 else if c = 0x4d \<or> c = 0x6d then 2 else if c = 0x4b \<or> c = 0x6b then 1 else 0)"

definition memparse :: "bytes \<Rightarrow> u64" where
  "memparse ptr =
    (let (size, endptr) = strtoull ptr
     in case endptr of [] \<Rightarrow> size | c # _ \<Rightarrow> (push_bit 10 ^^ suffix_shifts c) size)"

section \<open>Lemmas\<close>

definition reads_ok :: "pfile \<Rightarrow> bool" where
  "reads_ok f \<longleftrightarrow> list_all (\<lambda>p. p \<noteq> PrErr) (f_script f)"

lemma pread_ok:
  assumes "reads_ok f" and "pread f count offset = (r, f')"
  shows "reads_ok f' \<and> f_data f' = f_data f \<and> r \<noteq> PrFail \<and>
    (\<forall>bs. r = PrBytes bs \<longrightarrow> (\<exists>k. bs = take k (take count (drop offset (f_data f))) \<and> (bs = [] \<longrightarrow> take count (drop offset (f_data f)) = [])))"
proof (cases "f_script f")
  case Nil
  with assms show ?thesis by (auto simp: pread_def intro: exI [of _ count])
next
  case (Cons p script)
  with assms show ?thesis
    by (cases p) (auto simp: pread_def reads_ok_def Let_def)
qed

lemma pread_loop_ok:
  "reads_ok f \<Longrightarrow> \<exists>f'. pread_loop f count offset acc = (True, acc @ take count (drop offset (f_data f)), f') \<and>
     reads_ok f' \<and> f_data f' = f_data f"
proof (induction f count offset acc rule: pread_loop.induct)
  case (1 f count offset acc)
  obtain r f' where p: "pread f count offset = (r, f')" by fastforce
  note ok = pread_ok [OF "1.prems" p]
  show ?case
  proof (cases "0 < count")
    case False
    then show ?thesis using "1.prems" by (subst pread_loop.simps) simp
  next
    case pos: True
    show ?thesis
    proof (cases r)
      case PrEINTR
      with "1.IH"(2) [OF pos p [symmetric]] ok pos p show ?thesis
        by (subst pread_loop.simps) simp
    next
      case PrFail
      with ok show ?thesis by simp
    next
      case (PrBytes bs)
      let ?avail = "take count (drop offset (f_data f))"
      obtain k where k: "bs = take k ?avail" "bs = [] \<longrightarrow> ?avail = []"
        using ok PrBytes by blast
      show ?thesis
      proof (cases "bs = []")
        case True
        with k(2) ok p PrBytes pos show ?thesis
          by (subst pread_loop.simps) simp
      next
        case False
        have "?avail = bs @ take (count - length bs) (drop (offset + length bs) (f_data f))"
        proof -
          have "bs = take (length bs) ?avail" using k(1) by (metis append_eq_conv_conj append_take_drop_id)
          moreover have "drop (length bs) ?avail = take (count - length bs) (drop (offset + length bs) (f_data f))"
            by (simp add: drop_take add.commute)
          ultimately show ?thesis by (metis append_take_drop_id)
        qed
        with "1.IH"(1) [OF pos p [symmetric] PrBytes False] ok False p PrBytes pos show ?thesis
          by (subst pread_loop.simps) simp
      qed
    qed
  qed
qed

lemma digits_value_dec: "list_all isdigit ds \<Longrightarrow> digits_value 10 ds = dec_value ds"
proof -
  have h: "nat (hex d) = unat d - 0x30" if "isdigit d" for d
  proof -
    have "0x30 \<le> unat d" "unat d \<le> 0x39"
      using that unfolding isdigit_def word_le_nat_alt by simp_all
    then have "hex d = int (unat d) - 0x30"
      unfolding hex_def word_le_nat_alt by simp
    then show ?thesis by (simp only: nat_diff_distrib nat_int)
  qed
  assume "list_all isdigit ds"
  then show ?thesis
    unfolding digits_value_def dec_value_def by (induction ds rule: rev_induct) (simp_all add: h)
qed

lemma dec_str_lead: "n \<noteq> 0 \<Longrightarrow> hd (dec_str n) \<noteq> 0x30"
proof (induction n rule: dec_str.induct)
  case (1 n)
  show ?case
  proof (cases "n < 10")
    case True
    then have "unat (0x30 + word_of_nat n :: u8) \<noteq> 0x30"
      using dec_digit [of n] "1.prems" by simp
    with True show ?thesis by (subst dec_str.simps) (auto simp: word_unat_eq_iff)
  next
    case False
    then have "hd (dec_str (n div 10)) \<noteq> 0x30" using 1 by simp
    with False show ?thesis
      using dec_str_props [of "n div 10"] by (subst dec_str.simps) simp
  qed
qed

lemma strtoull_dec_str:
  assumes "0 < n" and "n < 2 ^ 64" and "rest = [] \<or> \<not> isdigit (hd rest)"
  shows "strtoull (dec_str n @ rest) = (word_of_nat n, rest)"
proof -
  obtain c ds where h: "dec_str n = c # ds"
    using dec_str_props [of n] by (cases "dec_str n") auto
  have all: "list_all isdigit (dec_str n)" and v: "dec_value (dec_str n) = n"
    using dec_str_props [of n] by auto
  have c: "\<not> is_space c" "c \<noteq> 0x2d" "c \<noteq> 0x2b" "c \<noteq> 0x30"
    using all h isdigit_plain [of c] dec_str_lead [of n] assms(1) by auto
  have "takeWhile isdigit (dec_str n @ rest) = dec_str n" "dropWhile isdigit (dec_str n @ rest) = rest"
    using all assms(3) by (cases rest; simp add: list_all_iff)+
  moreover have "scan_sign (skip_ws (dec_str n @ rest)) = (False, dec_str n @ rest)"
    using c h by (simp add: skip_ws_def scan_sign_def)
  moreover have "strip_0x (dec_str n @ rest) = dec_str n @ rest"
    using h c(4) by (simp add: strip_0x_def split: list.splits)
  ultimately show ?thesis
    using v assms(2) h c(4) digits_value_dec [OF all] by (simp add: strtoull_def Let_def min_def)
qed

lemma shifts_value: "(push_bit 10 ^^ k) (w :: u64) = w * 1024 ^ k"
  by (induction k) (simp_all add: push_bit_eq_mult mult.commute mult.left_commute)

section \<open>Properties\<close>

text \<open>
  However often \<open>pread\<close> is interrupted and whatever part it returns, \<open>pread_in_full\<close> ends and returns exactly the
  requested part of the file, cut off at its end.
\<close>

theorem pread_in_full_exact:
  assumes "reads_ok f" and "count \<le> SSIZE_MAX"
  shows "\<exists>f'. pread_in_full f count offset = (True, take count (drop offset (f_data f)), f') \<and> f_data f' = f_data f"
  using pread_loop_ok [OF assms(1), of count offset "[]"] assms(2) by (auto simp: pread_in_full_def)

theorem pread_in_full_exact_witness:
  "\<exists>f'. pread_in_full \<lparr>f_data = [1, 2, 3, 4], f_script = [PrIntr, PrChunk 1, PrIntr]\<rparr> 9 1 = (True, [2, 3, 4], f')"
  using pread_in_full_exact [of "\<lparr>f_data = [1, 2, 3, 4], f_script = [PrIntr, PrChunk 1, PrIntr]\<rparr>" 9 1]
  by (auto simp: reads_ok_def SSIZE_MAX_def)

text \<open>
  \<open>memparse\<close> reads a decimal number with one of the suffixes K, M, G, T, P and E, in either case, as that multiple of
  powers of 1024, modulo the 64-bit word.
\<close>

theorem memparse_suffix:
  assumes "0 < n" and "n < 2 ^ 64"
  shows "memparse (dec_str n) = word_of_nat n \<and>
    (\<not> isdigit c \<longrightarrow> memparse (dec_str n @ c # rest) = word_of_nat n * 1024 ^ suffix_shifts c)"
  using strtoull_dec_str [OF assms, of "[]"] strtoull_dec_str [OF assms, of "c # rest"]
  by (simp add: memparse_def shifts_value)

theorem memparse_suffix_witness: "memparse (dec_str 2 @ [0x47]) = 2 * 1024 ^ 3"
  using memparse_suffix [of 2 "0x47" "[]"] by (simp add: isdigit_def suffix_shifts_def)

text \<open>
  The frequency of a brand string with the unit GHz behind a number \<open>x.yz\<close> is found in MHz, provided no unit precedes.
\<close>

theorem brand_frequency_GHz:
  assumes "length brand = 49" and "4 \<le> i" and "i < 47"
    and "\<forall>j < i. brand ! (j + 1) \<noteq> 0x48 \<or> brand ! (j + 2) \<noteq> 0x7a"
    and "brand ! i = 0x47" and "brand ! (i + 1) = 0x48" and "brand ! (i + 2) = 0x7a" and "brand ! (i - 3) = 0x2e"
    and "brand ! (i - 4) = 0x30 + word_of_nat x" and "brand ! (i - 2) = 0x30 + word_of_nat y" and "brand ! (i - 1) = 0x30 + word_of_nat z"
    and "x < 10" and "y < 10" and "z < 10"
  shows "brand_loop brand 0 0 = Some (word_of_nat (1000 * x + 100 * y + 10 * z))"
proof -
  have d: "scast (0x30 + word_of_nat n :: u8) - 0x30 = (word_of_nat n :: u32)" if "n < 10" for n
  proof -
    have "n \<in> set [0..<10]" using that by simp
    then show ?thesis by (auto simp: upt_rec)
  qed
  have skip: "brand_loop brand j 0 = brand_loop brand i 0" if "j \<le> i" for j
    using that
  proof (induction rule: inc_induct)
    case (step j)
    then have "brand_loop brand j 0 = brand_loop brand (Suc j) 0"
      using assms(3,4) by (subst brand_loop.simps) (auto simp: Let_def)
    with step show ?case by simp
  qed simp
  have "brand_loop brand i 0 = Some (brand_freq brand i 1000)"
    using assms(2-7) by (subst brand_loop.simps) (simp add: unit_multiplier_def)
  also have "brand_freq brand i 1000 = word_of_nat (1000 * x + 100 * y + 10 * z)"
    using assms(8-14) by (simp add: brand_freq_def digit_at_def d)
  finally show ?thesis using skip [of 0] by simp
qed

definition sample_brand :: bytes where
  "sample_brand = [0x40, 0x20, 0x32, 0x2e, 0x36, 0x30, 0x47, 0x48, 0x7a] @ replicate 40 0"

theorem brand_frequency_GHz_witness: "brand_loop sample_brand 0 0 = Some 2600"
proof -
  have "\<forall>j < 6. sample_brand ! (j + 1) \<noteq> 0x48 \<or> sample_brand ! (j + 2) \<noteq> 0x7a"
  proof (intro allI impI)
    fix j :: nat assume "j < 6"
    then have "j = 0 \<or> j = 1 \<or> j = 2 \<or> j = 3 \<or> j = 4 \<or> j = 5" by linarith
    then show "sample_brand ! (j + 1) \<noteq> 0x48 \<or> sample_brand ! (j + 2) \<noteq> 0x7a"
      by (elim disjE) (simp_all add: sample_brand_def)
  qed
  then show ?thesis
    using brand_frequency_GHz [of sample_brand 6 2 6 0] by (simp add: sample_brand_def)
qed

end
