(* ===== verification/Checkpoint.thy ===== *)
theory Checkpoint
  imports Paging_X86 Mem_Mappings
begin

text \<open>
  Checkpoints, \<open>src/uhyve-x86_64.c\<close>: the scan of the guest's page tables for pages to save
  (\<open>scan_page_tables\<close>, and \<open>scan_dirty_log\<close> for KVM's dirty log), the checkpoint file written by \<open>timer_handler\<close>
  through the callback \<open>write_mem_page_to_chk_file\<close>, and \<open>load_checkpoint\<close>, which replays the files.

  A scan threads the guest memory and a state \<open>'s\<close> of the callback: it clears the accessed and dirty
  flags of the entries it saves, in the memory it scans, unless every checkpoint is a full one.
  A file is the list of its bytes; \<open>None\<close> as a result means that the program has ended with \<open>err\<close>.
\<close>

unbundle bit_operations_syntax

section \<open>The scan of the page tables\<close>

type_synonym 's save_page = "bytes \<Rightarrow> bytes \<Rightarrow> 's \<Rightarrow> 's"

definition scan_flag :: "bool \<Rightarrow> u32 \<Rightarrow> u64" where
  "scan_flag full_checkpoint no_checkpoint = (if \<not> full_checkpoint \<and> no_checkpoint > 0 then PG_DIRTY else PG_ACCESSED)"

definition present :: "u64 \<Rightarrow> bool" where
  "present entry \<longleftrightarrow> entry AND PG_PRESENT = PG_PRESENT"

definition entry_at :: "gmem \<Rightarrow> u64 \<Rightarrow> nat \<Rightarrow> u64" where
  "entry_at mem table i = load64 mem (table + 8 * word_of_nat i)"

definition clear_flags :: "bool \<Rightarrow> gmem \<Rightarrow> u64 \<Rightarrow> gmem" where
  "clear_flags full mem a = (if \<not> full then store64 mem a (load64 mem a AND NOT (PG_DIRTY OR PG_ACCESSED)) else mem)"

definition scan_pgt :: "bool \<Rightarrow> u64 \<Rightarrow> 's save_page \<Rightarrow> u64 \<Rightarrow> nat \<Rightarrow> gmem \<times> 's \<Rightarrow> gmem \<times> 's" where
  "scan_pgt full flag save_page pgt l = (\<lambda>(mem, s).
     if entry_at mem pgt l AND (PG_PRESENT OR flag) = PG_PRESENT OR flag
     then let mem = clear_flags full mem (pgt + 8 * word_of_nat l);
              pgt_entry = entry_at mem pgt l AND NOT PG_PSE
          in (mem, save_page (enc64 pgt_entry) (load_bytes mem (entry_at mem pgt l AND PAGE_MASK) (2 ^ PAGE_BITS)) s)
     else (mem, s))"

definition scan_pgd :: "bool \<Rightarrow> u64 \<Rightarrow> 's save_page \<Rightarrow> u64 \<Rightarrow> nat \<Rightarrow> gmem \<times> 's \<Rightarrow> gmem \<times> 's" where
  "scan_pgd full flag save_page pgd k = (\<lambda>(mem, s).
     if \<not> present (entry_at mem pgd k) then (mem, s)
     else if entry_at mem pgd k AND PG_PSE \<noteq> PG_PSE
     then fold (scan_pgt full flag save_page (entry_at mem pgd k AND PAGE_MASK)) [0..<2 ^ PAGE_MAP_BITS] (mem, s)
     else if entry_at mem pgd k AND flag = flag
     then let mem = clear_flags full mem (pgd + 8 * word_of_nat k)
          in (mem, save_page (enc64 (entry_at mem pgd k))
                (load_bytes mem (entry_at mem pgd k AND PAGE_2M_MASK) (2 ^ PAGE_2M_BITS)) s)
     else (mem, s))"

definition scan_pdpt :: "bool \<Rightarrow> u64 \<Rightarrow> 's save_page \<Rightarrow> u64 \<Rightarrow> nat \<Rightarrow> gmem \<times> 's \<Rightarrow> gmem \<times> 's" where
  "scan_pdpt full flag save_page pdpt j = (\<lambda>(mem, s).
     if \<not> present (entry_at mem pdpt j) then (mem, s)
     else fold (scan_pgd full flag save_page (entry_at mem pdpt j AND PAGE_MASK)) [0..<2 ^ PAGE_MAP_BITS] (mem, s))"

definition scan_pml4 :: "bool \<Rightarrow> u64 \<Rightarrow> 's save_page \<Rightarrow> u64 \<Rightarrow> nat \<Rightarrow> gmem \<times> 's \<Rightarrow> gmem \<times> 's" where
  "scan_pml4 full flag save_page pml4 i = (\<lambda>(mem, s).
     if \<not> present (entry_at mem pml4 i) then (mem, s)
     else fold (scan_pdpt full flag save_page (entry_at mem pml4 i AND PAGE_MASK)) [0..<2 ^ PAGE_MAP_BITS] (mem, s))"

definition scan_page_tables :: "bool \<Rightarrow> u32 \<Rightarrow> 's save_page \<Rightarrow> gmem \<times> 's \<Rightarrow> gmem \<times> 's" where
  "scan_page_tables full_checkpoint no_checkpoint save_page =
     fold (scan_pml4 full_checkpoint (scan_flag full_checkpoint no_checkpoint) save_page BOOT_PML4) [0..<2 ^ PAGE_MAP_BITS]"

section \<open>The scan of KVM's dirty log\<close>

text \<open>\<open>dlog slot\<close> is the bitmap that \<open>KVM_GET_DIRTY_LOG\<close> fills for a memory slot, as 64-bit words.\<close>

definition scan_slot :: "'s save_page \<Rightarrow> gmem \<Rightarrow> u64 \<Rightarrow> u64 list \<Rightarrow> 's \<Rightarrow> 's" where
  "scan_slot save_page mem slot_offset bitmap =
     fold (\<lambda>i. let value = bitmap ! i
               in if value \<noteq> 0
                  then fold (\<lambda>j s. if value AND push_bit j 1 = push_bit j 1
                                   then let addr = (word_of_nat i * 8 * 8 + word_of_nat j) * PAGE_SIZE + slot_offset
                                        in save_page (enc64 addr) (load_bytes mem addr (unat PAGE_SIZE)) s
                                   else s) [0..<64]
                  else (\<lambda>s. s)) [0..<length bitmap]"

definition dirty_log_size :: "u64 \<Rightarrow> nat" where
  "dirty_log_size guest_size = unat (drop_bit PAGE_BITS guest_size div 8)"

definition scan_dirty_log :: "u64 \<Rightarrow> (nat \<Rightarrow> u64 list) \<Rightarrow> 's save_page \<Rightarrow> gmem \<Rightarrow> 's \<Rightarrow> 's" where
  "scan_dirty_log guest_size dlog save_page mem s =
    (let n = dirty_log_size guest_size;
         s = scan_slot save_page mem 0 (take n (dlog 0 @ replicate n 0)) s
     in if guest_size > KVM_32BIT_GAP_START
        then scan_slot save_page mem KVM_32BIT_MAX_MEM_SIZE (take n (dlog 1 @ replicate n 0)) s
        else s)"

section \<open>The checkpoint file\<close>

text \<open>\<open>ok\<close> tells whether \<open>fwrite\<close> of some bytes to a file with a given content succeeds.\<close>

definition write_chk_file :: "(bytes \<Rightarrow> bytes \<Rightarrow> bool) \<Rightarrow> bytes \<Rightarrow> bytes option \<Rightarrow> bytes option" where
  "write_chk_file ok data chk_file =
    (case chk_file of None \<Rightarrow> None | Some f \<Rightarrow> if ok f data then Some (f @ data) else None)"

definition write_mem_page_to_chk_file :: "(bytes \<Rightarrow> bytes \<Rightarrow> bool) \<Rightarrow> bytes option save_page" where
  "write_mem_page_to_chk_file ok entry page chk_file = write_chk_file ok page (write_chk_file ok entry chk_file)"

definition determine_dirty_pages :: "bool \<Rightarrow> u32 \<Rightarrow> 's save_page \<Rightarrow> gmem \<times> 's \<Rightarrow> gmem \<times> 's" where
  "determine_dirty_pages full_checkpoint no_checkpoint save_page_handler =
     scan_page_tables full_checkpoint no_checkpoint save_page_handler"

text \<open>The memory file of a checkpoint in \<open>timer_handler\<close>: the clock, then the pages.\<close>

definition write_chk_mem :: "(bytes \<Rightarrow> bytes \<Rightarrow> bool) \<Rightarrow> bool \<Rightarrow> u32 \<Rightarrow> bytes \<Rightarrow> gmem \<Rightarrow> gmem \<times> bytes option" where
  "write_chk_mem ok full_checkpoint no_checkpoint clock mem =
     determine_dirty_pages full_checkpoint no_checkpoint (write_mem_page_to_chk_file ok)
       (mem, write_chk_file ok clock (Some []))"

section \<open>Loading\<close>

text \<open>\<open>fread\<close> of one object of \<open>n\<close> bytes: the object and the rest of the file, \<open>None\<close> at the end of the file.\<close>

definition fread1 :: "nat \<Rightarrow> bytes \<Rightarrow> (bytes \<times> bytes) option" where
  "fread1 n f = (if length f < n then None else Some (take n f, drop n f))"

definition page_bytes :: "u64 \<Rightarrow> nat" where
  "page_bytes location = (if location AND PG_PSE \<noteq> 0 then 2 ^ PAGE_2M_BITS else 2 ^ PAGE_BITS)"

function load_pages :: "bytes \<Rightarrow> gmem \<Rightarrow> gmem option" where
  "load_pages f mem =
    (case fread1 8 f of
       None \<Rightarrow> Some mem
     | Some (loc, f) \<Rightarrow>
         let location = dec64 loc
         in case fread1 (page_bytes location) f of
              None \<Rightarrow> None
            | Some (page, f) \<Rightarrow> load_pages f (store_bytes mem (determine_dest_offset location) page))"
  by pat_completeness auto
termination
  by (relation "measure (\<lambda>(f, mem). length f)") (auto simp: fread1_def split: if_splits)

declare load_pages.simps [simp del]

definition sizeof_clock :: nat where "sizeof_clock = 48"

record loader =
  l_mem :: gmem
  l_klog :: "u64 option"
  l_kheader :: "u64 option"
  l_clock :: "u64 option"

datatype load_result = Loaded loader | NoFile loader | LoadErr

text \<open>
  The loop over the checkpoints \<open>i .. no_checkpoint\<close>; \<open>files\<close> holds the files \<open>checkpoint/chk<i>_mem.dat\<close>.  Only the last
  one sets the clock, to the first field of the saved structure.
\<close>

function load_chk_loop :: "(u32 \<Rightarrow> bytes option) \<Rightarrow> bool \<Rightarrow> u32 \<Rightarrow> nat \<Rightarrow> loader \<Rightarrow> load_result" where
  "load_chk_loop files cap_adjust_clock_stable no_checkpoint i ld =
    (if i \<le> unat no_checkpoint
     then case files (word_of_nat i) of
            None \<Rightarrow> NoFile ld
          | Some f \<Rightarrow>
              (case fread1 sizeof_clock f of
                 None \<Rightarrow> LoadErr
               | Some (clock, f) \<Rightarrow>
                   let ld = (if cap_adjust_clock_stable \<and> i = unat no_checkpoint
                             then ld\<lparr>l_clock := Some (dec64 (take 8 clock))\<rparr> else ld)
                   in case load_pages f (l_mem ld) of
                        None \<Rightarrow> LoadErr
                      | Some mem \<Rightarrow> load_chk_loop files cap_adjust_clock_stable no_checkpoint (i + 1) (ld\<lparr>l_mem := mem\<rparr>))
     else Loaded ld)"
  by pat_completeness auto
termination
  by (relation "measure (\<lambda>(files, c, no, i, ld). Suc (unat no) - i)") auto

declare load_chk_loop.simps [simp del]

definition set_pointers :: "u64 \<Rightarrow> loader \<Rightarrow> loader" where
  "set_pointers elf_entry ld =
    (let ld = (if l_klog ld = None then ld\<lparr>l_klog := Some (elf_entry + 0x5000)\<rparr> else ld)
     in if l_kheader ld = None then ld\<lparr>l_kheader := Some elf_entry\<rparr> else ld)"

definition load_checkpoint :: "(u32 \<Rightarrow> bytes option) \<Rightarrow> bool \<Rightarrow> bool \<Rightarrow> u32 \<Rightarrow> u64 \<Rightarrow> loader \<Rightarrow> load_result" where
  "load_checkpoint files cap_adjust_clock_stable full_checkpoint no_checkpoint elf_entry ld =
     load_chk_loop files cap_adjust_clock_stable no_checkpoint (if full_checkpoint then unat no_checkpoint else 0)
       (set_pointers elf_entry ld)"

section \<open>The scan as one pass over the leaf entries\<close>

text \<open>
  The entries the scan may save: the address of the entry and whether it is a 2 MByte entry of a page directory.
  \<open>visit\<close> is what the scan does at one of them.
\<close>

definition pgd_slots :: "gmem \<Rightarrow> u64 \<Rightarrow> nat \<Rightarrow> (u64 \<times> bool) list" where
  "pgd_slots m pgd k = (let e = entry_at m pgd k
     in if \<not> present e then []
        else if e AND PG_PSE \<noteq> PG_PSE then map (\<lambda>l. ((e AND PAGE_MASK) + 8 * word_of_nat l, False)) [0..<2 ^ PAGE_MAP_BITS]
        else [(pgd + 8 * word_of_nat k, True)])"

definition pdpt_slots :: "gmem \<Rightarrow> u64 \<Rightarrow> nat \<Rightarrow> (u64 \<times> bool) list" where
  "pdpt_slots m pdpt j = (let e = entry_at m pdpt j
     in if \<not> present e then [] else concat (map (pgd_slots m (e AND PAGE_MASK)) [0..<2 ^ PAGE_MAP_BITS]))"

definition pml4_slots :: "gmem \<Rightarrow> u64 \<Rightarrow> nat \<Rightarrow> (u64 \<times> bool) list" where
  "pml4_slots m pml4 i = (let e = entry_at m pml4 i
     in if \<not> present e then [] else concat (map (pdpt_slots m (e AND PAGE_MASK)) [0..<2 ^ PAGE_MAP_BITS]))"

definition leaf_slots :: "gmem \<Rightarrow> (u64 \<times> bool) list" where
  "leaf_slots m = concat (map (pml4_slots m BOOT_PML4) [0..<2 ^ PAGE_MAP_BITS])"

definition wanted :: "u64 \<Rightarrow> bool \<Rightarrow> u64 \<Rightarrow> bool" where
  "wanted flag big e \<longleftrightarrow> (if big then e AND flag = flag else e AND (PG_PRESENT OR flag) = PG_PRESENT OR flag)"

definition frame :: "bool \<Rightarrow> u64 \<Rightarrow> u64" where
  "frame big e = e AND (if big then PAGE_2M_MASK else PAGE_MASK)"

definition frame_size :: "bool \<Rightarrow> nat" where
  "frame_size big = (if big then 2 ^ PAGE_2M_BITS else 2 ^ PAGE_BITS)"

definition saved_entry :: "bool \<Rightarrow> u64 \<Rightarrow> u64" where
  "saved_entry big e = (if big then e else e AND NOT PG_PSE)"

definition visit :: "bool \<Rightarrow> u64 \<Rightarrow> 's save_page \<Rightarrow> u64 \<times> bool \<Rightarrow> gmem \<times> 's \<Rightarrow> gmem \<times> 's" where
  "visit full flag save_page = (\<lambda>(a, big) (mem, s).
     if wanted flag big (load64 mem a)
     then let mem = clear_flags full mem a; e = load64 mem a
          in (mem, save_page (enc64 (saved_entry big e)) (load_bytes mem (frame big e) (frame_size big)) s)
     else (mem, s))"

lemma fold_flatten:
  assumes "\<And>i st. i \<in> set xs \<Longrightarrow> I st \<Longrightarrow> f i st = fold g (h i) st \<and> I (fold g (h i) st)" and "I st"
  shows "fold f xs st = fold g (concat (map h xs)) st \<and> I (fold g (concat (map h xs)) st)"
  using assms
proof (induction xs arbitrary: st)
  case (Cons x xs)
  then have "f x st = fold g (h x) st" "I (fold g (h x) st)" by auto
  with Cons show ?case by simp
qed simp

text \<open>Addresses of table entries.\<close>

definition aligned8 :: "u64 \<Rightarrow> bool" where "aligned8 a \<longleftrightarrow> 8 dvd unat a"

lemma dvd_mod_2_64: "8 dvd n \<Longrightarrow> 8 dvd n mod (2::nat) ^ 64"
proof (rule dvd_mod)
  show "(8::nat) dvd 2 ^ 64" by (rule dvdI [of _ _ "2 ^ 61"]) simp
qed

lemma aligned8_slot:
  assumes "take_bit 12 t = 0" shows "aligned8 (t + 8 * word_of_nat i)"
proof -
  have "unat t mod 2 ^ 12 = 0"
    using assms by (simp only: unat_mod_take unsigned_0)
  then have "(2::nat) ^ 12 dvd unat t" by (rule mod_0_imp_dvd)
  moreover have "(8::nat) dvd 2 ^ 12" by (rule dvdI [of _ _ "2 ^ 9"]) simp
  ultimately have t: "8 dvd unat t" by (metis dvd_trans)
  have "unat (8 * word_of_nat i :: u64) = 8 * (i mod 2 ^ 64) mod 2 ^ 64"
    by (simp add: unat_word_ariths unat_of_nat)
  then have "8 dvd unat (8 * word_of_nat i :: u64)"
    using dvd_mod_2_64 [of "8 * (i mod 2 ^ 64)"] by simp
  with t have "8 dvd unat t + unat (8 * word_of_nat i :: u64)" by simp
  then show ?thesis
    using dvd_mod_2_64 by (simp add: aligned8_def unat_word_ariths)
qed

lemma table_aligned: "take_bit 12 (e AND PAGE_MASK) = 0" "take_bit 12 BOOT_PML4 = 0"
  by (rule bit_eqI, auto simp: bit_simps bit_PAGE_MASK) (simp add: BOOT_PML4_def)

lemma aligned8_apart:
  assumes "aligned8 a" and "aligned8 b" and "a \<noteq> b" shows "disjoint_runs a 8 b 8"
proof -
  have "8 \<le> unat (x - y)" if "aligned8 x" "aligned8 y" "x \<noteq> y" for x y
  proof -
    have "8 dvd unat (x - y)"
    proof (cases "y \<le> x")
      case True
      then show ?thesis using that by (simp add: unat_sub aligned8_def dvd_diff_nat)
    next
      case False
      have "unat (x - y) = 2 ^ 64 - unat (y - x)"
        using unat_diff_swap [of x y] that(3) by simp
      moreover have "8 dvd unat (y - x)"
        using that False by (simp add: unat_sub aligned8_def dvd_diff_nat)
      moreover have "(8::nat) dvd 2 ^ 64" by (rule dvdI [of _ _ "2 ^ 61"]) simp
      ultimately show ?thesis by (metis dvd_diff_nat)
    qed
    moreover have "unat (x - y) \<noteq> 0"
      using that(3) by (simp add: unat_eq_0)
    ultimately show ?thesis by (auto elim: dvdE)
  qed
  then show ?thesis
    using assms by (simp add: disjoint_runs_def)
qed

text \<open>Two memories have the same tables up to the accessed and dirty flags.\<close>

abbreviation AD_FLAGS :: u64 where "AD_FLAGS \<equiv> PG_DIRTY OR PG_ACCESSED"

definition same_tables :: "gmem \<Rightarrow> gmem \<Rightarrow> bool" where
  "same_tables m m' \<longleftrightarrow> (\<forall>a. aligned8 a \<longrightarrow> load64 m' a AND NOT AD_FLAGS = load64 m a AND NOT AD_FLAGS)"

lemma same_tables_bit: "same_tables m m' \<Longrightarrow> aligned8 a \<Longrightarrow> n \<noteq> 5 \<Longrightarrow> n \<noteq> 6 \<Longrightarrow> bit (load64 m' a) n = bit (load64 m a) n"
proof -
  assume s: "same_tables m m'" "aligned8 a" and n: "n \<noteq> 5" "n \<noteq> 6"
  have "bit (load64 m' a AND NOT AD_FLAGS) n = bit (load64 m a AND NOT AD_FLAGS) n"
    using s by (simp add: same_tables_def)
  then show ?thesis
    using n by (cases "n < 64") (auto simp: bit_simps bit_PG dest: bit_imp_le_length)
qed

lemma flag_set:
  assumes "\<And>n. bit (f::u64) n = (n = k)" shows "(w AND f = f) = bit w k"
proof
  assume "w AND f = f"
  then have "bit (w AND f) k" using assms by simp
  then show "bit w k" by (simp add: bit_and_iff)
next
  assume "bit w k"
  then show "w AND f = f" by (intro bit_eqI) (auto simp: bit_and_iff assms)
qed

lemma same_tables_entry:
  assumes "same_tables m m'" and "take_bit 12 t = 0"
  shows "present (entry_at m' t i) = present (entry_at m t i)"
    "(entry_at m' t i AND PG_PSE = PG_PSE) = (entry_at m t i AND PG_PSE = PG_PSE)"
    "entry_at m' t i AND PAGE_MASK = entry_at m t i AND PAGE_MASK"
proof -
  note b = same_tables_bit [OF assms(1) aligned8_slot [OF assms(2)], folded entry_at_def]
  show "present (entry_at m' t i) = present (entry_at m t i)"
    using b [of 0] by (simp add: present_def flag_set [OF bit_PG(1)])
  show "(entry_at m' t i AND PG_PSE = PG_PSE) = (entry_at m t i AND PG_PSE = PG_PSE)"
    using b [of 7] by (simp add: flag_set [OF bit_PG(5)])
  show "entry_at m' t i AND PAGE_MASK = entry_at m t i AND PAGE_MASK"
    by (rule bit_eqI) (auto simp: bit_simps bit_PAGE_MASK b)
qed

lemma clear_flags_same_tables:
  assumes "same_tables m mem" and "aligned8 a" shows "same_tables m (clear_flags full mem a)"
proof -
  have "load64 (clear_flags full mem a) b AND NOT AD_FLAGS = load64 mem b AND NOT AD_FLAGS" if "aligned8 b" for b
    using aligned8_apart [OF that assms(2)]
    by (cases "b = a") (auto simp: clear_flags_def load64_store64_other and.assoc)
  then show ?thesis
    using assms(1) by (simp add: same_tables_def)
qed

lemma visit_same_tables:
  "same_tables m (fst st) \<Longrightarrow> aligned8 (fst v) \<Longrightarrow> same_tables m (fst (visit full flag save_page v st))"
  by (auto simp: visit_def split_beta Let_def clear_flags_same_tables)

lemma visits_same_tables:
  "same_tables m (fst st) \<Longrightarrow> list_all (\<lambda>v. aligned8 (fst v)) vs \<Longrightarrow> same_tables m (fst (fold (visit full flag save_page) vs st))"
  by (induction vs arbitrary: st) (simp_all add: visit_same_tables)

lemma slots_aligned:
  "take_bit 12 t = 0 \<Longrightarrow> list_all (\<lambda>v. aligned8 (fst v)) (pgd_slots m t k)"
  using aligned8_slot [OF table_aligned(1)] aligned8_slot [of t]
  by (auto simp: pgd_slots_def Let_def list_all_iff)

lemma scan_pgt_visit: "scan_pgt full flag save_page t = (\<lambda>l. visit full flag save_page (t + 8 * word_of_nat l, False))"
  by (intro ext) (auto simp: scan_pgt_def visit_def entry_at_def wanted_def frame_def frame_size_def saved_entry_def Let_def)

lemma scan_pgd_visits:
  assumes "same_tables m (fst st)" and "take_bit 12 t = 0"
  shows "scan_pgd full flag save_page t k st = fold (visit full flag save_page) (pgd_slots m t k) st \<and>
    same_tables m (fst (fold (visit full flag save_page) (pgd_slots m t k) st))"
proof
  show "same_tables m (fst (fold (visit full flag save_page) (pgd_slots m t k) st))"
    using assms(1) slots_aligned [OF assms(2)] by (rule visits_same_tables)
  obtain mem s where st: "st = (mem, s)" by fastforce
  note e = same_tables_entry [OF assms(1) [unfolded st fst_conv] assms(2), of k]
  have "visit full flag save_page (t + 8 * word_of_nat k, True) (mem, s) =
      (if entry_at mem t k AND flag = flag
       then let mem = clear_flags full mem (t + 8 * word_of_nat k)
          in (mem, save_page (enc64 (entry_at mem t k)) (load_bytes mem (entry_at mem t k AND PAGE_2M_MASK) (2 ^ PAGE_2M_BITS)) s)
       else (mem, s))"
    by (simp add: visit_def entry_at_def wanted_def frame_def frame_size_def saved_entry_def Let_def)
  then show "scan_pgd full flag save_page t k st = fold (visit full flag save_page) (pgd_slots m t k) st"
    by (simp add: scan_pgd_def st pgd_slots_def e Let_def scan_pgt_visit fold_map comp_def)
qed

lemma scan_pdpt_visits:
  assumes "same_tables m (fst st)" and "take_bit 12 t = 0"
  shows "scan_pdpt full flag save_page t j st = fold (visit full flag save_page) (pdpt_slots m t j) st \<and>
    same_tables m (fst (fold (visit full flag save_page) (pdpt_slots m t j) st))"
proof -
  note e = same_tables_entry [OF assms, of j]
  have "scan_pdpt full flag save_page t j st = (if \<not> present (entry_at m t j) then st
      else fold (scan_pgd full flag save_page (entry_at m t j AND PAGE_MASK)) [0..<2 ^ PAGE_MAP_BITS] st)"
    by (simp add: scan_pdpt_def split_beta e)
  then show ?thesis
    using fold_flatten [where I = "\<lambda>st. same_tables m (fst st)" and g = "visit full flag save_page" and
        f = "scan_pgd full flag save_page (entry_at m t j AND PAGE_MASK)" and h = "pgd_slots m (entry_at m t j AND PAGE_MASK)",
        OF scan_pgd_visits [OF _ table_aligned(1)] assms(1)] assms(1)
    by (simp add: pdpt_slots_def Let_def)
qed

lemma scan_pml4_visits:
  assumes "same_tables m (fst st)" and "take_bit 12 t = 0"
  shows "scan_pml4 full flag save_page t i st = fold (visit full flag save_page) (pml4_slots m t i) st \<and>
    same_tables m (fst (fold (visit full flag save_page) (pml4_slots m t i) st))"
proof -
  note e = same_tables_entry [OF assms, of i]
  have "scan_pml4 full flag save_page t i st = (if \<not> present (entry_at m t i) then st
      else fold (scan_pdpt full flag save_page (entry_at m t i AND PAGE_MASK)) [0..<2 ^ PAGE_MAP_BITS] st)"
    by (simp add: scan_pml4_def split_beta e)
  then show ?thesis
    using fold_flatten [where I = "\<lambda>st. same_tables m (fst st)" and g = "visit full flag save_page" and
        f = "scan_pdpt full flag save_page (entry_at m t i AND PAGE_MASK)" and h = "pdpt_slots m (entry_at m t i AND PAGE_MASK)",
        OF scan_pdpt_visits [OF _ table_aligned(1)] assms(1)] assms(1)
    by (simp add: pml4_slots_def Let_def)
qed

lemma scan_visits:
  "scan_page_tables full no save_page (m, s) = fold (visit full (scan_flag full no) save_page) (leaf_slots m) (m, s)"
proof -
  have "same_tables m (fst (m, s))" by (simp add: same_tables_def)
  from fold_flatten [where I = "\<lambda>st. same_tables m (fst st)" and g = "visit full (scan_flag full no) save_page" and
      f = "scan_pml4 full (scan_flag full no) save_page BOOT_PML4" and h = "pml4_slots m BOOT_PML4", OF scan_pml4_visits [OF _ table_aligned(2)] this]
  show ?thesis by (simp add: scan_page_tables_def leaf_slots_def)
qed

section \<open>What a scan saves\<close>

text \<open>The records a scan saves, and the file that holds them.\<close>

definition note_page :: "(bytes \<times> bytes) list save_page" where
  "note_page entry page rs = rs @ [(entry, page)]"

definition records :: "bool \<Rightarrow> u64 \<Rightarrow> (u64 \<times> bool) list \<Rightarrow> gmem \<Rightarrow> gmem \<times> (bytes \<times> bytes) list" where
  "records full flag vs m = fold (visit full flag note_page) vs (m, [])"

definition file_of :: "(bytes \<times> bytes) list \<Rightarrow> bytes" where
  "file_of rs = concat (map (\<lambda>(entry, page). entry @ page) rs)"

lemma visit_none: "snd (fold (visit full flag (write_mem_page_to_chk_file ok)) vs (m, None)) = None"
  by (induction vs arbitrary: m) (auto simp: visit_def write_mem_page_to_chk_file_def write_chk_file_def Let_def)

lemma visit_writes:
  assumes "fold (visit full flag (write_mem_page_to_chk_file ok)) vs (m, Some (f0 @ file_of rs)) = (m', Some f)"
  shows "\<exists>rs'. fold (visit full flag note_page) vs (m, rs) = (m', rs') \<and> f = f0 @ file_of rs'"
  using assms
proof (induction vs arbitrary: m rs)
  case Nil
  then show ?case by simp
next
  case (Cons v vs)
  obtain a big where v: "v = (a, big)" by fastforce
  show ?case
  proof (cases "wanted flag big (load64 m a)")
    case False
    with Cons show ?thesis by (simp add: v visit_def)
  next
    case True
    let ?m = "clear_flags full m a"
    let ?e = "load64 ?m a"
    let ?r = "(enc64 (saved_entry big ?e), load_bytes ?m (frame big ?e) (frame_size big))"
    have step: "visit full flag sp v (m, s) = (?m, sp (fst ?r) (snd ?r) s)" for sp :: "'s save_page" and s
      using True by (simp add: v visit_def Let_def)
    have w: "write_mem_page_to_chk_file ok (fst ?r) (snd ?r) (Some (f0 @ file_of rs)) \<in> {None, Some (f0 @ file_of (rs @ [?r]))}"
      by (simp add: write_mem_page_to_chk_file_def write_chk_file_def file_of_def)
    then have "write_mem_page_to_chk_file ok (fst ?r) (snd ?r) (Some (f0 @ file_of rs)) = Some (f0 @ file_of (rs @ [?r]))"
      using Cons.prems step [of "write_mem_page_to_chk_file ok" "Some (f0 @ file_of rs)"] visit_none [of full flag ok vs ?m]
      by (auto simp del: fst_conv snd_conv) simp
    then have "fold (visit full flag (write_mem_page_to_chk_file ok)) vs (?m, Some (f0 @ file_of (rs @ [?r]))) = (m', Some f)"
      using Cons.prems step [of "write_mem_page_to_chk_file ok" "Some (f0 @ file_of rs)"] by simp
    moreover have "visit full flag note_page v (m, rs) = (?m, rs @ [?r])"
      using step [of note_page rs] by (simp add: note_page_def)
    ultimately show ?thesis
      using Cons.IH by simp
  qed
qed

lemma write_chk_mem_records:
  assumes "write_chk_mem ok full no clock m = (m', Some f)"
  shows "\<exists>rs. records full (scan_flag full no) (leaf_slots m) m = (m', rs) \<and> f = clock @ file_of rs"
proof -
  have "write_chk_file ok clock (Some []) = Some (clock @ file_of [])"
    using assms visit_none [of full "scan_flag full no" ok "leaf_slots m" m]
    by (auto simp: write_chk_mem_def determine_dirty_pages_def scan_visits write_chk_file_def file_of_def split: if_splits)
  with assms show ?thesis
    using visit_writes [of full "scan_flag full no" ok "leaf_slots m" m clock "[]" m' f]
    by (simp add: write_chk_mem_def determine_dirty_pages_def scan_visits records_def)
qed

text \<open>Loading a file stores its records one after the other.\<close>

definition store_record :: "bytes \<times> bytes \<Rightarrow> gmem \<Rightarrow> gmem" where
  "store_record = (\<lambda>(entry, page) m. store_bytes m (determine_dest_offset (dec64 entry)) page)"

definition record_ok :: "bytes \<times> bytes \<Rightarrow> bool" where
  "record_ok = (\<lambda>(entry, page). length entry = 8 \<and> length page = page_bytes (dec64 entry))"

lemma load_pages_file:
  "list_all record_ok rs \<Longrightarrow> load_pages (file_of rs) m = Some (fold store_record rs m)"
proof (induction rs arbitrary: m)
  case Nil
  then show ?case by (simp add: file_of_def load_pages.simps fread1_def)
next
  case (Cons r rs)
  obtain entry page where r: "r = (entry, page)" by fastforce
  then have l: "length entry = 8" "length page = page_bytes (dec64 entry)"
    using Cons.prems by (simp_all add: record_ok_def)
  have "load_pages (file_of (r # rs)) m = load_pages (file_of rs) (store_record r m)"
    using l by (simp add: file_of_def r load_pages.simps [of "entry @ _"] fread1_def store_record_def Let_def)
  with Cons show ?case by simp
qed

text \<open>Every record holds the page its entry names, as it is in memory when the entry is saved.\<close>

definition in_record :: "u64 \<Rightarrow> bytes \<times> bytes \<Rightarrow> bool" where
  "in_record x = (\<lambda>(entry, page). in_run x (determine_dest_offset (dec64 entry)) (length page))"

lemma saved_entry_dest:
  "big = bit e 7 \<or> \<not> big \<Longrightarrow> determine_dest_offset (saved_entry big e) = frame big e \<and> page_bytes (saved_entry big e) = frame_size big"
proof -
  assume b: "big = bit e 7 \<or> \<not> big"
  have p: "bit (saved_entry big e) 7 = big"
    using b by (auto simp: saved_entry_def bit_simps bit_PG)
  have "(e AND NOT PG_PSE) AND PAGE_MASK = e AND PAGE_MASK"
    by (rule bit_eqI) (auto simp: bit_simps bit_PG bit_PAGE_MASK)
  then show ?thesis
    by (simp add: determine_dest_offset_def page_bytes_def and_flag(2) p frame_def frame_size_def) (simp add: saved_entry_def)
qed

lemma frame_flags: "frame big (e AND NOT AD_FLAGS) = frame big e" "frame big (e AND NOT PG_DIRTY AND NOT PG_ACCESSED) = frame big e"
  unfolding frame_def by (rule bit_eqI, auto simp: bit_simps bit_PG bit_PAGE_MASK bit_PAGE_2M_MASK)+

lemma visit_note:
  "visit full flag note_page (a, big) (m, rs) =
    (if wanted flag big (load64 m a)
     then (clear_flags full m a, rs @ [(enc64 (saved_entry big (load64 (clear_flags full m a) a)),
             load_bytes (clear_flags full m a) (frame big (load64 m a)) (frame_size big))])
     else (m, rs))"
proof -
  have "frame big (load64 (clear_flags full m a) a) = frame big (load64 m a)"
    by (auto simp: clear_flags_def frame_flags)
  then show ?thesis
    by (simp add: visit_def note_page_def Let_def)
qed

text \<open>What is known of a slot of the tables: a big slot holds an entry with the flag for 2 MByte pages.\<close>

definition slot_ok :: "gmem \<Rightarrow> u64 \<times> bool \<Rightarrow> bool" where
  "slot_ok m v \<longleftrightarrow> aligned8 (fst v) \<and> (snd v \<longrightarrow> bit (load64 m (fst v)) 7 \<and> bit (load64 m (fst v)) 0)"

lemma slot_ok_same: "slot_ok m v \<Longrightarrow> same_tables m m' \<Longrightarrow> slot_ok m' v"
  by (simp add: slot_ok_def same_tables_bit)

lemma slot_ok_clear: "slot_ok m v \<Longrightarrow> aligned8 a \<Longrightarrow> slot_ok (clear_flags full m a) v"
  using clear_flags_same_tables [of m m a full] by (auto simp: same_tables_def intro: slot_ok_same)

lemma present_bit: "present e \<longleftrightarrow> bit e 0"
  unfolding present_def by (rule flag_set) (rule bit_PG(1))

lemma pse_bit: "(e AND PG_PSE = PG_PSE) \<longleftrightarrow> bit e 7"
  by (rule flag_set) (rule bit_PG(5))

lemma pgd_slots_ok: "take_bit 12 t = 0 \<Longrightarrow> list_all (slot_ok m) (pgd_slots m t k)"
  using slots_aligned [of t m k]
  by (auto simp: pgd_slots_def Let_def list_all_iff slot_ok_def present_bit pse_bit entry_at_def)

lemma leaf_slots_ok: "list_all (slot_ok m) (leaf_slots m)"
  using pgd_slots_ok [OF table_aligned(1), of m]
  by (auto simp: leaf_slots_def pml4_slots_def pdpt_slots_def list_all_iff Let_def split: if_splits)

lemma note_ok:
  assumes "list_all (slot_ok m) vs" and "list_all record_ok rs"
  shows "list_all record_ok (snd (fold (visit full flag note_page) vs (m, rs)))"
  using assms
proof (induction vs arbitrary: m rs)
  case (Cons v vs)
  obtain a big where v: "v = (a, big)" by fastforce
  let ?e = "load64 (clear_flags full m a) a"
  have ok: "slot_ok m (a, big)" "list_all (slot_ok m) vs" using Cons.prems v by auto
  have "slot_ok (clear_flags full m a) (a, big)"
    using ok(1) by (rule slot_ok_clear) (use ok in \<open>simp add: slot_ok_def\<close>)
  then have "big = bit ?e 7 \<or> \<not> big" by (auto simp: slot_ok_def)
  from saved_entry_dest [OF this] Cons.prems(2)
  have "list_all record_ok (snd (visit full flag note_page v (m, rs)))"
    by (simp add: v visit_note record_ok_def c64.length_enc c64.dec_enc)
  moreover have "list_all (slot_ok (fst (visit full flag note_page v (m, rs)))) vs"
    using ok slot_ok_clear [of m _ a full] by (auto simp: v visit_note list_all_iff slot_ok_def)
  ultimately show ?case
    using Cons.IH [of "fst (visit full flag note_page v (m, rs))" "snd (visit full flag note_page v (m, rs))"] by simp
qed simp

section \<open>Replaying what was saved\<close>

text \<open>An address no entry of the tables occupies keeps its value during a scan.\<close>

definition outside_slots :: "gmem \<Rightarrow> u64 \<Rightarrow> bool" where
  "outside_slots m x \<longleftrightarrow> list_all (\<lambda>v. \<not> in_run x (fst v) 8) (leaf_slots m)"

lemma clear_flags_other: "full \<or> \<not> in_run x a 8 \<Longrightarrow> clear_flags full m a x = m x"
  by (auto simp: clear_flags_def store64_outside)

text \<open>
  \<open>holds m x r\<close>: if the record covers the address it has the value of the memory there.
\<close>

definition holds :: "gmem \<Rightarrow> u64 \<Rightarrow> bytes \<times> bytes \<Rightarrow> bool" where
  "holds m x r \<longleftrightarrow> (in_record x r \<longrightarrow> snd r ! unat (x - determine_dest_offset (dec64 (fst r))) = m x)"

lemma store_record_at:
  "store_record r m x = (if in_record x r then snd r ! unat (x - determine_dest_offset (dec64 (fst r))) else m x)"
  by (cases r) (simp add: store_record_def in_record_def store_bytes_def in_run_def Let_def)

lemma replay_at:
  "list_all (holds m x) rs \<Longrightarrow> fold store_record rs m0 x = (if list_ex (in_record x) rs then m x else m0 x)"
  by (induction rs arbitrary: m0) (auto simp: store_record_at holds_def)

lemma load_bytes_at: "in_run x a n \<Longrightarrow> load_bytes m a n ! unat (x - a) = m x"
  by (simp add: in_run_def load_bytes_nth)

text \<open>The visit of one slot, seen from one address.\<close>

lemma visit_holds:
  assumes "slot_ok m (a, big)" and "full \<or> \<not> in_run x a 8" and "visit full flag note_page (a, big) (m, rs) = (m', rs')"
  shows "m' x = m x" and "wanted flag big (load64 m a) \<Longrightarrow> \<exists>r. rs' = rs @ [r] \<and> holds m x r \<and>
      (in_record x r \<longleftrightarrow> in_run x (frame big (load64 m a)) (frame_size big))"
    and "\<not> wanted flag big (load64 m a) \<Longrightarrow> rs' = rs"
proof -
  show "m' x = m x"
    using assms(2,3) by (auto simp: visit_note clear_flags_other split: if_splits)
  show "\<not> wanted flag big (load64 m a) \<Longrightarrow> rs' = rs"
    using assms(3) by (auto simp: visit_note)
  assume w: "wanted flag big (load64 m a)"
  let ?m = "clear_flags full m a"
  let ?r = "(enc64 (saved_entry big (load64 ?m a)), load_bytes ?m (frame big (load64 m a)) (frame_size big))"
  have "slot_ok ?m (a, big)"
    using assms(1) by (rule slot_ok_clear) (use assms(1) in \<open>simp add: slot_ok_def\<close>)
  then have d: "determine_dest_offset (saved_entry big (load64 ?m a)) = frame big (load64 ?m a)"
    by (intro saved_entry_dest [THEN conjunct1]) (auto simp: slot_ok_def)
  have "frame big (load64 ?m a) = frame big (load64 m a)"
    by (auto simp: clear_flags_def frame_flags)
  with d have "determine_dest_offset (dec64 (fst ?r)) = frame big (load64 m a)"
    by (simp add: c64.dec_enc)
  then have "holds m x ?r \<and> (in_record x ?r \<longleftrightarrow> in_run x (frame big (load64 m a)) (frame_size big))"
    using clear_flags_other [OF assms(2)] by (auto simp: holds_def in_record_def load_bytes_at)
  moreover have "rs' = rs @ [?r]"
    using assms(3) w by (auto simp: visit_note)
  ultimately show "\<exists>r. rs' = rs @ [r] \<and> holds m x r \<and> (in_record x r \<longleftrightarrow> in_run x (frame big (load64 m a)) (frame_size big))"
    by blast
qed

text \<open>
  The pages a scan saves: all wanted entries of the tables, and when flags are cleared each entry the first time
  it is visited (an entry is visited again where tables are reachable twice, as with a recursive mapping).
\<close>

definition saves :: "bool \<Rightarrow> u64 \<Rightarrow> (u64 \<times> bool) list \<Rightarrow> gmem \<Rightarrow> u64 \<Rightarrow> bool" where
  "saves full flag vs m x \<longleftrightarrow> (\<exists>a big. (if full then (a, big) \<in> set vs else map_of vs a = Some big) \<and>
     wanted flag big (load64 m a) \<and> in_run x (frame big (load64 m a)) (frame_size big))"

lemma two_flags:
  assumes "\<And>n. bit (f::u64) n = (n = k)" and "\<And>n. bit (g::u64) n = (n = l)"
  shows "(w AND (f OR g) = f OR g) = (bit w k \<and> bit w l)"
proof
  assume h: "w AND (f OR g) = f OR g"
  have "bit (w AND (f OR g)) k" "bit (w AND (f OR g)) l"
    unfolding h by (simp_all add: bit_or_iff assms)
  then show "bit w k \<and> bit w l" by (simp add: bit_and_iff)
next
  assume "bit w k \<and> bit w l"
  then show "w AND (f OR g) = f OR g" by (intro bit_eqI) (auto simp: bit_and_iff bit_or_iff assms)
qed

lemma scan_flag_bit: "bit (scan_flag full no) n = (n = (if \<not> full \<and> no > 0 then 6 else 5))"
  by (simp add: scan_flag_def bit_PG)

lemma wanted_bit: "wanted (scan_flag full no) big e \<longleftrightarrow> (\<not> big \<longrightarrow> bit e 0) \<and> bit e (if \<not> full \<and> no > 0 then 6 else 5)"
  unfolding wanted_def using two_flags [OF bit_PG(1) scan_flag_bit] flag_set [OF scan_flag_bit] by auto

lemma clear_flags_wanted: "\<not> full \<Longrightarrow> \<not> wanted (scan_flag full no) big (load64 (clear_flags full m a) a)"
  by (auto simp: clear_flags_def wanted_bit bit_simps bit_PG)

lemma clear_flags_entry: "aligned8 a \<Longrightarrow> aligned8 b \<Longrightarrow> a \<noteq> b \<Longrightarrow> load64 (clear_flags full m a) b = load64 m b"
  by (simp add: clear_flags_def load64_store64_other aligned8_apart)

lemma saves_Cons:
  assumes "list_all (slot_ok m) ((a, big) # vs)" and "visit full (scan_flag full no) note_page (a, big) (m, rs) = (m1, rs1)"
  shows "saves full (scan_flag full no) ((a, big) # vs) m x \<longleftrightarrow>
    wanted (scan_flag full no) big (load64 m a) \<and> in_run x (frame big (load64 m a)) (frame_size big) \<or>
    saves full (scan_flag full no) vs m1 x"
proof (cases full)
  case True
  then have "m1 = m"
    using assms(2) by (auto simp: visit_note clear_flags_def split: if_splits)
  with True show ?thesis by (auto simp: saves_def)
next
  case False
  let ?w = "wanted (scan_flag full no)"
  have other: "load64 m1 b = load64 m b" if "map_of vs b = Some big'" "b \<noteq> a" for b big'
  proof -
    have "slot_ok m (b, big')" "slot_ok m (a, big)"
      using assms(1) that(1) by (auto simp: list_all_iff dest: map_of_SomeD)
    with that(2) show ?thesis
      using assms(2) clear_flags_entry [of a b full m] by (auto simp: visit_note slot_ok_def split: if_splits)
  qed
  have again: "\<not> ?w big' (load64 m1 a)" if "map_of vs a = Some big'" for big'
  proof (cases "?w big (load64 m a)")
    case True
    then have "m1 = clear_flags full m a"
      using assms(2) by (auto simp: visit_note)
    with False show ?thesis by (simp add: clear_flags_wanted)
  next
    case no: False
    then have "m1 = m"
      using assms(2) by (auto simp: visit_note)
    moreover have "slot_ok m (a, big')" "slot_ok m (a, big)"
      using assms(1) that(1) by (auto simp: list_all_iff dest: map_of_SomeD)
    ultimately show ?thesis
      using no by (auto simp: wanted_bit slot_ok_def)
  qed
  show ?thesis
    using False other again by (auto simp: saves_def split: if_splits) metis+
qed

lemma records_replay:
  assumes "list_all (slot_ok m) vs" and "full \<or> list_all (\<lambda>v. \<not> in_run x (fst v) 8) vs"
    and "fold (visit full (scan_flag full no) note_page) vs (m, rs) = (m', rs')" and "list_all (holds m x) rs"
  shows "list_all (holds m x) rs' \<and> m' x = m x \<and>
    (list_ex (in_record x) rs' \<longleftrightarrow> list_ex (in_record x) rs \<or> saves full (scan_flag full no) vs m x)"
  using assms
proof (induction vs arbitrary: m rs)
  case Nil
  then show ?case by (auto simp: saves_def)
next
  case (Cons v vs)
  obtain a big where v: "v = (a, big)" by fastforce
  obtain m1 rs1 where s: "visit full (scan_flag full no) note_page (a, big) (m, rs) = (m1, rs1)" by fastforce
  have ok: "slot_ok m (a, big)" "full \<or> \<not> in_run x a 8"
    using Cons.prems(1,2) v by auto
  note h = visit_holds [OF ok s]
  have hx: "holds m1 x = holds m x"
    by (rule ext) (simp add: holds_def h(1))
  have "list_all (slot_ok m1) vs"
    using Cons.prems(1) s slot_ok_clear [of m _ a full] ok(1)
    by (auto simp: v visit_note list_all_iff slot_ok_def split: if_splits)
  moreover have "list_all (holds m1 x) rs1"
    using Cons.prems(4) h(2,3) unfolding hx by (cases "wanted (scan_flag full no) big (load64 m a)") auto
  moreover have "fold (visit full (scan_flag full no) note_page) vs (m1, rs1) = (m', rs')"
    using Cons.prems(3) s v by simp
  moreover have "full \<or> list_all (\<lambda>v. \<not> in_run x (fst v) 8) vs"
    using Cons.prems(2) by auto
  ultimately have IH: "list_all (holds m1 x) rs' \<and> m' x = m1 x \<and>
      (list_ex (in_record x) rs' \<longleftrightarrow> list_ex (in_record x) rs1 \<or> saves full (scan_flag full no) vs m1 x)"
    using Cons.IH by blast
  have "list_ex (in_record x) rs1 \<longleftrightarrow> list_ex (in_record x) rs \<or>
      wanted (scan_flag full no) big (load64 m a) \<and> in_run x (frame big (load64 m a)) (frame_size big)"
    using h(2,3) by (cases "wanted (scan_flag full no) big (load64 m a)") auto
  moreover have "saves full (scan_flag full no) (v # vs) m x \<longleftrightarrow>
      wanted (scan_flag full no) big (load64 m a) \<and> in_run x (frame big (load64 m a)) (frame_size big) \<or>
      saves full (scan_flag full no) vs m1 x"
    using saves_Cons [OF _ s] Cons.prems(1) v by simp
  ultimately show ?case
    using IH h(1) hx by auto
qed

text \<open>One checkpoint file replayed, at one address.\<close>

definition checkpointed :: "bool \<Rightarrow> u32 \<Rightarrow> gmem \<Rightarrow> u64 \<Rightarrow> bool" where
  "checkpointed full no m = saves full (scan_flag full no) (leaf_slots m) m"

lemma chk_file_replay:
  assumes "write_chk_mem ok full no clock m = (m', Some f)" and "length clock = sizeof_clock"
  shows "\<exists>rs. f = clock @ file_of rs \<and> load_pages (file_of rs) m0 = Some (fold store_record rs m0) \<and>
    (\<forall>x. full \<or> outside_slots m x \<longrightarrow> fold store_record rs m0 x = (if checkpointed full no m x then m x else m0 x))"
proof -
  from write_chk_mem_records [OF assms(1)] obtain rs where
    rs: "fold (visit full (scan_flag full no) note_page) (leaf_slots m) (m, []) = (m', rs)" "f = clock @ file_of rs"
    by (auto simp: records_def)
  have "list_all record_ok rs"
    using note_ok [OF leaf_slots_ok, of "[]" full "scan_flag full no" m] rs(1) by simp
  then have "load_pages (file_of rs) m0 = Some (fold store_record rs m0)"
    by (rule load_pages_file)
  moreover have "fold store_record rs m0 x = (if checkpointed full no m x then m x else m0 x)"
    if "full \<or> outside_slots m x" for x
    using records_replay [OF leaf_slots_ok _ rs(1), of x] that replay_at [of m x rs m0]
    by (simp add: outside_slots_def checkpointed_def)
  ultimately show ?thesis using rs(2) by blast
qed

section \<open>Pages of the guest\<close>

lemma pt_index_nat: obtains j where "j < 512" "pt_index va l = word_of_nat j"
  using unat_pt_index [of va l] by (metis mod_less_divisor word_unat_inverse zero_less_numeral)

lemma leaf_step:
  assumes "leaf_of m va t l = Some (e, k)" and "k < l"
  obtains j where "j < 512" "present (entry_at m t j)" "l < 3 \<Longrightarrow> \<not> bit (entry_at m t j) 7"
    "leaf_of m va (entry_at m t j AND PAGE_MASK) (l - 1) = Some (e, k)"
proof -
  obtain j where j: "j < 512" "pt_index va l = word_of_nat j" by (rule pt_index_nat)
  with assms that [of j] show ?thesis
    by (auto simp: leaf_of.simps [of _ _ _ l] Let_def entry_at_def present_bit and_flag simp flip: and_flag(1) split: if_splits)
qed

lemma leaf_stop:
  assumes "leaf_of m va t k = Some (e, k)"
  obtains j where "j < 512" "present (entry_at m t j)" "0 < k \<Longrightarrow> bit (entry_at m t j) 7" "e = entry_at m t j"
proof -
  obtain j where j: "j < 512" "pt_index va k = word_of_nat j" by (rule pt_index_nat)
  have "entry_at m t j AND PG_PRESENT \<noteq> 0" "k = 0 \<or> bit (entry_at m t j) 7" "e = entry_at m t j"
    using assms j leaf_level [of m va "entry_at m t j AND PAGE_MASK" "k - 1" e k]
    by (auto simp: leaf_of.simps [of _ _ _ k] Let_def entry_at_def and_flag split: if_splits)
  with j that [of j] show ?thesis by (auto simp: present_bit and_flag)
qed

lemma leaf_in_slots:
  assumes "leaf m va = Some (e, k)" and "k < 2"
  shows "\<exists>a. (a, k = 1) \<in> set (leaf_slots m) \<and> load64 m a = e"
proof -
  obtain i where i: "i < 512" "present (entry_at m BOOT_PML4 i)"
    "leaf_of m va (entry_at m BOOT_PML4 i AND PAGE_MASK) 2 = Some (e, k)"
    using assms leaf_step [of m va BOOT_PML4 3 e k] by (auto simp: leaf_def)
  let ?pdpt = "entry_at m BOOT_PML4 i AND PAGE_MASK"
  obtain j where j: "j < 512" "present (entry_at m ?pdpt j)" "leaf_of m va (entry_at m ?pdpt j AND PAGE_MASK) 1 = Some (e, k)"
    using assms(2) i(3) leaf_step [of m va ?pdpt 2 e k] by auto
  let ?pgd = "entry_at m ?pdpt j AND PAGE_MASK"
  have inner: "set (pgd_slots m ?pgd l) \<subseteq> set (leaf_slots m)" if "l < 512" for l
  proof -
    have "set (pgd_slots m ?pgd l) \<subseteq> set (pdpt_slots m ?pdpt j)"
      using that j(2) by (auto simp: pdpt_slots_def Let_def PAGE_MAP_BITS_def)
    also have "\<dots> \<subseteq> set (pml4_slots m BOOT_PML4 i)"
      using j(1) i(2) by (auto simp: pml4_slots_def Let_def PAGE_MAP_BITS_def)
    also have "\<dots> \<subseteq> set (leaf_slots m)"
      using i(1) by (auto simp: leaf_slots_def PAGE_MAP_BITS_def)
    finally show ?thesis .
  qed
  show ?thesis
  proof (cases "k = 1")
    case True
    then obtain l where l: "l < 512" "present (entry_at m ?pgd l)" "bit (entry_at m ?pgd l) 7" "e = entry_at m ?pgd l"
      using j(3) leaf_stop [of m va ?pgd 1 e] by auto
    then have "(?pgd + 8 * word_of_nat l, True) \<in> set (pgd_slots m ?pgd l)"
      by (simp add: pgd_slots_def pse_bit)
    with inner [OF l(1)] l(4) True show ?thesis
      by (auto simp: entry_at_def)
  next
    case False
    then have k: "k = 0" using assms(2) by simp
    then obtain l where l: "l < 512" "present (entry_at m ?pgd l)" "\<not> bit (entry_at m ?pgd l) 7"
      "leaf_of m va (entry_at m ?pgd l AND PAGE_MASK) 0 = Some (e, 0)"
      using j(3) leaf_step [of m va ?pgd 1 e 0] by auto
    let ?pgt = "entry_at m ?pgd l AND PAGE_MASK"
    obtain n where n: "n < 512" "e = entry_at m ?pgt n"
      using l(4) leaf_stop [of m va ?pgt 0 e] by auto
    have "(?pgt + 8 * word_of_nat n, False) \<in> set (pgd_slots m ?pgd l)"
      using l n by (auto simp: pgd_slots_def pse_bit Let_def PAGE_MAP_BITS_def)
    with inner [OF l(1)] n(2) k show ?thesis
      by (auto simp: entry_at_def)
  qed
qed

lemma leaf_checkpointed:
  assumes "leaf m va = Some (e, k)" and "k < 2" and "\<not> bit va 63" and "virt_to_phys m va = (pa, pe)" and "bit e 0" and "bit e 5"
  shows "checkpointed True no m pa"
proof -
  obtain a where a: "(a, k = 1) \<in> set (leaf_slots m)" "load64 m a = e"
    using leaf_in_slots [OF assms(1,2)] by blast
  have k: "k = 0 \<or> k = 1" using assms(2) by auto
  have "pa = (e AND level_mask k) + take_bit (12 + 9 * k) va"
    using leaf_translation [OF assms(1,3)] assms(4) by simp
  moreover have "e AND level_mask k = frame (k = 1) e" "2 ^ (12 + 9 * k) = frame_size (k = 1)"
    using k by (auto simp: frame_def frame_size_def PAGE_BITS_def PAGE_2M_BITS_def level_mask_val PAGE_MASK_val PAGE_2M_MASK_val)
  ultimately have "in_run pa (frame (k = 1) e) (frame_size (k = 1))"
    using page_rest(2) [of k va] k by (auto simp: in_run_def)
  moreover have "wanted (scan_flag True no) (k = 1) e"
    using assms(5,6) by (simp add: wanted_bit)
  ultimately show ?thesis
    unfolding checkpointed_def saves_def using a by auto
qed

lemma leaf_present: "leaf_of m va t l = Some (e, k) \<Longrightarrow> bit e 0"
  by (induction m va t l rule: leaf_of.induct)
    (subst (asm) leaf_of.simps, auto simp: Let_def and_flag simp flip: and_flag(1) split: if_splits)

lemma load_chk_loop_last:
  assumes "files no = Some (clock @ f)" and "length clock = sizeof_clock" and "load_pages f (l_mem ld) = Some mem"
  shows "load_chk_loop files cap no (unat no) ld =
    Loaded (ld\<lparr>l_clock := (if cap then Some (dec64 (take 8 clock)) else l_clock ld), l_mem := mem\<rparr>)"
  using assms by (simp add: load_chk_loop.simps [of _ _ _ "unat no"] load_chk_loop.simps [of _ _ _ "Suc (unat no)"] fread1_def Let_def)

lemma set_pointers_mem [simp]: "l_mem (set_pointers entry ld) = l_mem ld"
  by (simp add: set_pointers_def Let_def)

section \<open>Chains of checkpoints\<close>

text \<open>
  What the loop knows of one address before it loads checkpoint \<open>i\<close>: it has the value of the memory \<open>ms (i - 1)\<close> of
  the checkpoint before, or, before the first one, the first one covers it or finds it unchanged.
\<close>

definition chain_at :: "(nat \<Rightarrow> gmem) \<Rightarrow> u64 \<Rightarrow> nat \<Rightarrow> gmem \<Rightarrow> bool" where
  "chain_at ms x i m0 \<longleftrightarrow> (case i of 0 \<Rightarrow> checkpointed False 0 (ms 0) x \<or> ms 0 x = m0 x | Suc j \<Rightarrow> m0 x = ms j x)"

definition chain_files :: "(u32 \<Rightarrow> bytes option) \<Rightarrow> (nat \<Rightarrow> gmem) \<Rightarrow> nat \<Rightarrow> bool" where
  "chain_files files ms n \<longleftrightarrow> (\<forall>i\<le>n. \<exists>ok clock m' f. write_chk_mem ok False (word_of_nat i) clock (ms i) = (m', Some f) \<and>
     length clock = sizeof_clock \<and> files (word_of_nat i) = Some f)"

lemma chain_step:
  assumes "chain_at ms x i m0" and "outside_slots (ms i) x"
    and "\<forall>j. i = Suc j \<longrightarrow> ms (Suc j) x \<noteq> ms j x \<longrightarrow> checkpointed False (word_of_nat (Suc j)) (ms (Suc j)) x"
    and "\<And>x. outside_slots (ms i) x \<Longrightarrow> m1 x = (if checkpointed False (word_of_nat i) (ms i) x then ms i x else m0 x)"
  shows "chain_at ms x (Suc i) m1"
  using assms(1,3) assms(4) [OF assms(2)] by (cases i) (auto simp: chain_at_def)

text \<open>A byte that is followed: outside the page tables, each change leaves a dirty page.\<close>

definition tracked :: "(nat \<Rightarrow> gmem) \<Rightarrow> nat \<Rightarrow> u64 \<Rightarrow> bool" where
  "tracked ms n x \<longleftrightarrow> (\<forall>i\<le>n. outside_slots (ms i) x) \<and>
     (\<forall>j<n. ms (Suc j) x \<noteq> ms j x \<longrightarrow> checkpointed False (word_of_nat (Suc j)) (ms (Suc j)) x)"

lemma load_chk_loop_chain:
  assumes "chain_files files ms n" and "n < 2 ^ 32" and "i \<le> Suc n"
  shows "\<exists>ld'. load_chk_loop files cap (word_of_nat n) i ld = Loaded ld' \<and>
    (\<forall>x. tracked ms n x \<and> chain_at ms x i (l_mem ld) \<longrightarrow> chain_at ms x (Suc n) (l_mem ld'))"
  using assms(3)
proof (induction "Suc n - i" arbitrary: i ld)
  case 0
  then show ?case
    using assms(2) by (simp add: load_chk_loop.simps [of _ _ _ i] unat_of_nat)
next
  case (Suc d)
  then have i: "i \<le> n" by simp
  obtain ok clock m' f where f: "write_chk_mem ok False (word_of_nat i) clock (ms i) = (m', Some f)" "length clock = sizeof_clock"
    "files (word_of_nat i) = Some f"
    using assms(1) i by (auto simp: chain_files_def)
  obtain rs where rs: "f = clock @ file_of rs" "load_pages (file_of rs) (l_mem ld) = Some (fold store_record rs (l_mem ld))"
    "\<And>x. outside_slots (ms i) x \<Longrightarrow> fold store_record rs (l_mem ld) x =
       (if checkpointed False (word_of_nat i) (ms i) x then ms i x else l_mem ld x)"
    using chk_file_replay [OF f(1,2), of "l_mem ld"] by blast
  let ?ld = "(if cap \<and> i = n then ld\<lparr>l_clock := Some (dec64 (take 8 clock))\<rparr> else ld)\<lparr>l_mem := fold store_record rs (l_mem ld)\<rparr>"
  have l: "load_chk_loop files cap (word_of_nat n) i ld = load_chk_loop files cap (word_of_nat n) (Suc i) ?ld"
    using i assms(2) f(2,3) rs(1,2)
    by (subst load_chk_loop.simps) (simp add: unat_of_nat fread1_def Let_def)
  have c: "chain_at ms x (Suc i) (l_mem ?ld)" if "tracked ms n x" and "chain_at ms x i (l_mem ld)" for x
    using chain_step [OF that(2) _ _ rs(3)] that(1) i by (simp add: tracked_def)
  have d: "d = Suc n - Suc i" using Suc.hyps(2) i by simp
  obtain ld' where "load_chk_loop files cap (word_of_nat n) (Suc i) ?ld = Loaded ld'"
    and "\<forall>x. tracked ms n x \<and> chain_at ms x (Suc i) (l_mem ?ld) \<longrightarrow> chain_at ms x (Suc n) (l_mem ld')"
    using Suc.hyps(1) [OF d, of ?ld] i by auto
  with c show ?case
    unfolding l by blast
qed

section \<open>A small guest\<close>

text \<open>
  Four levels of tables with one entry each, mapping the page at \<open>0x20000\<close>, which holds \<open>v\<close> at \<open>0x20100\<close>.  All entries have the
  accessed and the dirty flag.
\<close>

definition quad :: "u64 \<Rightarrow> gmem" where
  "quad v = store64 (store64 (store64 (store64 (store64 (\<lambda>_. 0) 0x10000 0x11063) 0x11000 0x12063) 0x12000 0x13063) 0x13000 0x20063) 0x20100 v"

lemma load64_store64_aligned: "aligned8 a \<Longrightarrow> aligned8 b \<Longrightarrow> load64 (store64 m b w) a = (if a = b then w else load64 m a)"
  using aligned8_apart [of a b] by (simp add: load64_store64_other)

lemma quad_load: "aligned8 a \<Longrightarrow> load64 (quad v) a =
   (if a = 0x20100 then v else if a = 0x13000 then 0x20063 else if a = 0x12000 then 0x13063
    else if a = 0x11000 then 0x12063 else if a = 0x10000 then 0x11063 else 0)"
proof -
  assume a: "aligned8 a"
  have "aligned8 0x20100" "aligned8 0x13000" "aligned8 0x12000" "aligned8 0x11000" "aligned8 0x10000"
    by (simp_all add: aligned8_def)
  with a show ?thesis by (simp add: quad_def load64_store64_aligned)
qed

lemma quad_entry:
  assumes "t \<in> {0x10000, 0x11000, 0x12000, 0x13000}" and "i < 512"
  shows "entry_at (quad v) t i = (if i = 0 then load64 (quad v) t else 0)"
proof -
  have u: "unat (t + 8 * word_of_nat i) = unat t + 8 * i"
    using assms by (intro unat_array_slot [of _ 512]) auto
  have ne: "t + 8 * word_of_nat i \<noteq> w" if "unat w \<noteq> unat t + 8 * i" for w
    using that u by auto
  have "aligned8 (t + 8 * word_of_nat i)"
    using assms(1) by (intro aligned8_slot) auto
  from quad_load [OF this, of v] show ?thesis
    using assms ne [of "0x20100"] ne [of "0x13000"] ne [of "0x12000"] ne [of "0x11000"] ne [of "0x10000"]
    by (cases "i = 0") (auto simp: entry_at_def)
qed

lemma concat_first: "0 < n \<Longrightarrow> (\<And>i. 0 < i \<Longrightarrow> i < n \<Longrightarrow> h i = []) \<Longrightarrow> concat (map h [0..<n]) = h 0"
  using upt_conv_Cons [of 0 n] by simp

lemma quad_tables:
  "load64 (quad v) 0x10000 = 0x11063" "load64 (quad v) 0x11000 = 0x12063" "load64 (quad v) 0x12000 = 0x13063" "load64 (quad v) 0x13000 = 0x20063"
  by (simp_all add: quad_load aligned8_def)

lemma quad_slots: "leaf_slots (quad v) = map (\<lambda>l. (0x13000 + 8 * word_of_nat l, False)) [0..<512]"
proof -
  have z: "\<not> present 0" by (simp add: present_bit)
  have "pgd_slots (quad v) 0x12000 0 = map (\<lambda>l. (0x13000 + 8 * word_of_nat l, False)) [0..<512]"
    by (simp add: pgd_slots_def quad_entry quad_tables present_def PG_val PAGE_MASK_val PAGE_MAP_BITS_def)
  moreover have "pgd_slots (quad v) 0x12000 i = []" if "0 < i" "i < 512" for i
    using that z by (simp add: pgd_slots_def quad_entry)
  ultimately have "pdpt_slots (quad v) 0x11000 0 = map (\<lambda>l. (0x13000 + 8 * word_of_nat l, False)) [0..<512]"
    using concat_first [of 512 "pgd_slots (quad v) 0x12000"]
    by (simp add: pdpt_slots_def quad_entry quad_tables present_def PG_val PAGE_MASK_val PAGE_MAP_BITS_def)
  moreover have "pdpt_slots (quad v) 0x11000 i = []" if "0 < i" "i < 512" for i
    using that z by (simp add: pdpt_slots_def quad_entry)
  ultimately have "pml4_slots (quad v) 0x10000 0 = map (\<lambda>l. (0x13000 + 8 * word_of_nat l, False)) [0..<512]"
    using concat_first [of 512 "pdpt_slots (quad v) 0x11000"]
    by (simp add: pml4_slots_def quad_entry quad_tables present_def PG_val PAGE_MASK_val PAGE_MAP_BITS_def)
  moreover have "pml4_slots (quad v) 0x10000 i = []" if "0 < i" "i < 512" for i
    using that z by (simp add: pml4_slots_def quad_entry)
  ultimately show ?thesis
    using concat_first [of 512 "pml4_slots (quad v) 0x10000"]
    by (simp add: leaf_slots_def PAGE_MAP_BITS_def BOOT_PML4_def)
qed

lemma quad_outside: "outside_slots (quad v) 0x20100"
proof -
  have "\<not> in_run 0x20100 (0x13000 + 8 * word_of_nat l) 8" if "l < 512" for l
    using that unat_array_slot [of "0x13000" 512 l] by (simp add: in_run_nat)
  then show ?thesis
    by (simp add: outside_slots_def quad_slots list_all_iff)
qed

lemma quad_checkpointed: "checkpointed full no (quad v) 0x20100"
proof -
  have b: "bit (0x20063 :: u64) 0" "bit (0x20063 :: u64) 5" "bit (0x20063 :: u64) 6"
    by (simp_all add: bit_numeral_rec)
  have m: "map_of (leaf_slots (quad v)) 0x13000 = Some False" "(0x13000, False) \<in> set (leaf_slots (quad v))"
    unfolding quad_slots using upt_conv_Cons [of 0 512] by simp_all
  have "wanted (scan_flag full no) False 0x20063"
    using b by (simp add: wanted_bit)
  moreover have "in_run 0x20100 (frame False 0x20063) (frame_size False)"
    by (simp add: in_run_def frame_def frame_size_def PAGE_MASK_val PAGE_BITS_def)
  ultimately show ?thesis
    unfolding checkpointed_def saves_def by (intro exI [of _ "0x13000"] exI [of _ False]) (simp add: m quad_tables(4))
qed

lemma quad_byte: "quad v 0x20100 = word_of_nat (unat v mod 256)"
proof -
  have "enc64 v ! 0 = word_of_nat (unat v mod 256)"
    using le_bytes.simps(2) [of 7 "unat v"] by (simp add: enc64_def)
  then show ?thesis
    by (simp add: quad_def store64_def [of _ "0x20100"] store_bytes_def [of _ "0x20100"] c64.length_enc)
qed

lemma write_never_fails: "\<exists>m' f. write_chk_mem (\<lambda>_ _. True) full no clock m = (m', Some f)"
proof -
  have "\<exists>m' f'. fold (visit full flag (write_mem_page_to_chk_file (\<lambda>_ _. True))) vs (m, Some f) = (m', Some f')" for flag vs m f
  proof (induction vs arbitrary: m f)
    case (Cons v vs)
    have "\<exists>m' f'. visit full flag (write_mem_page_to_chk_file (\<lambda>_ _. True)) v (m, Some f) = (m', Some f')"
      by (auto simp: visit_def split_beta Let_def write_mem_page_to_chk_file_def write_chk_file_def)
    with Cons show ?case by force
  qed simp
  then show ?thesis
    by (simp add: write_chk_mem_def determine_dirty_pages_def scan_visits write_chk_file_def)
qed

lemma chain_restores:
  assumes "chain_files files ms n" and "n < 2 ^ 32"
  shows "\<exists>ld'. load_checkpoint files cap False (word_of_nat n) elf_entry ld = Loaded ld' \<and>
    (\<forall>x. tracked ms n x \<and> (checkpointed False 0 (ms 0) x \<or> ms 0 x = l_mem ld x) \<longrightarrow> l_mem ld' x = ms n x)"
proof -
  have m: "l_mem (set_pointers elf_entry ld) = l_mem ld"
    by (simp add: set_pointers_def Let_def)
  from load_chk_loop_chain [OF assms, of 0 cap "set_pointers elf_entry ld"] show ?thesis
    by (auto simp: load_checkpoint_def chain_at_def m)
qed

section \<open>Properties\<close>






end
