(* ===== verification/Boot.thy ===== *)
theory Boot
  imports Host_Utils Checkpoint Cpu_X86
begin

text \<open>
  Starting a guest on x86-64, \<open>src/uhyve-x86_64.c\<close>: \<open>init_kvm_arch\<close> allocates the guest's memory and registers it with KVM,
  \<open>load_kernel\<close> reads the ELF file of the guest into that memory and fills the boot header.

  A KVM or C library call that only configures the host is recorded in the result.  Buffers the code does not
  initialise (the ELF headers, the IP addresses) have the contents of a parameter.
\<close>

unbundle bit_operations_syntax

section \<open>The virtual machine\<close>

record memory_region =
  mr_slot :: u32
  mr_phys :: u64
  mr_size :: u64
  mr_host :: u64

record kvm_arch =
  ka_guest_size :: u64
  ka_guest_mem :: u64
  ka_tss :: u64
  ka_identity :: "u64 option"
  ka_protected :: "(u64 \<times> u64) option"
  ka_mergeable :: bool
  ka_hugepage :: bool
  ka_regions :: "memory_region list"
  ka_cap_tsc_deadline :: bool
  ka_cap_irqchip :: bool
  ka_cap_adjust_clock_stable :: bool
  ka_cap_vapic :: bool

text \<open>The answers of the host: extensions of KVM, the result of \<open>mmap\<close>, the environment variables.\<close>

record host_env =
  he_sync_mmu :: bool
  he_mmap :: "u64 \<Rightarrow> u64 option"
  he_mergeable :: "bytes option"
  he_hugepage :: "bytes option"
  he_tsc_deadline :: int
  he_irqchip :: int
  he_adjust_clock :: int
  he_irqfd :: int
  he_vapic :: int

definition KVM_CLOCK_TSC_STABLE :: int where "KVM_CLOCK_TSC_STABLE = 2"

definition alloc_size :: "u64 \<Rightarrow> u64" where
  "alloc_size guest_size = (if guest_size < KVM_32BIT_GAP_START then guest_size else guest_size + KVM_32BIT_GAP_SIZE)"

definition user_regions :: "u64 \<Rightarrow> u64 \<Rightarrow> memory_region list" where
  "user_regions guest_size guest_mem =
    (if guest_size \<le> KVM_32BIT_GAP_START
     then [\<lparr>mr_slot = 0, mr_phys = 0, mr_size = guest_size, mr_host = guest_mem\<rparr>]
     else [\<lparr>mr_slot = 0, mr_phys = 0, mr_size = KVM_32BIT_GAP_START, mr_host = guest_mem\<rparr>,
           \<lparr>mr_slot = 1, mr_phys = KVM_32BIT_GAP_START + KVM_32BIT_GAP_SIZE,
            mr_size = guest_size - KVM_32BIT_GAP_SIZE - KVM_32BIT_GAP_START,
            mr_host = guest_mem + KVM_32BIT_GAP_START + KVM_32BIT_GAP_SIZE\<rparr>])"

text \<open>\<open>None\<close>: \<open>mmap\<close> fails or KVM has no irqfd, and the program ends.\<close>

definition init_kvm_arch :: "host_env \<Rightarrow> u64 \<Rightarrow> kvm_arch option" where
  "init_kvm_arch he guest_size =
    (let identity_base = (if he_sync_mmu he then 0xfeffc000 else 0xfffbc000);
         size = alloc_size guest_size
     in case he_mmap he size of
          None \<Rightarrow> None
        | Some guest_mem \<Rightarrow>
            if \<not> 0 < he_irqfd he then None
            else Some \<lparr>ka_guest_size = size, ka_guest_mem = guest_mem, ka_tss = identity_base + 0x1000,
              ka_identity = (if he_sync_mmu he then Some identity_base else None),
              ka_protected = (if guest_size < KVM_32BIT_GAP_START then None
                              else Some (guest_mem + KVM_32BIT_GAP_START, KVM_32BIT_GAP_SIZE)),
              ka_mergeable = (case he_mergeable he of Some v \<Rightarrow> v \<noteq> [0x30] | None \<Rightarrow> False),
              ka_hugepage = (case he_hugepage he of Some v \<Rightarrow> v \<noteq> [0x30] | None \<Rightarrow> True),
              ka_regions = user_regions size guest_mem,
              ka_cap_tsc_deadline = (0 < he_tsc_deadline he), ka_cap_irqchip = (0 < he_irqchip he),
              ka_cap_adjust_clock_stable = (he_adjust_clock he = KVM_CLOCK_TSC_STABLE),
              ka_cap_vapic = (0 < he_vapic he)\<rparr>)"

section \<open>The ELF file\<close>

definition e_ident :: "gmem \<Rightarrow> u64 \<Rightarrow> u8" where "e_ident hdr i = hdr i"
definition e_type :: "gmem \<Rightarrow> u16" where "e_type hdr = load16 hdr 16"
definition e_machine :: "gmem \<Rightarrow> u16" where "e_machine hdr = load16 hdr 18"
definition e_entry :: "gmem \<Rightarrow> u64" where "e_entry hdr = load64 hdr 24"
definition e_phoff :: "gmem \<Rightarrow> u64" where "e_phoff hdr = load64 hdr 32"
definition e_phentsize :: "gmem \<Rightarrow> u16" where "e_phentsize hdr = load16 hdr 54"
definition e_phnum :: "gmem \<Rightarrow> u16" where "e_phnum hdr = load16 hdr 56"
definition sizeof_Ehdr :: nat where "sizeof_Ehdr = 64"
definition sizeof_Phdr :: u64 where "sizeof_Phdr = 56"

record phdr =
  ph_type :: u32
  ph_paddr :: u64
  ph_offset :: u64
  ph_filesz :: u64
  ph_memsz :: u64

definition phdr_at :: "gmem \<Rightarrow> nat \<Rightarrow> phdr" where
  "phdr_at buf i = (let a = sizeof_Phdr * word_of_nat i
     in \<lparr>ph_type = load32 buf a, ph_paddr = load64 buf (a + 24), ph_offset = load64 buf (a + 8),
         ph_filesz = load64 buf (a + 32), ph_memsz = load64 buf (a + 40)\<rparr>)"

definition PT_LOAD :: u32 where "PT_LOAD = 1"
definition PT_TLS :: u32 where "PT_TLS = 7"
definition HERMIT_ELFOSABI :: u8 where "HERMIT_ELFOSABI = 0xFF"

definition elf_ok :: "u16 \<Rightarrow> gmem \<Rightarrow> bool" where
  "elf_ok machine hdr \<longleftrightarrow> \<not> (e_ident hdr 0 \<noteq> 0x7f \<or> e_ident hdr 1 \<noteq> 0x45 \<or> e_ident hdr 2 \<noteq> 0x4c \<or> e_ident hdr 3 \<noteq> 0x46 \<or>
     e_ident hdr 4 \<noteq> 2 \<or> e_ident hdr 7 \<noteq> HERMIT_ELFOSABI \<or> e_type hdr \<noteq> 2 \<or> e_machine hdr \<noteq> machine)"

definition EM_X86_64 :: u16 where "EM_X86_64 = 62"
definition KERNEL_STACK_SIZE :: u64 where "KERNEL_STACK_SIZE = 32768"

section \<open>The boot header\<close>

text \<open>The offsets of \<open>kernel_header_t\<close>, whose size is 152.\<close>

definition KH_SIZE :: nat where "KH_SIZE = 152"
definition KH_VERSION :: u64 where "KH_VERSION = 4"
definition KH_BASE :: u64 where "KH_BASE = 8"
definition KH_LIMIT :: u64 where "KH_LIMIT = 16"
definition KH_IMAGE_SIZE :: u64 where "KH_IMAGE_SIZE = 24"
definition KH_TLS_START :: u64 where "KH_TLS_START = 32"
definition KH_TLS_FILESZ :: u64 where "KH_TLS_FILESZ = 40"
definition KH_TLS_MEMSZ :: u64 where "KH_TLS_MEMSZ = 48"
definition KH_STACK :: u64 where "KH_STACK = 56"
definition KH_HOST_LOGICAL :: u64 where "KH_HOST_LOGICAL = 72"
definition KH_BOOT_GTOD :: u64 where "KH_BOOT_GTOD = 80"
definition KH_CPU_FREQ :: u64 where "KH_CPU_FREQ = 112"
definition KH_POSSIBLE_CPUS :: u64 where "KH_POSSIBLE_CPUS = 124"
definition KH_UARTPORT :: u64 where "KH_UARTPORT = 132"
definition KH_SINGLE_KERNEL :: u64 where "KH_SINGLE_KERNEL = 134"
definition KH_UHYVE :: u64 where "KH_UHYVE = 135"
definition KH_HCIP :: u64 where "KH_HCIP = 136"
definition KH_HCGATEWAY :: u64 where "KH_HCGATEWAY = 140"
definition KH_HCMASK :: u64 where "KH_HCMASK = 144"

lemmas kh_offsets [layout_defs] = KH_VERSION_def KH_BASE_def KH_LIMIT_def KH_IMAGE_SIZE_def KH_TLS_START_def KH_TLS_FILESZ_def
  KH_TLS_MEMSZ_def KH_STACK_def KH_HOST_LOGICAL_def KH_BOOT_GTOD_def KH_CPU_FREQ_def KH_POSSIBLE_CPUS_def KH_UARTPORT_def
  KH_SINGLE_KERNEL_def KH_UHYVE_def KH_HCIP_def KH_HCGATEWAY_def KH_HCMASK_def KH_CURRENT_BOOT_ID_def

definition init_kheader :: "gmem \<Rightarrow> gmem" where
  "init_kheader mem =
    (let kh = BOOT_INFO_ADDR; mem = store_bytes mem kh (replicate KH_SIZE 0)
     in store_bytes (store32 (store32 mem kh 0xC0DECAFE) (kh + KH_VERSION) 1) (kh + KH_SINGLE_KERNEL) [1])"

text \<open>
  \<open>sscanf(str, "%u.%u.%u.%u", ...)\<close> into the array \<open>ip\<close>: what is not converted keeps its old value.
\<close>

function scan_ip :: "nat \<Rightarrow> bytes \<Rightarrow> u32 list \<Rightarrow> u32 list" where
  "scan_ip i s ip =
    (if 4 \<le> i then ip
     else case scan_dec s of
            None \<Rightarrow> ip
          | Some (v, s) \<Rightarrow>
              let ip = ip[i := ucast v]
              in case s of c # s \<Rightarrow> if c = 0x2e then scan_ip (i + 1) s ip else ip | [] \<Rightarrow> ip)"
  by pat_completeness auto
termination
  by (relation "measure (\<lambda>(i, s, ip). 4 - i)") auto

declare scan_ip.simps [simp del]

definition ip_bytes :: "bytes \<Rightarrow> u32 list \<Rightarrow> bytes" where
  "ip_bytes str junk = map ucast (scan_ip 0 str junk)"

record boot_env =
  be_guest_size :: u64
  be_guest_mem :: u64
  be_cpu_freq :: u32
  be_verbose :: bool
  be_ip :: "bytes option"
  be_gateway :: "bytes option"
  be_mask :: "bytes option"
  be_junk :: "u32 list"
  be_tv_sec :: u64

definition store_ip :: "boot_env \<Rightarrow> u64 \<Rightarrow> bytes option \<Rightarrow> gmem \<Rightarrow> gmem" where
  "store_ip be a str mem = (case str of Some s \<Rightarrow> store_bytes mem a (take 4 (ip_bytes s (be_junk be))) | None \<Rightarrow> mem)"

text \<open>The fields set with the first segment.\<close>

definition fill_kheader :: "boot_env \<Rightarrow> u64 \<Rightarrow> u64 \<Rightarrow> gmem \<Rightarrow> gmem" where
  "fill_kheader be kh paddr mem =
    (let mem = store64 mem (kh + KH_STACK) (paddr - KERNEL_STACK_SIZE);
         mem = store64 mem (kh + KH_BASE) paddr;
         mem = store64 mem (kh + KH_LIMIT) (be_guest_size be);
         mem = store32 mem (kh + KH_CPU_FREQ) (be_cpu_freq be);
         mem = store32 mem (kh + KH_POSSIBLE_CPUS) 1;
         mem = store32 mem (kh + KH_CURRENT_BOOT_ID) 0;
         mem = store_bytes mem (kh + KH_UHYVE) [1];
         mem = store16 mem (kh + KH_UARTPORT) (if be_verbose be then 0x800 else 0);
         mem = (if be_ip be = None then store_bytes mem (kh + KH_HCIP) [0xff, 0xff, 0xff, 0xff]
                else store_ip be (kh + KH_HCIP) (be_ip be) mem);
         mem = store_ip be (kh + KH_HCGATEWAY) (be_gateway be) mem;
         mem = store_ip be (kh + KH_HCMASK) (be_mask be) mem;
         mem = store64 mem (kh + KH_HOST_LOGICAL) (be_guest_mem be)
     in store64 mem (kh + KH_BOOT_GTOD) (be_tv_sec be * 1000000))"

section \<open>Loading\<close>

text \<open>
  \<open>load_kernel\<close> keeps the result of \<open>pread_in_full\<close> in an \<open>int\<close>: a count of 2 GiB or more can look like an error.
\<close>

definition ret_negative :: "bool \<Rightarrow> bytes \<Rightarrow> bool" where
  "ret_negative ok bs \<longleftrightarrow> \<not> ok \<or> sint (word_of_nat (length bs) :: u32) < 0"

text \<open>The boot header's pointer, \<open>kheader\<close>; it is set before the loop.\<close>

definition kheader :: "loader \<Rightarrow> u64" where
  "kheader ld = (case l_kheader ld of Some kh \<Rightarrow> kh | None \<Rightarrow> 0)"

text \<open>The TLS fields, set when a header has type \<open>PT_TLS\<close>.\<close>

definition set_tls :: "phdr \<Rightarrow> loader \<Rightarrow> loader" where
  "set_tls ph ld = (if ph_type ph = PT_TLS
     then ld\<lparr>l_mem := store64 (store64 (store64 (l_mem ld) (kheader ld + KH_TLS_START) (ph_paddr ph))
             (kheader ld + KH_TLS_FILESZ) (ph_filesz ph)) (kheader ld + KH_TLS_MEMSZ) (ph_memsz ph)\<rparr>
     else ld)"

text \<open>What follows the read: the log pointer, the header with the first segment, the size of the image.\<close>

definition note_segment :: "boot_env \<Rightarrow> phdr \<Rightarrow> loader \<times> u64 \<Rightarrow> loader \<times> u64" where
  "note_segment be ph = (\<lambda>(ld, pstart).
    let paddr = ph_paddr ph;
        ld = (if l_klog ld = None then ld\<lparr>l_klog := Some (paddr + 0x5000)\<rparr> else ld);
        (ld, pstart) = (if pstart = 0 then (ld\<lparr>l_mem := fill_kheader be (kheader ld) paddr (l_mem ld)\<rparr>, paddr) else (ld, pstart))
    in (ld\<lparr>l_mem := store64 (l_mem ld) (kheader ld + KH_IMAGE_SIZE) (paddr + ph_memsz ph - pstart)\<rparr>, pstart))"

text \<open>
  One program header.  \<open>pstart\<close> is the address of the first loaded segment, 0 before; the result \<open>False\<close> ends the loading.
\<close>

definition load_segment :: "boot_env \<Rightarrow> phdr \<Rightarrow> pfile \<times> loader \<times> u64 \<Rightarrow> bool \<times> pfile \<times> loader \<times> u64" where
  "load_segment be ph = (\<lambda>(f, ld, pstart).
    if ph_type ph \<noteq> PT_TLS \<and> ph_type ph \<noteq> PT_LOAD then (True, f, ld, pstart)
    else let ld = set_tls ph ld;
             (ok, bs, f) = pread_in_full f (unat (ph_filesz ph)) (unat (ph_offset ph));
             ld = ld\<lparr>l_mem := store_bytes (l_mem ld) (ph_paddr ph) bs\<rparr>
         in if ret_negative ok bs then (False, f, ld, pstart)
            else (True, f, note_segment be ph (ld, pstart)))"

fun load_segments :: "boot_env \<Rightarrow> phdr list \<Rightarrow> pfile \<times> loader \<times> u64 \<Rightarrow> bool \<times> pfile \<times> loader \<times> u64" where
  "load_segments be [] st = (True, st)"
| "load_segments be (ph # phs) st =
    (case load_segment be ph st of (False, st) \<Rightarrow> (False, st) | (True, st) \<Rightarrow> load_segments be phs st)"

text \<open>
  \<open>load_kernel\<close>: the result tells whether it returned 0; the third component is \<open>elf_entry\<close>, if it was set.  The file is \<open>None\<close>
  when it does not open, \<open>malloced\<close> tells whether there was memory for the program headers.
\<close>

definition load_kernel :: "u16 \<Rightarrow> boot_env \<Rightarrow> gmem \<Rightarrow> bool \<Rightarrow> pfile option \<Rightarrow> loader \<Rightarrow> bool \<times> loader \<times> u64 option" where
  "load_kernel machine be junk malloced file ld =
    (case file of
       None \<Rightarrow> (False, ld, None)
     | Some f \<Rightarrow>
         let (ok, bs, f) = pread_in_full f sizeof_Ehdr 0; hdr = store_bytes junk 0 bs
         in if ret_negative ok bs then (False, ld, None)
            else if \<not> elf_ok machine hdr then (False, ld, None)
            else let buflen = unat (e_phentsize hdr) * unat (e_phnum hdr)
                 in if \<not> malloced then (False, ld, Some (e_entry hdr))
                    else let (ok, bs, f) = pread_in_full f buflen (unat (e_phoff hdr)); phdr = store_bytes junk 0 bs
                         in if ret_negative ok bs then (False, ld, Some (e_entry hdr))
                            else let ld = (if l_kheader ld = None
                                           then ld\<lparr>l_kheader := Some BOOT_INFO_ADDR, l_mem := init_kheader (l_mem ld)\<rparr> else ld);
                                     (ok, f, ld, pstart) = load_segments be (map (phdr_at phdr) [0..<unat (e_phnum hdr)]) (f, ld, 0)
                                 in (ok, ld, Some (e_entry hdr)))"

section \<open>Lemmas\<close>

lemma small_not_negative: "length bs < 2 ^ 31 \<Longrightarrow> \<not> ret_negative True bs"
proof -
  assume l: "length bs < 2 ^ 31"
  have u: "unat (word_of_nat (length bs) :: u32) = length bs"
    using l by (simp add: unat_of_nat)
  have "bit (word_of_nat (length bs) :: u32) 31 \<longleftrightarrow> bit (length bs) 31"
    by (metis bit_unsigned_iff possible_bit_nat u)
  then have "\<not> bit (word_of_nat (length bs) :: u32) 31"
    using l by (simp add: bit_iff_odd)
  then show ?thesis
    using bit_last_iff [of "word_of_nat (length bs) :: u32"] by (simp add: ret_negative_def)
qed

lemma pread_in_full_ok:
  assumes "reads_ok f" and "n < 2 ^ 31"
  obtains f' where "pread_in_full f n offset = (True, take n (drop offset (f_data f)), f')"
    and "reads_ok f'" and "f_data f' = f_data f"
  using pread_loop_ok [OF assms(1), of n offset "[]"] assms(2) that by (auto simp: pread_in_full_def SSIZE_MAX_def)

text \<open>A header that is loaded, the byte of the file at an address of its segment.\<close>

definition loadable :: "phdr \<Rightarrow> bool" where
  "loadable ph \<longleftrightarrow> ph_type ph = PT_TLS \<or> ph_type ph = PT_LOAD"

definition seg_byte :: "bytes \<Rightarrow> phdr \<Rightarrow> u64 \<Rightarrow> u8" where
  "seg_byte data ph x = data ! (unat (ph_offset ph) + unat (x - ph_paddr ph))"

text \<open>
  A segment lies in the file and does not touch the boot header; two segments are apart, or, like a TLS template in a data
  segment, map the same part of the file to the same addresses.
\<close>

definition seg_ok :: "bytes \<Rightarrow> phdr \<Rightarrow> bool" where
  "seg_ok data ph \<longleftrightarrow> unat (ph_offset ph) + unat (ph_filesz ph) \<le> length data \<and> unat (ph_filesz ph) < 2 ^ 31 \<and>
     disjoint_runs (ph_paddr ph) (unat (ph_filesz ph)) BOOT_INFO_ADDR KH_SIZE"

definition segs_compatible :: "phdr \<Rightarrow> phdr \<Rightarrow> bool" where
  "segs_compatible p q \<longleftrightarrow> ph_paddr p - ph_offset p = ph_paddr q - ph_offset q \<or>
     disjoint_runs (ph_paddr p) (unat (ph_filesz p)) (ph_paddr q) (unat (ph_filesz q))"

lemma seg_byte_agree:
  assumes "seg_ok data p" and "seg_ok data q" and "segs_compatible p q" and "length data < 2 ^ 64"
    and "in_run x (ph_paddr p) (unat (ph_filesz p))" and "in_run x (ph_paddr q) (unat (ph_filesz q))"
  shows "seg_byte data p x = seg_byte data q x"
proof -
  have sum: "unat (ph_offset r + (x - ph_paddr r)) = unat (ph_offset r) + unat (x - ph_paddr r)"
    if "seg_ok data r" and "in_run x (ph_paddr r) (unat (ph_filesz r))" for r
    using that assms(4) by (subst unat_add_lem [THEN iffD1]) (simp_all add: seg_ok_def in_run_def)
  have "\<not> disjoint_runs (ph_paddr p) (unat (ph_filesz p)) (ph_paddr q) (unat (ph_filesz q))"
  proof
    assume "disjoint_runs (ph_paddr p) (unat (ph_filesz p)) (ph_paddr q) (unat (ph_filesz q))"
    from disjoint_runs_not_in [OF this, of "unat (x - ph_paddr p)"] assms(5,6) show False
      by (simp add: in_run_def)
  qed
  then have d: "ph_paddr p - ph_offset p = ph_paddr q - ph_offset q"
    using assms(3) by (simp add: segs_compatible_def)
  have "ph_offset p + (x - ph_paddr p) = x - (ph_paddr p - ph_offset p)"
    by simp
  also have "\<dots> = ph_offset q + (x - ph_paddr q)"
    by (simp add: d)
  finally have "unat (ph_offset p + (x - ph_paddr p)) = unat (ph_offset q + (x - ph_paddr q))"
    by (simp only:)
  then show ?thesis
    unfolding seg_byte_def sum [OF assms(1,5)] sum [OF assms(2,6)] by (simp only:)
qed

lemma header_field_apart: "\<not> in_run x BOOT_INFO_ADDR KH_SIZE \<Longrightarrow> k + n \<le> 152 \<Longrightarrow> \<not> in_run x (BOOT_INFO_ADDR + word_of_nat k) n"
  using in_run_shift [of x BOOT_INFO_ADDR k n 152] by (auto simp: KH_SIZE_def)

lemma store_ip_outside:
  "\<not> in_run x a 4 \<Longrightarrow> store_ip be a str mem x = mem x"
  by (auto simp: store_ip_def in_run_def store_bytes_def split: option.split)

lemma store_four_outside: "\<not> in_run x a 4 \<Longrightarrow> store_bytes mem a [b0, b1, b2, b3] x = mem x"
  by (simp add: store_bytes_def in_run_def)

lemmas outside_simps = store_four_outside store64_outside store32_outside store16_outside store_bytes_out store_ip_outside

lemma fill_kheader_outside:
  assumes "\<not> in_run x BOOT_INFO_ADDR KH_SIZE"
  shows "fill_kheader be BOOT_INFO_ADDR paddr mem x = mem x"
  using header_field_apart [OF assms, of 8 8] header_field_apart [OF assms, of 16 8] header_field_apart [OF assms, of 56 8]
    header_field_apart [OF assms, of 72 8] header_field_apart [OF assms, of 80 8] header_field_apart [OF assms, of 112 4]
    header_field_apart [OF assms, of 124 4] header_field_apart [OF assms, of 128 4] header_field_apart [OF assms, of 132 2]
    header_field_apart [OF assms, of 135 1] header_field_apart [OF assms, of 136 4] header_field_apart [OF assms, of 140 4]
    header_field_apart [OF assms, of 144 4]
  by (simp add: fill_kheader_def Let_def outside_simps kh_offsets)

lemma set_tls_mem:
  assumes "l_kheader ld = Some BOOT_INFO_ADDR"
  shows "l_kheader (set_tls ph ld) = Some BOOT_INFO_ADDR"
    and "\<not> in_run x BOOT_INFO_ADDR KH_SIZE \<Longrightarrow> l_mem (set_tls ph ld) x = l_mem ld x"
  using assms header_field_apart [of x 32 8] header_field_apart [of x 40 8] header_field_apart [of x 48 8]
  by (simp_all add: set_tls_def kheader_def outside_simps kh_offsets)

lemma note_segment_mem:
  assumes "l_kheader ld = Some BOOT_INFO_ADDR" and "note_segment be ph (ld, ps) = (ld', ps')"
  shows "l_kheader ld' = Some BOOT_INFO_ADDR"
    and "\<not> in_run x BOOT_INFO_ADDR KH_SIZE \<Longrightarrow> l_mem ld' x = l_mem ld x"
  using assms header_field_apart [of x 24 8]
  by (auto simp: note_segment_def kheader_def Let_def outside_simps fill_kheader_outside kh_offsets split: if_splits)

lemma load_segment_eq:
  assumes "reads_ok f" and "loadable ph" and "seg_ok (f_data f) ph"
  obtains f' where "load_segment be ph (f, ld, ps) = (True, f', note_segment be ph ((set_tls ph ld)\<lparr>l_mem :=
      store_bytes (l_mem (set_tls ph ld)) (ph_paddr ph) (take (unat (ph_filesz ph)) (drop (unat (ph_offset ph)) (f_data f)))\<rparr>, ps))"
    and "reads_ok f'" and "f_data f' = f_data f"
proof -
  have sz: "unat (ph_filesz ph) < 2 ^ 31"
    using assms(3) by (simp add: seg_ok_def)
  obtain f' where pr: "pread_in_full f (unat (ph_filesz ph)) (unat (ph_offset ph)) =
      (True, take (unat (ph_filesz ph)) (drop (unat (ph_offset ph)) (f_data f)), f')" (is "_ = (True, ?bs, f')")
    and f': "reads_ok f'" "f_data f' = f_data f"
    using pread_in_full_ok [OF assms(1) sz] by blast
  have nn: "\<not> ret_negative True ?bs"
    using sz by (intro small_not_negative) simp
  show thesis
    using assms(2) pr nn by (intro that [OF _ f']) (auto simp: load_segment_def loadable_def Let_def)
qed

lemma load_segment_mem:
  assumes "reads_ok f" and "loadable ph" and "seg_ok (f_data f) ph" and "l_kheader ld = Some BOOT_INFO_ADDR"
  obtains f' ld' ps' where "load_segment be ph (f, ld, ps) = (True, f', ld', ps')"
    and "reads_ok f'" and "f_data f' = f_data f" and "l_kheader ld' = Some BOOT_INFO_ADDR"
    and "\<And>x. \<not> in_run x BOOT_INFO_ADDR KH_SIZE \<Longrightarrow>
           l_mem ld' x = (if in_run x (ph_paddr ph) (unat (ph_filesz ph)) then seg_byte (f_data f) ph x else l_mem ld x)"
proof -
  let ?bs = "take (unat (ph_filesz ph)) (drop (unat (ph_offset ph)) (f_data f))"
  let ?ld = "(set_tls ph ld)\<lparr>l_mem := store_bytes (l_mem (set_tls ph ld)) (ph_paddr ph) ?bs\<rparr>"
  have bound: "unat (ph_offset ph) + unat (ph_filesz ph) \<le> length (f_data f)"
    using assms(3) by (simp add: seg_ok_def)
  have seg: "store_bytes m (ph_paddr ph) ?bs x =
      (if in_run x (ph_paddr ph) (unat (ph_filesz ph)) then seg_byte (f_data f) ph x else m x)" for m x
    using bound by (simp add: store_bytes_def in_run_def seg_byte_def Let_def)
  obtain f' where eq: "load_segment be ph (f, ld, ps) = (True, f', note_segment be ph (?ld, ps))"
    and f': "reads_ok f'" "f_data f' = f_data f"
    using load_segment_eq [OF assms(1-3)] by blast
  obtain ld' ps' where ns: "note_segment be ph (?ld, ps) = (ld', ps')" by fastforce
  have k: "l_kheader ?ld = Some BOOT_INFO_ADDR"
    using set_tls_mem(1) [OF assms(4)] by simp
  show thesis
  proof (rule that [OF _ f' note_segment_mem(1) [OF k ns]])
    show "load_segment be ph (f, ld, ps) = (True, f', ld', ps')"
      using eq ns by simp
  next
    fix x assume "\<not> in_run x BOOT_INFO_ADDR KH_SIZE"
    then show "l_mem ld' x = (if in_run x (ph_paddr ph) (unat (ph_filesz ph)) then seg_byte (f_data f) ph x else l_mem ld x)"
      using note_segment_mem(2) [OF k ns] set_tls_mem(2) [OF assms(4), of x ph] by (simp add: seg)
  qed
qed

text \<open>All headers: every segment that was loaded holds its bytes of the file.\<close>

definition loaded_mem :: "bytes \<Rightarrow> phdr list \<Rightarrow> gmem \<Rightarrow> bool" where
  "loaded_mem data phs mem \<longleftrightarrow> (\<forall>ph \<in> set phs. loadable ph \<longrightarrow>
     (\<forall>x. in_run x (ph_paddr ph) (unat (ph_filesz ph)) \<longrightarrow> mem x = seg_byte data ph x))"

definition segs_ok :: "bytes \<Rightarrow> phdr list \<Rightarrow> bool" where
  "segs_ok data phs \<longleftrightarrow> length data < 2 ^ 64 \<and> (\<forall>p \<in> set phs. loadable p \<longrightarrow>
     seg_ok data p \<and> (\<forall>q \<in> set phs. loadable q \<longrightarrow> segs_compatible p q))"

lemma seg_outside_header:
  "seg_ok data ph \<Longrightarrow> in_run x (ph_paddr ph) (unat (ph_filesz ph)) \<Longrightarrow> \<not> in_run x BOOT_INFO_ADDR KH_SIZE"
  using disjoint_runs_not_in [of "ph_paddr ph" "unat (ph_filesz ph)" BOOT_INFO_ADDR KH_SIZE "unat (x - ph_paddr ph)"]
  by (simp add: seg_ok_def in_run_def)

lemma load_segments_mem:
  assumes "reads_ok f" and "segs_ok (f_data f) (done @ phs)" and "l_kheader ld = Some BOOT_INFO_ADDR"
    and "loaded_mem (f_data f) done (l_mem ld)"
  shows "\<exists>f' ld' ps'. load_segments be phs (f, ld, ps) = (True, f', ld', ps') \<and> l_kheader ld' = Some BOOT_INFO_ADDR \<and>
     loaded_mem (f_data f) (done @ phs) (l_mem ld') \<and>
     (\<forall>x. \<not> in_run x BOOT_INFO_ADDR KH_SIZE \<and>
        (\<forall>ph \<in> set phs. loadable ph \<longrightarrow> \<not> in_run x (ph_paddr ph) (unat (ph_filesz ph))) \<longrightarrow> l_mem ld' x = l_mem ld x)"
  using assms
proof (induction phs arbitrary: "done" f ld ps)
  case Nil
  then show ?case by simp
next
  case (Cons ph phs)
  show ?case
  proof (cases "loadable ph")
    case False
    then have "load_segment be ph (f, ld, ps) = (True, f, ld, ps)"
      by (simp add: load_segment_def loadable_def)
    moreover have "loaded_mem (f_data f) (done @ [ph]) (l_mem ld)"
      using Cons.prems(4) False by (auto simp: loaded_mem_def)
    ultimately show ?thesis
      using Cons.IH [of f "done @ [ph]" ld ps] Cons.prems False by auto
  next
    case True
    have ok: "seg_ok (f_data f) ph"
      using Cons.prems(2) True by (simp add: segs_ok_def)
    obtain f' ld' ps' where s: "load_segment be ph (f, ld, ps) = (True, f', ld', ps')"
      and f': "reads_ok f'" "f_data f' = f_data f" and k: "l_kheader ld' = Some BOOT_INFO_ADDR"
      and m: "\<And>x. \<not> in_run x BOOT_INFO_ADDR KH_SIZE \<Longrightarrow>
           l_mem ld' x = (if in_run x (ph_paddr ph) (unat (ph_filesz ph)) then seg_byte (f_data f) ph x else l_mem ld x)"
      using load_segment_mem [OF Cons.prems(1) True ok Cons.prems(3)] by metis
    have "loaded_mem (f_data f) (done @ [ph]) (l_mem ld')"
      unfolding loaded_mem_def
    proof (intro ballI impI allI)
      fix p x assume p: "p \<in> set (done @ [ph])" "loadable p" and x: "in_run x (ph_paddr p) (unat (ph_filesz p))"
      have okp: "seg_ok (f_data f) p" and c: "segs_compatible ph p" and l: "length (f_data f) < 2 ^ 64"
        using Cons.prems(2) p True by (auto simp: segs_ok_def)
      have "p \<noteq> ph \<Longrightarrow> l_mem ld x = seg_byte (f_data f) p x"
        using Cons.prems(4) p x by (auto simp: loaded_mem_def)
      then show "l_mem ld' x = seg_byte (f_data f) p x"
        using m [OF seg_outside_header [OF okp x]] seg_byte_agree [OF ok okp c l] x by auto
    qed
    then show ?thesis
      using Cons.IH [of f' "done @ [ph]" ld' ps'] Cons.prems(2) s f' k m by (auto simp: True)
  qed
qed

text \<open>The boot header: its fields once the first segment, at \<open>ps\<close>, is loaded.\<close>

definition header_ok :: "boot_env \<Rightarrow> u64 \<Rightarrow> gmem \<Rightarrow> bool" where
  "header_ok be ps mem \<longleftrightarrow> load32 mem BOOT_INFO_ADDR = 0xC0DECAFE \<and> load32 mem (BOOT_INFO_ADDR + KH_VERSION) = 1 \<and>
    (ps \<noteq> 0 \<longrightarrow>
      load64 mem (BOOT_INFO_ADDR + KH_BASE) = ps \<and> load64 mem (BOOT_INFO_ADDR + KH_LIMIT) = be_guest_size be \<and>
      load64 mem (BOOT_INFO_ADDR + KH_STACK) = ps - KERNEL_STACK_SIZE \<and>
      load64 mem (BOOT_INFO_ADDR + KH_HOST_LOGICAL) = be_guest_mem be \<and>
      load32 mem (BOOT_INFO_ADDR + KH_CPU_FREQ) = be_cpu_freq be \<and> load32 mem (BOOT_INFO_ADDR + KH_POSSIBLE_CPUS) = 1)"

lemma BOOT_INFO_val: "BOOT_INFO_ADDR = 0x9000" "KH_SIZE = 152"
  by (simp_all add: BOOT_INFO_ADDR_def KH_SIZE_def)

lemma load_store_bytes_other:
  "disjoint_runs a 8 b (length bs) \<Longrightarrow> load64 (store_bytes m b bs) a = load64 m a"
  "disjoint_runs a 4 b (length bs) \<Longrightarrow> load32 (store_bytes m b bs) a = load32 m a"
  by (simp_all add: load64_def load32_def load_store_other)

lemma load_store16_other:
  "disjoint_runs a 8 b 2 \<Longrightarrow> load64 (store16 m b w) a = load64 m a"
  "disjoint_runs a 4 b 2 \<Longrightarrow> load32 (store16 m b w) a = load32 m a"
  by (simp_all add: load64_def load32_def store16_def c16.load_store_disjoint)

lemma load_store_ip_other:
  "disjoint_runs a 8 b 4 \<Longrightarrow> load64 (store_ip be b str m) a = load64 m a"
  "disjoint_runs a 4 b 4 \<Longrightarrow> load32 (store_ip be b str m) a = load32 m a"
  by (auto simp: store_ip_def load_store_bytes_other disjoint_runs_def split: option.split)

lemmas header_simps = load64_store64_other load64_store32_other load32_store64_other load32_store32_other
  load_store_bytes_other load_store16_other load_store_ip_other disjoint_runs_def kh_offsets BOOT_INFO_val

lemma fill_header_ok: "header_ok be 0 mem \<Longrightarrow> header_ok be paddr (fill_kheader be BOOT_INFO_ADDR paddr mem)"
  by (cases "be_ip be = None") (simp_all add: header_ok_def fill_kheader_def Let_def header_simps)

lemma header_ok_0: "header_ok be ps mem \<Longrightarrow> header_ok be 0 mem"
  by (simp add: header_ok_def)

lemma set_tls_header:
  "l_kheader ld = Some BOOT_INFO_ADDR \<Longrightarrow> header_ok be ps (l_mem (set_tls ph ld)) \<longleftrightarrow> header_ok be ps (l_mem ld)"
  by (simp add: set_tls_def header_ok_def kheader_def header_simps)

lemma image_size_header:
  "header_ok be ps (store64 mem (BOOT_INFO_ADDR + KH_IMAGE_SIZE) w) \<longleftrightarrow> header_ok be ps mem"
  by (simp add: header_ok_def header_simps)

lemma note_segment_header:
  assumes "l_kheader ld = Some BOOT_INFO_ADDR" and "header_ok be ps (l_mem ld)" and "note_segment be ph (ld, ps) = (ld', ps')"
  shows "ps' = (if ps = 0 then ph_paddr ph else ps)" and "header_ok be ps' (l_mem ld')"
    and "load64 (l_mem ld') (BOOT_INFO_ADDR + KH_IMAGE_SIZE) = ph_paddr ph + ph_memsz ph - ps'"
  using assms fill_header_ok [OF header_ok_0 [OF assms(2)], of "ph_paddr ph"]
  by (auto simp: note_segment_def kheader_def Let_def image_size_header split: if_splits)

lemma header_ok_cong:
  assumes "\<And>x. in_run x BOOT_INFO_ADDR KH_SIZE \<Longrightarrow> mem x = mem' x"
  shows "header_ok be ps mem \<longleftrightarrow> header_ok be ps mem'"
proof -
  have r: "mem x = mem' x" if "in_run x (BOOT_INFO_ADDR + word_of_nat k) n" and "k + n \<le> 152" for x k n
    using in_run_shift [OF that] assms [of x] by (simp add: KH_SIZE_def)
  have "load64 mem (BOOT_INFO_ADDR + word_of_nat k) = load64 mem' (BOOT_INFO_ADDR + word_of_nat k)" if "k + 8 \<le> 152" for k
    using r [of _ k 8] that by (intro load64_cong) simp
  moreover have "load32 mem (BOOT_INFO_ADDR + word_of_nat k) = load32 mem' (BOOT_INFO_ADDR + word_of_nat k)" if "k + 4 \<le> 152" for k
    using r [of _ k 4] that by (intro load32_cong) simp
  note this [of 0] this [of 4] this [of 112] this [of 124] calculation [of 8] calculation [of 16] calculation [of 56] calculation [of 72]
  then show ?thesis
    by (simp add: header_ok_def kh_offsets)
qed

lemma store_segment_header:
  assumes "seg_ok data ph" and "length bs \<le> unat (ph_filesz ph)"
  shows "header_ok be ps (store_bytes mem (ph_paddr ph) bs) \<longleftrightarrow> header_ok be ps mem"
proof (rule header_ok_cong)
  fix x assume "in_run x BOOT_INFO_ADDR KH_SIZE"
  then have "\<not> in_run x (ph_paddr ph) (unat (ph_filesz ph))"
    using seg_outside_header [OF assms(1)] by blast
  then show "store_bytes mem (ph_paddr ph) bs x = mem x"
    using assms(2) by (simp add: store_bytes_def in_run_def)
qed

text \<open>The start of the image, given that of what was loaded before.\<close>

fun image_start :: "u64 \<Rightarrow> phdr list \<Rightarrow> u64" where
  "image_start ps [] = ps"
| "image_start ps (ph # phs) = (if ps \<noteq> 0 then ps else image_start (if loadable ph then ph_paddr ph else 0) phs)"

lemma image_start_nonzero: "ps \<noteq> 0 \<Longrightarrow> image_start ps phs = ps"
  by (cases phs) simp_all

lemma load_segments_none: "filter loadable phs = [] \<Longrightarrow> load_segments be phs st = (True, st)"
  by (induction phs) (auto simp: load_segment_def loadable_def split: prod.splits if_splits)

lemma load_segments_header:
  assumes "reads_ok f" and "\<forall>p \<in> set phs. loadable p \<longrightarrow> seg_ok (f_data f) p" and "l_kheader ld = Some BOOT_INFO_ADDR"
    and "header_ok be ps (l_mem ld)" and "load_segments be phs (f, ld, ps) = (ok, f', ld', ps')"
  shows "ps' = image_start ps phs \<and> header_ok be ps' (l_mem ld') \<and>
     (filter loadable phs \<noteq> [] \<longrightarrow> load64 (l_mem ld') (BOOT_INFO_ADDR + KH_IMAGE_SIZE) =
        ph_paddr (last (filter loadable phs)) + ph_memsz (last (filter loadable phs)) - ps')"
  using assms
proof (induction phs arbitrary: f ld ps)
  case (Cons ph phs)
  show ?case
  proof (cases "loadable ph")
    case False
    then have "load_segment be ph (f, ld, ps) = (True, f, ld, ps)"
      by (simp add: load_segment_def loadable_def)
    then show ?thesis
      using Cons.IH [of f ld ps] Cons.prems False image_start_nonzero [of ps phs] by auto
  next
    case True
    let ?bs = "take (unat (ph_filesz ph)) (drop (unat (ph_offset ph)) (f_data f))"
    let ?ld = "(set_tls ph ld)\<lparr>l_mem := store_bytes (l_mem (set_tls ph ld)) (ph_paddr ph) ?bs\<rparr>"
    have ok: "seg_ok (f_data f) ph" using Cons.prems(2) True by simp
    obtain f1 where eq: "load_segment be ph (f, ld, ps) = (True, f1, note_segment be ph (?ld, ps))"
      and f1: "reads_ok f1" "f_data f1 = f_data f"
      using load_segment_eq [OF Cons.prems(1) True ok] by blast
    obtain ld1 ps1 where ns: "note_segment be ph (?ld, ps) = (ld1, ps1)" by fastforce
    have k: "l_kheader ?ld = Some BOOT_INFO_ADDR"
      using set_tls_mem(1) [OF Cons.prems(3)] by simp
    have h: "header_ok be ps (l_mem ?ld)"
      using store_segment_header [OF ok, of ?bs] set_tls_header [OF Cons.prems(3)] Cons.prems(4) by simp
    note n = note_segment_header [OF k h ns]
    have rest: "load_segments be phs (f1, ld1, ps1) = (ok, f', ld', ps')"
      using Cons.prems(5) eq ns by simp
    have IH: "ps' = image_start ps1 phs \<and> header_ok be ps' (l_mem ld') \<and>
      (filter loadable phs \<noteq> [] \<longrightarrow> load64 (l_mem ld') (BOOT_INFO_ADDR + KH_IMAGE_SIZE) =
        ph_paddr (last (filter loadable phs)) + ph_memsz (last (filter loadable phs)) - ps')"
      using Cons.IH [OF f1(1) _ note_segment_mem(1) [OF k ns] n(2) rest] Cons.prems(2) f1(2) by auto
    have ps1: "ps' = image_start ps (ph # phs)"
      using IH n(1) True image_start_nonzero [of ps phs] by auto
    have hd: "header_ok be ps' (l_mem ld')"
      using IH by blast
    show ?thesis
    proof (cases "filter loadable phs = []")
      case none: True
      then have "ld' = ld1" and "ps' = ps1"
        using load_segments_none [OF none] rest by auto
      then have "load64 (l_mem ld') (BOOT_INFO_ADDR + KH_IMAGE_SIZE) = ph_paddr ph + ph_memsz ph - ps'"
        using n(3) by simp
      moreover have "last (filter loadable (ph # phs)) = ph"
        using none True by simp
      ultimately show ?thesis
        using ps1 hd by metis
    next
      case False
      then have "last (filter loadable (ph # phs)) = last (filter loadable phs)"
        using True by simp
      then show ?thesis
        using IH ps1 hd False by metis
    qed
  qed
qed simp

section \<open>Properties\<close>

text \<open>The program headers of an ELF file.\<close>

definition elf_phdrs :: "bytes \<Rightarrow> phdr list" where
  "elf_phdrs data =
    (let hdr = store_bytes (\<lambda>_. 0) 0 (take sizeof_Ehdr data)
     in map (phdr_at (\<lambda>x. data ! (unat (e_phoff hdr) + unat x))) [0..<unat (e_phnum hdr)])"

text \<open>An ELF file with a complete header and complete program headers.\<close>

definition elf_file :: "u16 \<Rightarrow> bytes \<Rightarrow> bool" where
  "elf_file machine data \<longleftrightarrow> sizeof_Ehdr \<le> length data \<and>
    (let hdr = store_bytes (\<lambda>_. 0) 0 (take sizeof_Ehdr data)
     in elf_ok machine hdr \<and> e_phentsize hdr = 56 \<and> 56 * unat (e_phnum hdr) + unat (e_phoff hdr) \<le> length data)"

lemma load16_cong: "(\<And>x. in_run x a 2 \<Longrightarrow> m x = m' x) \<Longrightarrow> load16 m a = load16 m' a"
  unfolding load16_def using load_bytes_cong [of a 2 m m'] by simp

lemma in_low_run: "in_run x (word_of_nat k) n \<Longrightarrow> k + n \<le> N \<Longrightarrow> N < 2 ^ 64 \<Longrightarrow> unat x < N"
  using in_run_shift [of x 0 k n N] by (simp add: in_run_def)

lemma elf_header_junk:
  fixes data :: bytes
  assumes "sizeof_Ehdr \<le> length data"
  defines "h \<equiv> \<lambda>junk. store_bytes junk 0 (take sizeof_Ehdr data)"
  shows "elf_ok machine (h junk) = elf_ok machine (h junk')" and "e_entry (h junk) = e_entry (h junk')"
    and "e_phoff (h junk) = e_phoff (h junk')" and "e_phentsize (h junk) = e_phentsize (h junk')"
    and "e_phnum (h junk) = e_phnum (h junk')"
proof -
  have eq: "h junk x = h junk' x" if "unat x < 64" for x
    using that assms by (simp add: store_bytes_def sizeof_Ehdr_def)
  have run: "h junk x = h junk' x" if "in_run x (word_of_nat k) n" and "k + n \<le> 64" for x k n
    using in_low_run [OF that] eq by simp
  have l: "load16 (h junk) (word_of_nat k) = load16 (h junk') (word_of_nat k)" if "k + 2 \<le> 64" for k
    using run [of _ k 2] that by (intro load16_cong) simp
  have l64: "load64 (h junk) (word_of_nat k) = load64 (h junk') (word_of_nat k)" if "k + 8 \<le> 64" for k
    using run [of _ k 8] that by (intro load64_cong) simp
  show "elf_ok machine (h junk) = elf_ok machine (h junk')"
    using l [of 16] l [of 18] by (simp add: elf_ok_def e_ident_def e_type_def e_machine_def eq)
  show "e_entry (h junk) = e_entry (h junk')" and "e_phoff (h junk) = e_phoff (h junk')"
    using l64 [of 24] l64 [of 32] by (simp_all add: e_entry_def e_phoff_def)
  show "e_phentsize (h junk) = e_phentsize (h junk')" and "e_phnum (h junk) = e_phnum (h junk')"
    using l [of 54] l [of 56] by (simp_all add: e_phentsize_def e_phnum_def)
qed

lemma phdr_at_cong:
  assumes "\<And>x. unat x < 56 * n \<Longrightarrow> m x = m' x" and "i < n" and "n < 2 ^ 16"
  shows "phdr_at m i = phdr_at m' i"
proof -
  have run: "m x = m' x" if "in_run x (word_of_nat (56 * i + k)) l" and "k + l \<le> 56" for x k l
    using in_low_run [OF that(1), of "56 * n"] that(2) assms by simp
  have l64: "load64 m (word_of_nat (56 * i + k)) = load64 m' (word_of_nat (56 * i + k))" if "k + 8 \<le> 56" for k
    using run [of _ k 8] that by (intro load64_cong) simp
  have l32: "load32 m (word_of_nat (56 * i)) = load32 m' (word_of_nat (56 * i))"
    using run [of _ 0 4] by (intro load32_cong) simp
  show ?thesis
    using l64 [of 8] l64 [of 24] l64 [of 32] l64 [of 40] l32
    by (simp add: phdr_at_def Let_def sizeof_Phdr_def ac_simps)
qed

text \<open>Reading the headers of a complete file: \<open>hdr\<close> and the program headers, whatever the buffers held before.\<close>

lemma elf_headers_read:
  assumes "reads_ok f" and "elf_file machine (f_data f)"
  obtains bs f1 pb f2 where "pread_in_full f sizeof_Ehdr 0 = (True, bs, f1)" "\<not> ret_negative True bs"
    "elf_ok machine (store_bytes junk 0 bs)"
    "pread_in_full f1 (unat (e_phentsize (store_bytes junk 0 bs)) * unat (e_phnum (store_bytes junk 0 bs))) (unat (e_phoff (store_bytes junk 0 bs))) =
       (True, pb, f2)" "\<not> ret_negative True pb"
    "map (phdr_at (store_bytes junk 0 pb)) [0..<unat (e_phnum (store_bytes junk 0 bs))] = elf_phdrs (f_data f)"
    "reads_ok f2" "f_data f2 = f_data f" "e_entry (store_bytes junk 0 bs) = e_entry (store_bytes (\<lambda>_. 0) 0 (take sizeof_Ehdr (f_data f)))"
proof -
  let ?data = "f_data f"
  let ?z = "store_bytes (\<lambda>_. 0) 0 (take sizeof_Ehdr ?data)"
  let ?n = "unat (e_phnum ?z)"
  have len: "sizeof_Ehdr \<le> length ?data" and ok: "elf_ok machine ?z" and es: "e_phentsize ?z = 56"
    and ph: "56 * ?n + unat (e_phoff ?z) \<le> length ?data"
    using assms(2) by (auto simp: elf_file_def Let_def)
  note j = elf_header_junk [OF len, where junk = junk and junk' = "\<lambda>_. 0"]
  have n: "?n < 2 ^ 16"
    using unat_less_exp [of "e_phnum ?z"] by simp
  obtain f1 where r1: "pread_in_full f sizeof_Ehdr 0 = (True, take sizeof_Ehdr ?data, f1)"
    and f1: "reads_ok f1" "f_data f1 = ?data"
    using pread_in_full_ok [OF assms(1), of sizeof_Ehdr 0] by (auto simp: sizeof_Ehdr_def)
  obtain f2 where r2: "pread_in_full f1 (56 * ?n) (unat (e_phoff ?z)) = (True, take (56 * ?n) (drop (unat (e_phoff ?z)) ?data), f2)"
    (is "_ = (True, ?pb, f2)") and f2: "reads_ok f2" "f_data f2 = ?data"
    using pread_in_full_ok [OF f1(1), of "56 * ?n" "unat (e_phoff ?z)"] n f1(2) by auto
  have nn: "\<not> ret_negative True (take sizeof_Ehdr ?data)" "\<not> ret_negative True ?pb"
    using n by (auto intro!: small_not_negative simp: sizeof_Ehdr_def)
  have phs: "map (phdr_at (store_bytes junk 0 ?pb)) [0..<?n] = elf_phdrs ?data"
    unfolding elf_phdrs_def Let_def
    using ph n by (intro map_cong refl phdr_at_cong [where n = ?n]) (auto simp: store_bytes_def Let_def)
  show thesis
    using r1 r2 nn j ok es phs f2 by (intro that [of "take sizeof_Ehdr ?data" f1 ?pb f2]) simp_all
qed

lemma init_kheader_ok: "header_ok be 0 (init_kheader mem)"
  by (simp add: header_ok_def init_kheader_def Let_def header_simps)

text \<open>
  C36.  From a complete ELF file of the right kind whose segments lie in the file, stay clear of the boot header and agree where they
  overlap, \<open>load_kernel\<close> succeeds whatever \<open>pread\<close> does short of failing: each segment of type \<open>PT_LOAD\<close> or \<open>PT_TLS\<close> is in guest
  memory at its physical address, and the boot header describes the image.
\<close>

theorem load_kernel_loads:
  assumes "reads_ok f" and "elf_file machine (f_data f)" and "segs_ok (f_data f) (elf_phdrs (f_data f))" and "l_kheader ld = None"
  shows "\<exists>ld' entry. load_kernel machine be junk True (Some f) ld = (True, ld', Some entry) \<and>
    loaded_mem (f_data f) (elf_phdrs (f_data f)) (l_mem ld') \<and>
    header_ok be (image_start 0 (elf_phdrs (f_data f))) (l_mem ld') \<and>
    (filter loadable (elf_phdrs (f_data f)) \<noteq> [] \<longrightarrow> load64 (l_mem ld') (BOOT_INFO_ADDR + KH_IMAGE_SIZE) =
       ph_paddr (last (filter loadable (elf_phdrs (f_data f)))) + ph_memsz (last (filter loadable (elf_phdrs (f_data f)))) -
       image_start 0 (elf_phdrs (f_data f)))"
proof -
  let ?data = "f_data f"
  let ?z = "store_bytes (\<lambda>_. 0) 0 (take sizeof_Ehdr ?data)"
  obtain bs f1 pb f2 where r: "pread_in_full f sizeof_Ehdr 0 = (True, bs, f1)" "\<not> ret_negative True bs"
    "elf_ok machine (store_bytes junk 0 bs)"
    "pread_in_full f1 (unat (e_phentsize (store_bytes junk 0 bs)) * unat (e_phnum (store_bytes junk 0 bs))) (unat (e_phoff (store_bytes junk 0 bs))) =
       (True, pb, f2)" "\<not> ret_negative True pb"
    "map (phdr_at (store_bytes junk 0 pb)) [0..<unat (e_phnum (store_bytes junk 0 bs))] = elf_phdrs ?data"
    and f2: "reads_ok f2" "f_data f2 = ?data" and e: "e_entry (store_bytes junk 0 bs) = e_entry ?z"
    by (rule elf_headers_read [OF assms(1,2)])
  let ?ld = "ld\<lparr>l_kheader := Some BOOT_INFO_ADDR, l_mem := init_kheader (l_mem ld)\<rparr>"
  obtain f3 ld3 ps3 where s: "load_segments be (elf_phdrs ?data) (f2, ?ld, 0) = (True, f3, ld3, ps3)"
    and m: "loaded_mem ?data (elf_phdrs ?data) (l_mem ld3)"
    using load_segments_mem [OF f2(1), of "[]" "elf_phdrs ?data" ?ld be 0] f2(2) assms(3) by (auto simp: loaded_mem_def)
  have h: "ps3 = image_start 0 (elf_phdrs ?data) \<and> header_ok be ps3 (l_mem ld3) \<and>
      (filter loadable (elf_phdrs ?data) \<noteq> [] \<longrightarrow> load64 (l_mem ld3) (BOOT_INFO_ADDR + KH_IMAGE_SIZE) =
        ph_paddr (last (filter loadable (elf_phdrs ?data))) + ph_memsz (last (filter loadable (elf_phdrs ?data))) - ps3)"
    using assms(3) f2(2) init_kheader_ok by (intro load_segments_header [OF f2(1) _ _ _ s]) (auto simp: segs_ok_def)
  have "load_kernel machine be junk True (Some f) ld = (True, ld3, Some (e_entry ?z))"
    using r e s assms(4) by (simp add: load_kernel_def Let_def)
  then show ?thesis
    using m h by blast
qed

definition be0 :: boot_env where
  "be0 = \<lparr>be_guest_size = 0x4000000, be_guest_mem = 0x7f0000000000, be_cpu_freq = 2600, be_verbose = False, be_ip = None,
     be_gateway = None, be_mask = None, be_junk = [], be_tv_sec = 1500000000\<rparr>"

definition ld0 :: loader where
  "ld0 = \<lparr>l_mem = \<lambda>_. 0, l_klog = None, l_kheader = None, l_clock = None\<rparr>"

definition sample_elf :: bytes where
  "sample_elf = [0x7f, 0x45, 0x4c, 0x46, 2, 1, 1, 0xff, 0, 0, 0, 0, 0, 0, 0, 0, 2, 0, 62, 0, 0, 0, 0, 0,
   0, 0, 16, 0, 0, 0, 0, 0, 64, 0, 0, 0, 0, 0, 0, 0, 0, 0, 0, 0, 0, 0, 0, 0, 0, 0, 0, 0, 0, 0, 56, 0, 1, 0, 0, 0, 0, 0, 0, 0,
   1, 0, 0, 0, 5, 0, 0, 0, 120, 0, 0, 0, 0, 0, 0, 0, 0, 0, 16, 0, 0, 0, 0, 0, 0, 0, 16, 0, 0, 0, 0, 0, 3, 0, 0, 0, 0, 0, 0, 0,
   0, 0x40, 0, 0, 0, 0, 0, 0, 0, 0x10, 0, 0, 0, 0, 0, 0, 0xf4, 0xeb, 0xfd]"

lemma sample_elf_ok: "elf_file EM_X86_64 sample_elf"
  by code_simp

lemma sample_elf_length: "length sample_elf = 123"
  by (simp add: sample_elf_def)

lemma sample_elf_header: "e_phoff (store_bytes (\<lambda>_. 0) 0 (take sizeof_Ehdr sample_elf)) = 64"
  "e_phnum (store_bytes (\<lambda>_. 0) 0 (take sizeof_Ehdr sample_elf)) = 1"
  by code_simp+

lemma sample_elf_phdrs: "elf_phdrs sample_elf =
   [\<lparr>ph_type = 1, ph_paddr = 0x100000, ph_offset = 120, ph_filesz = 3, ph_memsz = 0x4000\<rparr>]"
proof -
  have l: "load_bytes (\<lambda>x. sample_elf ! (64 + unat x)) 0 4 = [1, 0, 0, 0]"
    "load_bytes (\<lambda>x. sample_elf ! (64 + unat x)) 8 8 = [120, 0, 0, 0, 0, 0, 0, 0]"
    "load_bytes (\<lambda>x. sample_elf ! (64 + unat x)) 24 8 = [0, 0, 16, 0, 0, 0, 0, 0]"
    "load_bytes (\<lambda>x. sample_elf ! (64 + unat x)) 32 8 = [3, 0, 0, 0, 0, 0, 0, 0]"
    "load_bytes (\<lambda>x. sample_elf ! (64 + unat x)) 40 8 = [0, 0x40, 0, 0, 0, 0, 0, 0]"
    by code_simp+
  show ?thesis
    by (simp add: elf_phdrs_def Let_def sample_elf_header phdr_at_def load32_def load64_def dec32_def dec64_def l)
qed

theorem load_kernel_loads_witness:
  "\<exists>ld' entry. load_kernel EM_X86_64 be0 (\<lambda>_. 0) True (Some \<lparr>f_data = sample_elf, f_script = [PrIntr, PrChunk 7]\<rparr>)
      \<lparr>l_mem = \<lambda>_. 0, l_klog = None, l_kheader = None, l_clock = None\<rparr> = (True, ld', Some entry) \<and>
    l_mem ld' 0x100001 = 0xeb \<and> load64 (l_mem ld') (BOOT_INFO_ADDR + KH_BASE) = 0x100000"
proof -
  let ?f = "\<lparr>f_data = sample_elf, f_script = [PrIntr, PrChunk 7]\<rparr>"
  have "reads_ok ?f"
    by (simp add: reads_ok_def)
  moreover have "segs_ok sample_elf (elf_phdrs sample_elf)"
    by (simp add: segs_ok_def sample_elf_phdrs loadable_def PT_LOAD_def PT_TLS_def seg_ok_def segs_compatible_def disjoint_runs_def
        BOOT_INFO_val sample_elf_length)
  ultimately have "\<exists>ld' entry. load_kernel EM_X86_64 be0 (\<lambda>_. 0) True (Some ?f)
      \<lparr>l_mem = \<lambda>_. 0, l_klog = None, l_kheader = None, l_clock = None\<rparr> = (True, ld', Some entry) \<and>
    loaded_mem sample_elf (elf_phdrs sample_elf) (l_mem ld') \<and> header_ok be0 (image_start 0 (elf_phdrs sample_elf)) (l_mem ld')"
    using load_kernel_loads [of ?f EM_X86_64 "\<lparr>l_mem = \<lambda>_. 0, l_klog = None, l_kheader = None, l_clock = None\<rparr>" be0 "\<lambda>_. 0"] sample_elf_ok by auto
  then obtain ld' entry where k: "load_kernel EM_X86_64 be0 (\<lambda>_. 0) True (Some ?f)
      \<lparr>l_mem = \<lambda>_. 0, l_klog = None, l_kheader = None, l_clock = None\<rparr> = (True, ld', Some entry)"
    and m: "loaded_mem sample_elf (elf_phdrs sample_elf) (l_mem ld')"
    and h: "header_ok be0 (image_start 0 (elf_phdrs sample_elf)) (l_mem ld')"
    by blast
  have "l_mem ld' 0x100001 = seg_byte sample_elf (hd (elf_phdrs sample_elf)) 0x100001"
    using m by (simp add: loaded_mem_def sample_elf_phdrs loadable_def PT_LOAD_def PT_TLS_def in_run_def)
  also have "\<dots> = 0xeb"
    unfolding sample_elf_phdrs by (simp add: seg_byte_def sample_elf_def)
  finally show ?thesis
    using k h by (auto simp: header_ok_def sample_elf_phdrs loadable_def PT_LOAD_def)
qed

text \<open>
  A file that does not open, that cannot be read or that is not a HermitCore executable for the machine is refused before guest
  memory is touched.
\<close>

theorem load_kernel_refuses:
  assumes "case file of None \<Rightarrow> True
     | Some f \<Rightarrow> (case pread_in_full f sizeof_Ehdr 0 of (ok, bs, _) \<Rightarrow> \<not> ok \<or> \<not> elf_ok machine (store_bytes junk 0 bs))"
  shows "load_kernel machine be junk malloced file ld = (False, ld, None)"
  using assms by (auto simp: load_kernel_def Let_def ret_negative_def split: option.splits prod.splits)

theorem load_kernel_refuses_witness:
  "load_kernel EM_X86_64 be0 (\<lambda>_. 0) True (Some \<lparr>f_data = [0x23, 0x21], f_script = [PrErr]\<rparr>) ld0 = (False, ld0, None)"
  by (rule load_kernel_refuses) (simp add: pread_in_full_def SSIZE_MAX_def sizeof_Ehdr_def pread_loop.simps pread_def)

text \<open>The address \<open>a\<close> of the guest is backed by host memory, at the host address \<open>h\<close>.\<close>

definition backed_at :: "memory_region list \<Rightarrow> u64 \<Rightarrow> u64 \<Rightarrow> bool" where
  "backed_at rs a h \<longleftrightarrow> list_ex (\<lambda>r. in_run a (mr_phys r) (unat (mr_size r)) \<and> h = mr_host r + (a - mr_phys r)) rs"

text \<open>
  C37.  \<open>init_kvm_arch\<close> backs exactly the guest addresses below the enlarged size that lie outside the 32-bit gap, each by the host byte
  at the same offset of the mapping, so that the offsets of \<open>guest_mem\<close> the rest of the code uses are guest-physical addresses; these
  are also the addresses a complete migration sends.
\<close>

theorem guest_memory_backed:
  assumes "init_kvm_arch he guest_size = Some k" and "unat guest_size + 0x30000000 < 2 ^ 64"
  shows "(backed_at (ka_regions k) a h \<longleftrightarrow> a < ka_guest_size k \<and> \<not> in_gap a \<and> h = ka_guest_mem k + a) \<and>
    (covered a (determine_guest_physical_memory_regions (ka_guest_size k) mm) \<longleftrightarrow> a < ka_guest_size k \<and> \<not> in_gap a)"
proof -
  have k: "ka_guest_size k = alloc_size guest_size" "ka_regions k = user_regions (alloc_size guest_size) (ka_guest_mem k)"
    using assms(1) by (auto simp: init_kvm_arch_def Let_def split: option.splits if_splits)
  have sz: "alloc_size guest_size < KVM_32BIT_GAP_START \<or> KVM_32BIT_GAP_END \<le> alloc_size guest_size"
    using assms(2) unat_add_lem [THEN iffD1, of guest_size "0x30000000"]
    by (auto simp: alloc_size_def gap_val word_less_nat_alt word_le_nat_alt)
  have "backed_at (user_regions s m) a h \<longleftrightarrow> a < s \<and> \<not> in_gap a \<and> h = m + a"
    if "s < KVM_32BIT_GAP_START \<or> KVM_32BIT_GAP_END \<le> s" for s m
    using that unat_less_exp [of s] unat_less_exp [of a]
    by (auto simp: backed_at_def user_regions_def in_run_nat in_gap_def gap_val word_less_nat_alt word_le_nat_alt unat_sub)
  then show ?thesis
    using k sz guest_regions_cover [OF sz] by simp
qed

definition he0 :: host_env where
  "he0 = \<lparr>he_sync_mmu = True, he_mmap = \<lambda>n. Some 0x7f0000000000, he_mergeable = None, he_hugepage = None, he_tsc_deadline = 1,
     he_irqchip = 1, he_adjust_clock = 2, he_irqfd = 1, he_vapic = 1\<rparr>"

theorem guest_memory_backed_witness:
  "\<exists>k. init_kvm_arch he0 0x100000000 = Some k \<and> backed_at (ka_regions k) 0x110000000 0x7f0110000000 \<and>
     \<not> backed_at (ka_regions k) 0xe0000000 0x7f00e0000000"
proof -
  obtain k where k: "init_kvm_arch he0 0x100000000 = Some k" "ka_guest_size k = 0x130000000" "ka_guest_mem k = 0x7f0000000000"
    by (simp add: init_kvm_arch_def he0_def alloc_size_def gap_val)
  then show ?thesis
    using guest_memory_backed [OF k(1), of "0x110000000" "0x7f0110000000"] guest_memory_backed [OF k(1), of "0xe0000000" "0x7f00e0000000"]
    by (simp add: in_gap_def gap_val)
qed

text \<open>
  A checkpoint's configuration records the enlarged size.  A restart passes it to \<open>init_kvm_arch\<close> again, which
  adds the gap once more: a guest that reaches the gap does not get its size back.
\<close>

lemma restart_enlarges_guest:
  assumes "init_kvm_arch he guest_size = Some k" and "KVM_32BIT_GAP_START \<le> guest_size" and "unat guest_size + 0x60000000 < 2 ^ 64"
  shows "alloc_size (ka_guest_size k) = ka_guest_size k + KVM_32BIT_GAP_SIZE"
proof -
  have k: "ka_guest_size k = alloc_size guest_size"
    using assms(1) by (auto simp: init_kvm_arch_def Let_def split: option.splits if_splits)
  have "unat (guest_size + 0x30000000) = unat guest_size + 0x30000000"
    using assms(3) by (subst unat_add_lem [THEN iffD1]) simp_all
  then show ?thesis
    using assms(2,3) by (auto simp: k alloc_size_def gap_val word_less_nat_alt word_le_nat_alt)
qed

end
