(* ===== verification/Migration.thy ===== *)
theory Migration
  imports Migration_Channel Boot
begin

text \<open>
  A complete migration: \<open>connect_to_server\<close>, \<open>wait_for_client\<close> (\<open>src/uhyve-migration.c\<close>), \<open>migration_handler\<close> on the source,
  \<open>wait_for_incomming_migration\<close> and \<open>load_migration_data\<close> on the destination (\<open>src/uhyve-x86_64.c\<close>), over TCP.

  The CPU states are of any type with an object representation \<open>enc_vs\<close>, \<open>dec_vs\<close> of \<open>sz\<close> bytes (\<open>vcpu_state_t\<close>
  consists of structures of the KVM headers); the clock is the representation of \<open>struct kvm_clock_data\<close>, whose first
  field is \<open>clock\<close>.  The memory of a process is addressed by host addresses; the guest's memory starts at \<open>guest_mem\<close>.
\<close>

unbundle bit_operations_syntax

section \<open>Connecting\<close>

text \<open>An attempt to connect: the call that fails, or a connected socket.\<close>

datatype conn = ConnNoAddr | ConnNoSocket | ConnRefused | Connected sock

text \<open>The result is \<open>Inl (-1)\<close> or the socket; \<open>None\<close> when \<open>send_data\<close> does not return.\<close>

definition connect_to_server :: "mig_params_t \<Rightarrow> conn \<Rightarrow> (int + sock) option" where
  "connect_to_server mp c = (case c of
       ConnNoAddr \<Rightarrow> Some (Inl (-1)) | ConnNoSocket \<Rightarrow> Some (Inl (-1)) | ConnRefused \<Rightarrow> Some (Inl (-1))
     | Connected s \<Rightarrow> map_option Inr (sock_put s (enc_params mp)))"

text \<open>One attempt per caught signal; \<open>None\<close>: no signal arrives after the failed attempts.\<close>

fun await_connection :: "mig_params_t \<Rightarrow> conn list \<Rightarrow> sock option" where
  "await_connection mp [] = None"
| "await_connection mp (c # cs) =
    (case connect_to_server mp c of None \<Rightarrow> None | Some (Inl _) \<Rightarrow> await_connection mp cs | Some (Inr s) \<Rightarrow> Some s)"

text \<open>The accepted socket; \<open>None\<close> for \<open>accept\<close> failing, when the program ends.\<close>

definition wait_for_client :: "sock option \<Rightarrow> (mig_params_t \<times> sock) option" where
  "wait_for_client accepted = Option.bind accepted (\<lambda>s. map_option (\<lambda>(bs, s). (dec_params bs, s)) (sock_get s 12))"

section \<open>The source\<close>

record source =
  so_params :: mig_params_t
  so_ncores :: u32
  so_guest_size :: u64
  so_guest_mem :: u64
  so_elf_entry :: u64
  so_full_checkpoint :: bool
  so_clock_stable :: bool

text \<open>
  \<open>determine_guest_allocations\<close>: with \<open>None\<close> the event cannot be written and the list stays empty, otherwise the vCPU
  thread has set \<open>mem_mappings\<close> when the semaphore is posted.
\<close>

definition determine_guest_allocations :: "mem_mappings_t option \<Rightarrow> mem_mappings_t" where
  "determine_guest_allocations answer = (case answer of
       None \<Rightarrow> \<lparr>mem_chunks = \<lambda>_. \<lparr>c_size = 0, c_ptr = 0\<rparr>, count = 0\<rparr> | Some mm \<Rightarrow> mm)"

definition migration_metadata :: "source \<Rightarrow> migration_metadata_t" where
  "migration_metadata src =
    (let md = \<lparr>md_ncores = so_ncores src, md_guest_size = so_guest_size src, md_no_checkpoint = 0,
               md_elf_entry = so_elf_entry src, md_full_checkpoint = so_full_checkpoint src\<rparr>
     in if KVM_32BIT_GAP_START \<le> so_guest_size src - KVM_32BIT_GAP_SIZE
        then md\<lparr>md_guest_size := md_guest_size md - KVM_32BIT_GAP_SIZE\<rparr> else md)"

text \<open>
  \<open>answer\<close> is the list the guest's free list gives; \<open>hmem\<close>, \<open>vs\<close> and \<open>clock\<close> are the memory, the CPU states and the clock
  once the vCPU threads have stopped at the barrier.
\<close>

definition migration_handler ::
  "('v \<Rightarrow> bytes) \<Rightarrow> source \<Rightarrow> mem_mappings_t \<Rightarrow> mem_mappings_t option \<Rightarrow> conn list \<Rightarrow> gmem \<Rightarrow> 'v list \<Rightarrow> bytes \<Rightarrow> sock option" where
  "migration_handler enc_vs src malloced answer conns hmem vs clock =
    Option.bind (await_connection (so_params src) conns) (\<lambda>s.
    Option.bind (sock_put s (enc_metadata (migration_metadata src))) (\<lambda>s.
    let mem_mappings = determine_guest_allocations answer;
        guest_physical_memory = determine_guest_physical_memory_regions (so_guest_size src) malloced
    in Option.bind (send_mem_regions (so_params src) guest_physical_memory mem_mappings s) (\<lambda>s.
    let to_be_transferred = precopy_phase (so_params src) (convert_to_host_virt (so_guest_mem src) guest_physical_memory)
          (convert_to_host_virt (so_guest_mem src) mem_mappings)
    in Option.bind (stop_and_copy_phase (so_params src) hmem to_be_transferred s) (\<lambda>s.
    Option.bind (sock_put s (concat (map enc_vs vs))) (\<lambda>s.
    if so_clock_stable src then sock_put s clock else Some s)))))"

section \<open>The destination\<close>

definition wait_for_incomming_migration :: "sock option \<Rightarrow> (mig_params_t \<times> migration_metadata_t \<times> sock) option" where
  "wait_for_incomming_migration accepted =
    Option.bind (wait_for_client accepted) (\<lambda>(mp, s). map_option (\<lambda>(bs, s). (mp, dec_metadata bs, s)) (sock_get s 40))"

primrec dec_list :: "(bytes \<Rightarrow> 'v) \<Rightarrow> nat \<Rightarrow> nat \<Rightarrow> bytes \<Rightarrow> 'v list" where
  "dec_list dec sz 0 bs = []"
| "dec_list dec sz (Suc n) bs = dec (take sz bs) # dec_list dec sz n (drop sz bs)"

record 'v destination =
  de_hmem :: gmem
  de_klog :: "u64 option"
  de_kheader :: "u64 option"
  de_states :: "'v list"
  de_clock :: "u64 option"

text \<open>The addresses \<open>klog\<close> and \<open>kheader\<close> are offsets of \<open>guest_mem\<close>.\<close>

definition load_migration_data ::
  "(bytes \<Rightarrow> 'v) \<Rightarrow> nat \<Rightarrow> bool \<Rightarrow> u64 \<Rightarrow> u64 \<Rightarrow> u32 \<Rightarrow> 'v destination \<Rightarrow> sock \<Rightarrow> ('v destination \<times> sock) option" where
  "load_migration_data dec_vs sz cap_adjust_clock_stable guest_mem elf_entry ncores de s =
    (let de = (if de_klog de = None then de\<lparr>de_klog := Some (elf_entry + 0x5000)\<rparr> else de);
         de = (if de_kheader de = None then de\<lparr>de_kheader := Some elf_entry\<rparr> else de)
     in Option.bind (recv_mem_regions s) (\<lambda>(mem_mappings, s).
        Option.bind (recv_guest_mem (convert_to_host_virt guest_mem mem_mappings) (de_hmem de, s)) (\<lambda>(hmem, s).
        Option.bind (sock_get s (sz * unat ncores)) (\<lambda>(bs, s).
        let de = de\<lparr>de_hmem := hmem, de_states := dec_list dec_vs sz (unat ncores) bs\<rparr>
        in if cap_adjust_clock_stable
           then map_option (\<lambda>(clock, s). (de\<lparr>de_clock := Some (dec64 (take 8 clock))\<rparr>, s)) (sock_get s sizeof_clock)
           else Some (de, s)))))"

section \<open>Lemmas\<close>

lemma convert_loop:
  "n \<le> unat (count mm) \<Longrightarrow>
   let mm' = fold (\<lambda>i mm. mm\<lparr>mem_chunks := (mem_chunks mm)(word_of_nat i :=
             (mem_chunks mm (word_of_nat i))\<lparr>c_ptr := g + c_ptr (mem_chunks mm (word_of_nat i))\<rparr>)\<rparr>) [0..<n] mm
   in count mm' = count mm \<and> (\<forall>i < unat (count mm). mem_chunks mm' (word_of_nat i) =
        (if i < n then (mem_chunks mm (word_of_nat i))\<lparr>c_ptr := g + c_ptr (mem_chunks mm (word_of_nat i))\<rparr> else mem_chunks mm (word_of_nat i)))"
proof (induction n)
  case (Suc n)
  have ne: "(word_of_nat i :: u64) = word_of_nat n \<longleftrightarrow> i = n" if "i < unat (count mm)" for i
    using that Suc.prems unat_less_exp [of "count mm"] by (simp add: word_unat_eq_iff unat_word_of_nat_u64)
  show ?case
    using Suc ne by (auto simp: Let_def less_Suc_eq)
qed simp

lemma mapping_list_convert:
  "mapping_list (convert_to_host_virt g mm) = map (\<lambda>c. c\<lparr>c_ptr := g + c_ptr c\<rparr>) (mapping_list mm)"
  using convert_loop [of "unat (count mm)" mm g]
  by (auto simp: mapping_list_def convert_to_host_virt_def Let_def)

text \<open>The regions a migration transfers, and the bytes it sends.\<close>

definition transferred :: "source \<Rightarrow> mem_mappings_t \<Rightarrow> mem_mappings_t \<Rightarrow> mem_mappings_t" where
  "transferred src malloced mm = (if p_type (so_params src) = MIG_TYPE_LIVE
     then determine_guest_physical_memory_regions (so_guest_size src) malloced else mm)"

definition chunk_data :: "gmem \<Rightarrow> u64 \<Rightarrow> mem_mappings_t \<Rightarrow> bytes" where
  "chunk_data hmem g mm = concat (map (\<lambda>c. load_bytes hmem (g + c_ptr c) (unat (c_size c))) (mapping_list mm))"

definition migration_stream :: "('v \<Rightarrow> bytes) \<Rightarrow> source \<Rightarrow> mem_mappings_t \<Rightarrow> gmem \<Rightarrow> 'v list \<Rightarrow> bytes \<Rightarrow> bytes" where
  "migration_stream enc_vs src tr hmem vs clock =
     enc_params (so_params src) @ enc_metadata (migration_metadata src) @ enc64 (count tr) @ concat (map enc_chunk (mapping_list tr)) @
     chunk_data hmem (so_guest_mem src) tr @ concat (map enc_vs vs) @ (if so_clock_stable src then clock else [])"

lemma await_connection_skip:
  "\<forall>c \<in> set cs. c \<in> {ConnNoAddr, ConnNoSocket, ConnRefused} \<Longrightarrow> await_connection mp (cs @ ds) = await_connection mp ds"
  by (induction cs) (auto simp: connect_to_server_def)

lemma put_obtain:
  assumes "no_errors s" and "length bs < 2 ^ 64"
  obtains s' where "sock_put s bs = Some s'" and "no_errors s'" and "s_out s' = s_out s @ bs"
  using tcp.put [OF assms] by blast

lemma get_obtain:
  assumes "no_errors s" and "s_in s = bs @ rest" and "length bs = n" and "n < 2 ^ 64"
  obtains s' where "sock_get s n = Some (bs, s')" and "no_errors s'" and "s_in s' = rest"
  using tcp.get_message [OF assms(1,2)] assms(3,4) by auto

text \<open>What can be migrated: the guest has answered with a list of regions, or the whole guest memory is sent.\<close>

definition migratable :: "source \<Rightarrow> mem_mappings_t \<Rightarrow> mem_mappings_t \<Rightarrow> nat \<Rightarrow> 'v list \<Rightarrow> bytes \<Rightarrow> bool" where
  "migratable src malloced mm sz vs clock \<longleftrightarrow> (p_type (so_params src) = MIG_TYPE_LIVE \<or> count mm \<noteq> 0) \<and>
     16 * unat (count (transferred src malloced mm)) < 2 ^ 64 \<and> length vs = unat (so_ncores src) \<and>
     sz * unat (so_ncores src) < 2 ^ 64 \<and> length clock = sizeof_clock"

lemma length_enc_list: "codec enc dec sz \<Longrightarrow> length (concat (map enc xs)) = sz * length xs"
  by (induction xs) (simp_all add: codec.length_enc)

text \<open>The first messages of both sides: parameters, metadata, regions.\<close>

lemma source_prefix:
  assumes "no_errors s" and "16 * unat (count tr) < 2 ^ 64"
    and "tr = (if p_type (so_params src) = MIG_TYPE_LIVE \<or> count mm = 0 then gp else mm)"
  obtains s1 s2 s3 where "sock_put s (enc_params (so_params src)) = Some s1"
    and "sock_put s1 (enc_metadata (migration_metadata src)) = Some s2"
    and "send_mem_regions (so_params src) gp mm s2 = Some s3" and "no_errors s3"
    and "s_out s3 = s_out s @ enc_params (so_params src) @ enc_metadata (migration_metadata src) @
       enc64 (count tr) @ concat (map enc_chunk (mapping_list tr))"
proof -
  obtain s1 where 1: "sock_put s (enc_params (so_params src)) = Some s1" "no_errors s1" "s_out s1 = s_out s @ enc_params (so_params src)"
    using put_obtain [OF assms(1), of "enc_params (so_params src)"] by (auto simp: params.length_enc)
  obtain s2 where 2: "sock_put s1 (enc_metadata (migration_metadata src)) = Some s2" "no_errors s2"
      "s_out s2 = s_out s1 @ enc_metadata (migration_metadata src)"
    using put_obtain [OF 1(2), of "enc_metadata (migration_metadata src)"] by (auto simp: metadata.length_enc)
  show thesis
    using send_mem_regions_out [OF 2(2) assms(3,2)] 1 2 that by auto
qed

lemma destination_prefix:
  assumes "no_errors r" and "s_in r = enc_params (so_params src) @ enc_metadata (migration_metadata src) @
      enc64 (count tr) @ concat (map enc_chunk (mapping_list tr)) @ rest" and "16 * unat (count tr) < 2 ^ 64"
  obtains r1 mm r2 where "wait_for_incomming_migration (Some r) = Some (so_params src, migration_metadata src, r1)"
    and "recv_mem_regions r1 = Some (mm, r2)" and "mapping_list mm = mapping_list tr" and "no_errors r2" and "s_in r2 = rest"
proof -
  obtain r0 where 0: "sock_get r 12 = Some (enc_params (so_params src), r0)" "no_errors r0"
    "s_in r0 = enc_metadata (migration_metadata src) @ enc64 (count tr) @ concat (map enc_chunk (mapping_list tr)) @ rest"
    using get_obtain [OF assms(1,2), of 12] by (auto simp: params.length_enc)
  obtain r1 where 1: "sock_get r0 40 = Some (enc_metadata (migration_metadata src), r1)" "no_errors r1"
    "s_in r1 = enc64 (count tr) @ concat (map enc_chunk (mapping_list tr)) @ rest"
    using get_obtain [OF 0(2,3), of 40] by (auto simp: metadata.length_enc)
  have "wait_for_incomming_migration (Some r) = Some (so_params src, migration_metadata src, r1)"
    using 0(1) 1(1) by (simp add: wait_for_incomming_migration_def wait_for_client_def params.dec_enc metadata.dec_enc)
  then show thesis
    using recv_mem_regions_sent [OF 1(2,3) assms(3)] that by blast
qed

lemma migration_handler_sends:
  assumes "codec enc_vs dec_vs sz" and "migratable src malloced mm sz vs clock"
    and "\<forall>c \<in> set cs. c \<in> {ConnNoAddr, ConnNoSocket, ConnRefused}" and "no_errors s" and "s_out s = []"
  shows "\<exists>s'. migration_handler enc_vs src malloced (Some mm) (cs @ Connected s # ds) hmem vs clock = Some s' \<and>
    s_out s' = migration_stream enc_vs src (transferred src malloced mm) hmem vs clock"
proof -
  let ?tr = "transferred src malloced mm"
  let ?gp = "determine_guest_physical_memory_regions (so_guest_size src) malloced"
  note m = assms(2) [unfolded migratable_def]
  have len: "length (concat (map enc_vs vs)) = sz * length vs"
    by (rule length_enc_list [OF assms(1)])
  have tr: "?tr = (if p_type (so_params src) = MIG_TYPE_LIVE \<or> count mm = 0 then ?gp else mm)"
    using m by (auto simp: transferred_def)
  obtain s1 s2 s3 where 1: "sock_put s (enc_params (so_params src)) = Some s1"
    and 2: "sock_put s1 (enc_metadata (migration_metadata src)) = Some s2"
    and 3: "send_mem_regions (so_params src) ?gp mm s2 = Some s3" "no_errors s3"
      "s_out s3 = s_out s @ enc_params (so_params src) @ enc_metadata (migration_metadata src) @
         enc64 (count ?tr) @ concat (map enc_chunk (mapping_list ?tr))"
    using source_prefix [OF assms(4) _ tr] m by blast
  let ?cs = "mapping_list (precopy_phase (so_params src) (convert_to_host_virt (so_guest_mem src) ?gp) (convert_to_host_virt (so_guest_mem src) mm))"
  have cs: "?cs = map (\<lambda>c. c\<lparr>c_ptr := so_guest_mem src + c_ptr c\<rparr>) (mapping_list ?tr)"
    by (simp add: precopy_phase_def transferred_def mapping_list_convert)
  obtain s4 where 4: "send_chunks hmem ?cs s3 = Some s4" "no_errors s4" "s_out s4 = s_out s3 @ chunk_data hmem (so_guest_mem src) ?tr"
    using send_chunks_out [OF 3(2), of hmem ?cs] by (auto simp: cs chunk_data_def comp_def)
  obtain s5 where 5: "sock_put s4 (concat (map enc_vs vs)) = Some s5" "no_errors s5" "s_out s5 = s_out s4 @ concat (map enc_vs vs)"
    using put_obtain [OF 4(2), of "concat (map enc_vs vs)"] len m by auto
  obtain s6 where 6: "sock_put s5 clock = Some s6" "no_errors s6" "s_out s6 = s_out s5 @ clock"
    using put_obtain [OF 5(2), of clock] m by (auto simp: sizeof_clock_def)
  have "await_connection (so_params src) (cs @ Connected s # ds) = Some s1"
    using await_connection_skip [OF assms(3)] 1 by (simp add: connect_to_server_def)
  then have "migration_handler enc_vs src malloced (Some mm) (cs @ Connected s # ds) hmem vs clock =
      (if so_clock_stable src then Some s6 else Some s5)"
    using 2 3 4 5 6 by (simp add: migration_handler_def determine_guest_allocations_def stop_and_copy_phase_def Let_def split: mig_mode_t.split)
  then show ?thesis
    using 1 2 3 4 5 6 assms(5) by (auto simp: migration_stream_def)
qed

lemma dec_list_enc:
  "codec enc dec sz \<Longrightarrow> dec_list dec sz (length xs) (concat (map enc xs)) = xs"
  by (induction xs) (simp_all add: codec.length_enc codec.dec_enc)

lemma load_bytes_shift: "load_bytes (\<lambda>x. m (x - g + h)) (g + p) n = load_bytes m (h + p) n"
  by (simp add: load_bytes_def add.commute add.left_commute)

lemma in_shifted_chunk: "in_chunk (g + a) (c\<lparr>c_ptr := g + c_ptr c\<rparr>) \<longleftrightarrow> in_chunk a c"
  by (simp add: in_chunk_def in_run_def)

text \<open>Receiving the memory, whatever the addresses at which the two processes have mapped it.\<close>

lemma recv_guest_mem_sent:
  assumes "no_errors s" and "s_in s = chunk_data hmem h tr @ rest" and "mapping_list mm = mapping_list tr"
  shows "\<exists>hmem' s'. recv_guest_mem (convert_to_host_virt g mm) (hmem0, s) = Some (hmem', s') \<and> no_errors s' \<and> s_in s' = rest \<and>
    (\<forall>a. hmem' (g + a) = (if covered a tr then hmem (h + a) else hmem0 (g + a)))"
proof -
  let ?src = "\<lambda>x. hmem (x - g + h)"
  let ?cs = "map (\<lambda>c. c\<lparr>c_ptr := g + c_ptr c\<rparr>) (mapping_list tr)"
  have "s_in s = concat (map (\<lambda>c. load_bytes ?src (c_ptr c) (unat (c_size c))) ?cs) @ rest"
    using assms(2) by (simp add: chunk_data_def comp_def load_bytes_shift)
  from recv_chunks_at [OF assms(1) this, of hmem0] obtain hmem' s' where
    r: "recv_chunks ?cs (hmem0, s) = Some (hmem', s')" "no_errors s'" "s_in s' = rest"
    and e: "\<And>x. hmem' x = (if list_ex (in_chunk x) ?cs then ?src x else hmem0 x)" by blast
  have "list_ex (in_chunk (g + a)) ?cs \<longleftrightarrow> covered a tr" for a
    by (simp add: covered_def list_ex_iff in_shifted_chunk)
  then have "hmem' (g + a) = (if covered a tr then hmem (h + a) else hmem0 (g + a))" for a
    using e [of "g + a"] by (simp add: add.commute)
  then show ?thesis
    using r by (simp add: recv_guest_mem_def mapping_list_convert assms(3))
qed

lemma destination_receives:
  assumes "codec enc_vs dec_vs sz" and "migratable src malloced mm sz vs clock" and "no_errors r"
    and "s_in r = migration_stream enc_vs src (transferred src malloced mm) hmem vs clock"
  shows "\<exists>r1 de' r2. wait_for_incomming_migration (Some r) = Some (so_params src, migration_metadata src, r1) \<and>
    load_migration_data dec_vs sz (so_clock_stable src) g (so_elf_entry src) (so_ncores src) de r1 = Some (de', r2) \<and> s_in r2 = [] \<and>
    de_states de' = vs \<and> de_clock de' = (if so_clock_stable src then Some (dec64 (take 8 clock)) else de_clock de) \<and>
    (\<forall>a. de_hmem de' (g + a) = (if covered a (transferred src malloced mm) then hmem (so_guest_mem src + a) else de_hmem de (g + a)))"
proof -
  let ?tr = "transferred src malloced mm"
  let ?st = "concat (map enc_vs vs)"
  note m = assms(2) [unfolded migratable_def]
  have len: "length ?st = sz * unat (so_ncores src)"
    using length_enc_list [OF assms(1), of vs] m by simp
  obtain r1 mm' r2 where w: "wait_for_incomming_migration (Some r) = Some (so_params src, migration_metadata src, r1)"
    and 2: "recv_mem_regions r1 = Some (mm', r2)" "mapping_list mm' = mapping_list ?tr" "no_errors r2"
    "s_in r2 = chunk_data hmem (so_guest_mem src) ?tr @ ?st @ (if so_clock_stable src then clock else [])"
    using destination_prefix [OF assms(3,4) [unfolded migration_stream_def]] m by blast
  obtain hmem' r3 where 3: "recv_guest_mem (convert_to_host_virt g mm') (de_hmem de, r2) = Some (hmem', r3)" "no_errors r3"
    "s_in r3 = ?st @ (if so_clock_stable src then clock else [])"
    "\<forall>a. hmem' (g + a) = (if covered a ?tr then hmem (so_guest_mem src + a) else de_hmem de (g + a))"
    using recv_guest_mem_sent [OF 2(3,4,2), of g "de_hmem de"] by blast
  obtain r4 where 4: "sock_get r3 (sz * unat (so_ncores src)) = Some (?st, r4)" "no_errors r4"
    "s_in r4 = (if so_clock_stable src then clock else [])"
    using get_obtain [OF 3(2,3) len] m by blast
  have vs: "dec_list dec_vs sz (unat (so_ncores src)) ?st = vs"
    using dec_list_enc [OF assms(1), of vs] m by simp
  show ?thesis
  proof (cases "so_clock_stable src")
    case False
    then show ?thesis
      using w 2 3 4 vs by (simp add: load_migration_data_def Let_def)
  next
    case True
    obtain r5 where "sock_get r4 sizeof_clock = Some (clock, r5)" "s_in r5 = []"
      using get_obtain [OF 4(2), of clock "[]" sizeof_clock] 4(3) True m by (auto simp: sizeof_clock_def)
    then show ?thesis
      using w 2 3 4 vs True by (simp add: load_migration_data_def Let_def)
  qed
qed

lemma metadata_sizes:
  assumes "so_guest_size src = alloc_size gs" and "unat gs + 0x60000000 < 2 ^ 64"
  shows "alloc_size (md_guest_size (migration_metadata src)) = so_guest_size src"
proof -
  have "unat (gs + 0x30000000) = unat gs + 0x30000000"
    using assms(2) by (subst unat_add_lem [THEN iffD1]) simp_all
  moreover have "unat (gs - 0x30000000) = (if 0x30000000 \<le> unat gs then unat gs - 0x30000000 else 2 ^ 64 + unat gs - 0x30000000)"
    by (simp add: unat_sub_if_size word_size)
  ultimately show ?thesis
    using assms by (auto simp: migration_metadata_def alloc_size_def gap_val word_less_nat_alt word_le_nat_alt Let_def)
qed

section \<open>Properties\<close>

text \<open>
  C35.  A migration over TCP.  When the connections before the first successful one failed with an error and the sockets
  lose nothing, the source's handler ends, and a destination that reads what it sent gets the same parameters, core count and entry
  point, allocates guest memory of the same size, and after \<open>load_migration_data\<close> has the source's CPU states, clock and,
  at every guest address in a transferred region, the source's byte; all other memory is unchanged and nothing is left on the
  connection.
\<close>

theorem migration_transfers:
  assumes "codec enc_vs dec_vs sz" and "migratable src malloced mm sz vs clock"
    and "\<forall>c \<in> set cs. c \<in> {ConnNoAddr, ConnNoSocket, ConnRefused}" and "no_errors s" and "s_out s = []"
    and "so_guest_size src = alloc_size gs" and "unat gs + 0x60000000 < 2 ^ 64"
  shows "\<exists>s'. migration_handler enc_vs src malloced (Some mm) (cs @ Connected s # ds) hmem vs clock = Some s' \<and>
    (\<forall>r g de. no_errors r \<and> s_in r = s_out s' \<longrightarrow>
      (\<exists>md r1 de' r2. wait_for_incomming_migration (Some r) = Some (so_params src, md, r1) \<and>
        md_ncores md = so_ncores src \<and> md_elf_entry md = so_elf_entry src \<and> alloc_size (md_guest_size md) = so_guest_size src \<and>
        load_migration_data dec_vs sz (so_clock_stable src) g (md_elf_entry md) (md_ncores md) de r1 = Some (de', r2) \<and> s_in r2 = [] \<and>
        de_states de' = vs \<and> de_clock de' = (if so_clock_stable src then Some (dec64 (take 8 clock)) else de_clock de) \<and>
        (\<forall>a. de_hmem de' (g + a) =
           (if covered a (transferred src malloced mm) then hmem (so_guest_mem src + a) else de_hmem de (g + a)))))"
proof -
  obtain s' where s': "migration_handler enc_vs src malloced (Some mm) (cs @ Connected s # ds) hmem vs clock = Some s'"
    and out: "s_out s' = migration_stream enc_vs src (transferred src malloced mm) hmem vs clock"
    using migration_handler_sends [OF assms(1-5)] by blast
  have md: "md_ncores (migration_metadata src) = so_ncores src" "md_elf_entry (migration_metadata src) = so_elf_entry src"
    by (simp_all add: migration_metadata_def Let_def)
  show ?thesis
  proof (intro exI conjI, rule s', intro allI impI)
    fix r g and de :: "'a destination" assume r: "no_errors r \<and> s_in r = s_out s'"
    from destination_receives [OF assms(1,2), of r hmem g de] r out metadata_sizes [OF assms(6,7)] md
    show "\<exists>md r1 de' r2. wait_for_incomming_migration (Some r) = Some (so_params src, md, r1) \<and>
        md_ncores md = so_ncores src \<and> md_elf_entry md = so_elf_entry src \<and> alloc_size (md_guest_size md) = so_guest_size src \<and>
        load_migration_data dec_vs sz (so_clock_stable src) g (md_elf_entry md) (md_ncores md) de r1 = Some (de', r2) \<and> s_in r2 = [] \<and>
        de_states de' = vs \<and> de_clock de' = (if so_clock_stable src then Some (dec64 (take 8 clock)) else de_clock de) \<and>
        (\<forall>a. de_hmem de' (g + a) =
           (if covered a (transferred src malloced mm) then hmem (so_guest_mem src + a) else de_hmem de (g + a)))"
      by (metis (no_types, lifting))
  qed
qed

definition sample_source :: source where
  "sample_source = \<lparr>so_params = default_mig_params, so_ncores = 1, so_guest_size = 0x4000000, so_guest_mem = 0x7f0000000000,
     so_elf_entry = 0x100000, so_full_checkpoint = False, so_clock_stable = True\<rparr>"

definition sample_regions :: mem_mappings_t where
  "sample_regions = \<lparr>mem_chunks = \<lambda>_. \<lparr>c_size = 0x1000, c_ptr = 0x800000\<rparr>, count = 1\<rparr>"

definition sample_destination :: "u64 destination" where
  "sample_destination = \<lparr>de_hmem = \<lambda>_. 0, de_klog = None, de_kheader = None, de_states = [], de_clock = None\<rparr>"

theorem migration_transfers_witness:
  "\<exists>s' md r1 de' r2. migration_handler enc64 sample_source sample_regions (Some sample_regions)
      [ConnRefused, Connected \<lparr>s_in = [], s_out = [], s_script = [IoChunk 5]\<rparr>] (\<lambda>x. ucast x) [42] (replicate 48 1) = Some s' \<and>
    wait_for_incomming_migration (Some \<lparr>s_in = s_out s', s_out = [], s_script = [IoChunk 3]\<rparr>) = Some (default_mig_params, md, r1) \<and>
    load_migration_data dec64 8 True 0x7e0000000000 (md_elf_entry md) (md_ncores md) sample_destination r1 = Some (de', r2) \<and>
    de_states de' = [42] \<and> de_hmem de' (0x7e0000000000 + 0x800007) = 7"
proof -
  let ?s = "\<lparr>s_in = [], s_out = [], s_script = [IoChunk 5]\<rparr>"
  have c: "codec enc64 dec64 8" by (rule c64.codec_axioms)
  have m: "migratable sample_source sample_regions sample_regions 8 [42 :: u64] (replicate 48 1)"
    by (simp add: migratable_def sample_source_def sample_regions_def transferred_def default_mig_params_def sizeof_clock_def)
  have cov: "covered 0x800007 (transferred sample_source sample_regions sample_regions)"
    by (simp add: covered_def mapping_list_def transferred_def sample_source_def sample_regions_def default_mig_params_def in_chunk_def in_run_def)
  have gs: "so_guest_size sample_source = alloc_size 0x4000000"
    by (simp add: sample_source_def alloc_size_def gap_val)
  obtain s' where h: "migration_handler enc64 sample_source sample_regions (Some sample_regions) ([ConnRefused] @ Connected ?s # [])
      (\<lambda>x. ucast x) [42] (replicate 48 1) = Some s'"
    and d: "\<forall>r g de. no_errors r \<and> s_in r = s_out s' \<longrightarrow>
      (\<exists>md r1 de' r2. wait_for_incomming_migration (Some r) = Some (so_params sample_source, md, r1) \<and>
        md_ncores md = so_ncores sample_source \<and> md_elf_entry md = so_elf_entry sample_source \<and>
        alloc_size (md_guest_size md) = so_guest_size sample_source \<and>
        load_migration_data dec64 8 (so_clock_stable sample_source) g (md_elf_entry md) (md_ncores md) de r1 = Some (de', r2) \<and>
        s_in r2 = [] \<and> de_states de' = [42] \<and>
        de_clock de' = (if so_clock_stable sample_source then Some (dec64 (take 8 (replicate 48 1))) else de_clock de) \<and>
        (\<forall>a. de_hmem de' (g + a) = (if covered a (transferred sample_source sample_regions sample_regions)
           then ucast (so_guest_mem sample_source + a) else de_hmem de (g + a))))"
    using migration_transfers [OF c m _ _ _ gs, of "[ConnRefused]" ?s "[]" "\<lambda>x. ucast x"] by (auto simp: no_errors_def)
  from d [rule_format, of "\<lparr>s_in = s_out s', s_out = [], s_script = [IoChunk 3]\<rparr>" "0x7e0000000000" sample_destination]
  obtain md r1 de' r2 where
    w: "wait_for_incomming_migration (Some \<lparr>s_in = s_out s', s_out = [], s_script = [IoChunk 3]\<rparr>) = Some (default_mig_params, md, r1)"
    and l: "load_migration_data dec64 8 True 0x7e0000000000 (md_elf_entry md) (md_ncores md) sample_destination r1 = Some (de', r2)"
    and v: "de_states de' = [42]" and a: "\<And>a. de_hmem de' (0x7e0000000000 + a) =
      (if covered a (transferred sample_source sample_regions sample_regions) then ucast (0x7f0000000000 + a) else 0)"
    by (auto simp: no_errors_def sample_source_def sample_destination_def)
  have "de_hmem de' (0x7e0000000000 + 0x800007) = 7"
    using a [of "0x800007"] cov by simp
  with h w l v show ?thesis by auto
qed

text \<open>
  C38.  A cold migration without a list of regions (the guest could not be asked for its free list) announces the guest-physical
  memory as regions to be transferred but sends no memory: the destination takes the CPU states and the clock for memory and then
  waits forever.
\<close>

theorem cold_migration_without_regions:
  assumes "codec enc_vs dec_vs sz" and "p_type (so_params src) = MIG_TYPE_COLD" and "so_guest_size src < KVM_32BIT_GAP_START"
    and "sz * unat (so_ncores src) + sizeof_clock < unat (so_guest_size src)" and "length vs = unat (so_ncores src)" and "length clock = sizeof_clock"
    and "no_errors s" and "s_out s = []"
  shows "\<exists>s'. migration_handler enc_vs src malloced None [Connected s] hmem vs clock = Some s' \<and>
    (\<forall>r g de. no_errors r \<and> s_in r = s_out s' \<longrightarrow>
      (\<exists>md r1. wait_for_incomming_migration (Some r) = Some (so_params src, md, r1) \<and>
        load_migration_data dec_vs sz cap_clock g (md_elf_entry md) (md_ncores md) de r1 = None))"
proof -
  let ?gp = "determine_guest_physical_memory_regions (so_guest_size src) malloced"
  let ?mm = "determine_guest_allocations None"
  let ?cl = "if so_clock_stable src then clock else []"
  have len: "length (concat (map enc_vs vs)) = sz * unat (so_ncores src)"
    using length_enc_list [OF assms(1), of vs] assms(5) by simp
  have small: "sz * unat (so_ncores src) < 2 ^ 64" "length clock < 2 ^ 64"
    using assms(4,6) unat_less_exp [of "so_guest_size src"] by (auto simp: sizeof_clock_def)
  have gp: "count ?gp = 1" "mapping_list ?gp = [\<lparr>c_size = so_guest_size src, c_ptr = 0\<rparr>]"
    using assms(3) by (auto simp: determine_guest_physical_memory_regions_def mapping_list_def)
  have mm: "count ?mm = 0" by (simp add: determine_guest_allocations_def)
  obtain s1 s2 s3 where 1: "sock_put s (enc_params (so_params src)) = Some s1"
    and 2: "sock_put s1 (enc_metadata (migration_metadata src)) = Some s2"
    and 3: "send_mem_regions (so_params src) ?gp ?mm s2 = Some s3" "no_errors s3"
      "s_out s3 = s_out s @ enc_params (so_params src) @ enc_metadata (migration_metadata src) @
         enc64 (count ?gp) @ concat (map enc_chunk (mapping_list ?gp))"
    using source_prefix [OF assms(7), of ?gp src ?mm ?gp] mm gp(1) by auto
  obtain s5 where 5: "sock_put s3 (concat (map enc_vs vs)) = Some s5" "no_errors s5" "s_out s5 = s_out s3 @ concat (map enc_vs vs)"
    using put_obtain [OF 3(2), of "concat (map enc_vs vs)"] len small by auto
  obtain s6 where 6: "sock_put s5 clock = Some s6" "s_out s6 = s_out s5 @ clock"
    using put_obtain [OF 5(2) small(2)] by blast
  let ?s' = "if so_clock_stable src then s6 else s5"
  have none: "mapping_list (precopy_phase (so_params src) a (convert_to_host_virt h ?mm)) = []" for a h
    using mm assms(2) by (simp add: precopy_phase_def mapping_list_convert) (simp add: mapping_list_def)
  have h: "migration_handler enc_vs src malloced None [Connected s] hmem vs clock = Some ?s'"
    using 1 2 3 5 6 none by (simp add: migration_handler_def connect_to_server_def stop_and_copy_phase_def Let_def split: mig_mode_t.split)
  have out: "s_out ?s' = enc_params (so_params src) @ enc_metadata (migration_metadata src) @
      enc64 (count ?gp) @ concat (map enc_chunk (mapping_list ?gp)) @ concat (map enc_vs vs) @ ?cl"
    using 1 2 3 5 6 assms(8) by auto
  show ?thesis
  proof (intro exI conjI, rule h, intro allI impI)
    fix r g and de :: "'a destination" assume r: "no_errors r \<and> s_in r = s_out ?s'"
    have in_r: "s_in r = enc_params (so_params src) @ enc_metadata (migration_metadata src) @
        enc64 (count ?gp) @ concat (map enc_chunk (mapping_list ?gp)) @ concat (map enc_vs vs) @ ?cl" and c1: "16 * unat (count ?gp) < 2 ^ 64"
      using r out gp(1) by simp_all
    obtain r1 mm' r2 where w: "wait_for_incomming_migration (Some r) = Some (so_params src, migration_metadata src, r1)"
      and r2: "recv_mem_regions r1 = Some (mm', r2)" "mapping_list mm' = mapping_list ?gp" "no_errors r2"
      "s_in r2 = concat (map enc_vs vs) @ ?cl"
      using destination_prefix [OF _ in_r c1] r by blast
    have short: "recv_data r2 (load_bytes hm a (unat (so_guest_size src))) = None" for hm a
      using r2(3,4) len assms(4,6) unat_less_exp [of "so_guest_size src"] by (intro recv_data_short) auto
    have l: "load_migration_data dec_vs sz cap_clock g e n de r1 = None" for e n
      using r2(1) short by (simp add: load_migration_data_def Let_def recv_guest_mem_def mapping_list_convert r2(2) gp(2))
    from w l show "\<exists>md r1. wait_for_incomming_migration (Some r) = Some (so_params src, md, r1) \<and>
        load_migration_data dec_vs sz cap_clock g (md_elf_entry md) (md_ncores md) de r1 = None"
      by blast
  qed
qed

theorem cold_migration_without_regions_witness:
  "\<exists>s' md r1. migration_handler enc64 sample_source sample_regions None
      [Connected \<lparr>s_in = [], s_out = [], s_script = []\<rparr>] (\<lambda>_. 0) [42] (replicate 48 1) = Some s' \<and>
    wait_for_incomming_migration (Some \<lparr>s_in = s_out s', s_out = [], s_script = []\<rparr>) = Some (default_mig_params, md, r1) \<and>
    load_migration_data dec64 8 True 0 (md_elf_entry md) (md_ncores md) sample_destination r1 = None"
proof -
  let ?s = "\<lparr>s_in = [], s_out = [], s_script = []\<rparr>"
  have "\<exists>s'. migration_handler enc64 sample_source sample_regions None [Connected ?s] (\<lambda>_. 0) [42] (replicate 48 1) = Some s' \<and>
    (\<forall>r g (de :: u64 destination). no_errors r \<and> s_in r = s_out s' \<longrightarrow>
      (\<exists>md r1. wait_for_incomming_migration (Some r) = Some (so_params sample_source, md, r1) \<and>
        load_migration_data dec64 8 True g (md_elf_entry md) (md_ncores md) de r1 = None))"
    by (rule cold_migration_without_regions [OF c64.codec_axioms])
      (simp_all add: sample_source_def default_mig_params_def gap_val sizeof_clock_def no_errors_def)
  then obtain s' where h: "migration_handler enc64 sample_source sample_regions None [Connected ?s] (\<lambda>_. 0) [42] (replicate 48 1) = Some s'"
    and d: "\<And>r g (de :: u64 destination). no_errors r \<and> s_in r = s_out s' \<Longrightarrow>
      (\<exists>md r1. wait_for_incomming_migration (Some r) = Some (so_params sample_source, md, r1) \<and>
        load_migration_data dec64 8 True g (md_elf_entry md) (md_ncores md) de r1 = None)"
    by blast
  from d [of "\<lparr>s_in = s_out s', s_out = [], s_script = []\<rparr>" 0 sample_destination] h show ?thesis
    by (auto simp: no_errors_def sample_source_def)
qed

text \<open>
  A guest of less than 768 MByte: its size survives by wrap-around only, and the destination protects a gap behind
  the end of the memory it has mapped.
\<close>

lemma small_guest_destination:
  assumes "so_guest_size src < KVM_32BIT_GAP_SIZE" and "init_kvm_arch he (md_guest_size (migration_metadata src)) = Some k"
  shows "ka_guest_size k = so_guest_size src \<and> ka_protected k = Some (ka_guest_mem k + KVM_32BIT_GAP_START, KVM_32BIT_GAP_SIZE)"
proof -
  have "unat (so_guest_size src - 0x30000000) = 2 ^ 64 + unat (so_guest_size src) - 0x30000000"
    using assms(1) by (simp add: unat_sub_if_size word_size gap_val word_less_nat_alt)
  then have g: "KVM_32BIT_GAP_START \<le> so_guest_size src - KVM_32BIT_GAP_SIZE"
    by (simp add: gap_val word_le_nat_alt)
  then show ?thesis
    using assms(2) by (auto simp: init_kvm_arch_def migration_metadata_def alloc_size_def Let_def not_less split: option.splits if_splits)
qed

end
