(* ===== verification/Net_Config.thy ===== *)
theory Net_Config
  imports C_Text
begin

text \<open>
  The configuration of the network interface, \<open>src/uhyve-net.c\<close>: \<open>attach_linux_tap\<close> opens the tap device,
  \<open>uhyve_set_mac\<close> takes the guest's MAC address from the environment or draws a random one, \<open>uhyve_net_init\<close> does
  both.  Strings are byte lists without the terminating zero.  What the operating system answers is the record
  \<open>tap_env\<close>.
\<close>

unbundle bit_operations_syntax

section \<open>The MAC address\<close>

definition dehex :: "u8 \<Rightarrow> u8" where
  "dehex c = (if 0x30 \<le> c \<and> c \<le> 0x39 then c - 0x30
              else if 0x61 \<le> c \<and> c \<le> 0x66 then 10 + (c - 0x61)
              else if 0x41 \<le> c \<and> c \<le> 0x46 then 10 + (c - 0x41)
              else 0)"

definition isxdigit :: "u8 \<Rightarrow> bool" where
  "isxdigit c \<longleftrightarrow> 0x30 \<le> c \<and> c \<le> 0x39 \<or> 0x61 \<le> c \<and> c \<le> 0x66 \<or> 0x41 \<le> c \<and> c \<le> 0x46"

text \<open>
  The loop that checks the string: \<open>i\<close> counts hex digits, \<open>s\<close> colons, and a colon after a number of digits that
  does not fit ends the loop, with \<open>s\<close> already incremented.
\<close>

fun mac_scan :: "bytes \<Rightarrow> int \<Rightarrow> int \<Rightarrow> int \<times> int" where
  "mac_scan [] i s = (i, s)"
| "mac_scan (c # v_macptr) i s =
    (if isxdigit c then mac_scan v_macptr (i + 1) s
     else if c = colon
     then if i div 2 - 1 \<noteq> s then (i, s + 1) else mac_scan v_macptr i (s + 1)
     else mac_scan v_macptr i (-1))"

definition mac_valid :: "bytes \<Rightarrow> bool" where
  "mac_valid str \<longleftrightarrow> (case mac_scan str 0 0 of (i, s) \<Rightarrow> \<not> (i \<noteq> 12 \<or> s \<noteq> 5))"

text \<open>\<open>snprintf\<close> copies at most 19 characters into \<open>guest_mac_str\<close> and ends them with a zero.\<close>

definition guest_mac_str :: "bytes \<Rightarrow> bytes" where
  "guest_mac_str str = (let t = take 19 str in t @ replicate (20 - length t) 0)"

definition mac_parse :: "bytes \<Rightarrow> bytes" where
  "mac_parse hermit_mac =
     map (\<lambda>i. push_bit 4 (dehex (hermit_mac ! (3 * i))) OR dehex (hermit_mac ! (3 * i + 1))) [0..<6]"

definition mac_random :: "bytes \<Rightarrow> bytes" where
  "mac_random rnd = rnd[0 := (rnd ! 0 AND 0xfe) OR 0x02]"

text \<open>The format \<open>"%02x:%02x:%02x:%02x:%02x:%02x"\<close>.\<close>

definition mac_format :: "bytes \<Rightarrow> bytes" where
  "mac_format mac = concat (map (\<lambda>i. (if i = 0 then [] else [colon]) @ hex_digits (mac ! i)) [0..<6])"

datatype net_exit = UrandomOpen | UrandomShort | NoNetif | NotAttached

text \<open>\<open>uhyve_set_mac\<close>: \<open>env\<close> is \<open>HERMIT_NETIF_MAC\<close>, \<open>urandom\<close> what reading six bytes gives, \<open>None\<close> when the file does not open.\<close>

definition uhyve_set_mac :: "bytes option \<Rightarrow> bytes option \<Rightarrow> net_exit + bytes" where
  "uhyve_set_mac env urandom =
    (case (case env of
             Some str \<Rightarrow> if mac_valid str then Some (mac_parse (guest_mac_str str)) else None
           | None \<Rightarrow> None) of
       Some guest_mac \<Rightarrow> Inr guest_mac
     | None \<Rightarrow>
         (case urandom of
            None \<Rightarrow> Inl UrandomOpen
          | Some rnd \<Rightarrow> if length rnd = 6 then Inr (mac_random rnd) else Inl UrandomShort))"

section \<open>The tap device\<close>

record tap_env =
  fcntl_ok :: "int \<Rightarrow> bool"
  tun_fd :: int
  tunsetiff :: "int \<Rightarrow> bytes \<Rightarrow> bytes option"
  write_eio :: "int \<Rightarrow> bool"

definition IFNAMSIZ :: nat where "IFNAMSIZ = 16"

text \<open>
  The result of \<open>attach_linux_tap\<close> is the returned descriptor and the descriptors it closes.  \<open>tunsetiff\<close> answers
  the name the kernel stored in \<open>ifr_name\<close>, \<open>None\<close> for a failing call.
\<close>

definition attach_linux_tap :: "tap_env \<Rightarrow> bytes \<Rightarrow> int \<times> int list" where
  "attach_linux_tap env dev =
    (if dev \<noteq> [] \<and> hd dev = 0x40
     then let fd = atoi (tl dev) in if \<not> fcntl_ok env fd then (-1, []) else (fd, [])
     else let fd = tun_fd env
          in if IFNAMSIZ < length dev then (-1, [])
             else let ifr_name = dev @ replicate (IFNAMSIZ - length dev) 0
                  in case tunsetiff env fd ifr_name of
                       None \<Rightarrow> (-1, [fd])
                     | Some name \<Rightarrow>
                         if c_string (take IFNAMSIZ name) \<noteq> dev then (-1, [fd])
                         else if write_eio env fd then (-1, [fd])
                         else (fd, []))"

definition uhyve_net_init :: "tap_env \<Rightarrow> bytes option \<Rightarrow> bytes option \<Rightarrow> bytes option \<Rightarrow> net_exit + int \<times> bytes" where
  "uhyve_net_init env mac urandom netif =
    (case netif of
       None \<Rightarrow> Inl NoNetif
     | Some dev \<Rightarrow>
         (let netfd = fst (attach_linux_tap env dev)
          in if netfd < 0 then Inl NotAttached
             else case uhyve_set_mac mac urandom of Inl e \<Rightarrow> Inl e | Inr guest_mac \<Rightarrow> Inr (netfd, guest_mac)))"

section \<open>Lemmas\<close>

lemma dehex_all: "list_all (\<lambda>k. dehex (hexchars ! k) = word_of_nat k \<and> isxdigit (hexchars ! k)) [0..<16]"
  by code_simp

lemma dehex_hexchars: "n < 16 \<Longrightarrow> dehex (hexchars ! n) = word_of_nat n \<and> isxdigit (hexchars ! n)"
  using dehex_all by (simp add: list_all_iff)

lemma dehex_digits: "hex_digits b = [h, l] \<Longrightarrow> push_bit 4 (dehex h) OR dehex l = b"
proof -
  assume h: "hex_digits b = [h, l]"
  have "push_bit 4 (drop_bit 4 b) OR (b mod 16) = b"
  proof -
    have "b mod 16 = take_bit 4 b" by (simp add: take_bit_eq_mod)
    then show ?thesis by (simp only:) (rule bit_eqI, auto simp: bit_simps)
  qed
  with h nibbles [of b] show ?thesis
    by (auto simp: hex_digits_def dehex_hexchars)
qed

lemma hex_digits_shape: obtains h l where "hex_digits b = [h, l]" "isxdigit h" "isxdigit l"
  using nibbles [of b] by (auto simp: hex_digits_def dehex_hexchars)

lemma not_xdigit_colon: "\<not> isxdigit colon"
  by (simp add: isxdigit_def colon_def)

lemma bit_0xfe: "bit (0xfe :: u8) n \<longleftrightarrow> 0 < n \<and> n < 8"
proof -
  have "(0xfe :: u8) = NOT (mask 1)" by simp
  then show ?thesis by (simp only: bit_not_iff bit_mask_iff) (auto simp: not_less)
qed

lemma bit_0x02: "bit (0x02 :: u8) n \<longleftrightarrow> n = 1"
proof -
  have "(0x02 :: u8) = push_bit 1 1" by simp
  then show ?thesis by (simp only: bit_push_bit_iff bit_1_iff) auto
qed

lemma random_octet:
  "drop_bit 2 (((w :: u8) AND 0xfe) OR 0x02) = drop_bit 2 w" "\<not> bit ((w AND 0xfe) OR 0x02) 0" "bit ((w AND 0xfe) OR 0x02) 1"
proof -
  show "drop_bit 2 ((w AND 0xfe) OR 0x02) = drop_bit 2 w"
    by (rule bit_eqI) (use bit_imp_le_length [of w] in \<open>auto simp only: bit_drop_bit_eq comp_def bit_or_iff bit_and_iff
        bit_0xfe bit_0x02\<close>, fastforce+)
qed (simp_all only: bit_or_iff bit_and_iff bit_0xfe bit_0x02, simp_all)

section \<open>Properties\<close>

text \<open>
  A MAC address in the format the code prints is accepted and gives back the six bytes.
\<close>

theorem set_mac_roundtrip:
  "uhyve_set_mac (Some (mac_format [a, b, c, d, e, f])) urandom = Inr [a, b, c, d, e, f]"
proof -
  have u: "[0..<6] = [0, 1, 2, 3, 4, 5::nat]" by (simp add: upt_conv_Cons)
  obtain a1 a2 where a: "hex_digits a = [a1, a2]" "isxdigit a1" "isxdigit a2" by (rule hex_digits_shape)
  obtain b1 b2 where b: "hex_digits b = [b1, b2]" "isxdigit b1" "isxdigit b2" by (rule hex_digits_shape)
  obtain c1 c2 where c: "hex_digits c = [c1, c2]" "isxdigit c1" "isxdigit c2" by (rule hex_digits_shape)
  obtain d1 d2 where d: "hex_digits d = [d1, d2]" "isxdigit d1" "isxdigit d2" by (rule hex_digits_shape)
  obtain e1 e2 where e: "hex_digits e = [e1, e2]" "isxdigit e1" "isxdigit e2" by (rule hex_digits_shape)
  obtain f1 f2 where f: "hex_digits f = [f1, f2]" "isxdigit f1" "isxdigit f2" by (rule hex_digits_shape)
  have s: "mac_format [a, b, c, d, e, f] =
     [a1, a2, colon, b1, b2, colon, c1, c2, colon, d1, d2, colon, e1, e2, colon, f1, f2]"
    by (simp add: mac_format_def u a b c d e f)
  have "mac_valid (mac_format [a, b, c, d, e, f])"
    by (simp add: mac_valid_def s a b c d e f not_xdigit_colon)
  moreover have "mac_parse (guest_mac_str (mac_format [a, b, c, d, e, f])) = [a, b, c, d, e, f]"
    by (simp add: s mac_parse_def guest_mac_str_def u dehex_digits [OF a(1)] dehex_digits [OF b(1)] dehex_digits [OF c(1)]
        dehex_digits [OF d(1)] dehex_digits [OF e(1)] dehex_digits [OF f(1)])
  ultimately show ?thesis by (simp add: uhyve_set_mac_def)
qed

text \<open>
  Without a valid address in the environment the guest gets a random one, and it is a unicast address of the
  locally administered range; a short read of the random source ends the program.
\<close>

theorem set_mac_random:
  assumes "\<forall>str. env = Some str \<longrightarrow> \<not> mac_valid str"
  shows "uhyve_set_mac env None = Inl UrandomOpen \<and>
    (length rnd \<noteq> 6 \<longrightarrow> uhyve_set_mac env (Some rnd) = Inl UrandomShort) \<and>
    (length rnd = 6 \<longrightarrow> (\<exists>mac. uhyve_set_mac env (Some rnd) = Inr mac \<and> length mac = 6 \<and> drop 1 mac = drop 1 rnd \<and>
       \<not> bit (mac ! 0) 0 \<and> bit (mac ! 0) 1 \<and> drop_bit 2 (mac ! 0) = drop_bit 2 (rnd ! 0)))"
proof -
  have u: "uhyve_set_mac env r = (case r of None \<Rightarrow> Inl UrandomOpen
      | Some rnd \<Rightarrow> if length rnd = 6 then Inr (mac_random rnd) else Inl UrandomShort)" for r
    using assms by (auto simp: uhyve_set_mac_def split: option.split)
  have "length rnd = 6 \<Longrightarrow> mac_random rnd ! 0 = (rnd ! 0 AND 0xfe) OR 0x02"
    by (simp add: mac_random_def)
  then have "drop_bit 2 (mac_random rnd ! 0) = drop_bit 2 (rnd ! 0)" "\<not> bit (mac_random rnd ! 0) 0" "bit (mac_random rnd ! 0) 1"
    if "length rnd = 6"
    using that by (simp_all only: random_octet not_False_eq_True)
  then show ?thesis
    by (simp add: u) (simp add: mac_random_def)
qed

theorem set_mac_random_witness:
  "\<exists>mac. uhyve_set_mac (Some [0x67]) (Some [1, 2, 3, 4, 5, 6]) = Inr mac \<and> bit (mac ! 0) 1"
  using set_mac_random [of "Some [0x67]" "[1, 2, 3, 4, 5, 6]"] by (auto simp: mac_valid_def isxdigit_def colon_def)

text \<open>
  The check accepts strings that are not MAC addresses: a stray character in front of the first colon resets
  the count of colons, and the string is then read at the wrong offsets.
\<close>

theorem set_mac_malformed:
  "uhyve_set_mac (Some ([0x67, colon] @ mac_format [0x11, 0x22, 0x33, 0x44, 0x55, 0x66])) urandom = Inr [0, 0x10, 0x20, 0x30, 0x40, 0x50]"
proof -
  let ?s = "[0x67, colon] @ mac_format [0x11, 0x22, 0x33, 0x44, 0x55, 0x66]"
  have "mac_valid ?s" by code_simp
  moreover have "mac_parse (guest_mac_str ?s) = [0, 0x10, 0x20, 0x30, 0x40, 0x50]" by code_simp
  ultimately show ?thesis by (simp only: uhyve_set_mac_def option.case if_True)
qed

text \<open>
  \<open>attach_linux_tap\<close> keeps a descriptor only when it returns it: every failure after the device was opened
  closes it, except for a name longer than the kernel's limit.
\<close>

theorem attach_closes:
  assumes "attach_linux_tap env dev = (r, closed)" and "dev \<noteq> []" and "hd dev \<noteq> 0x40" and "length dev \<le> 16" and "0 \<le> tun_fd env"
  shows "if r = -1 then closed = [tun_fd env]
    else r = tun_fd env \<and> closed = [] \<and> \<not> write_eio env r \<and>
         (\<exists>name. tunsetiff env r (dev @ replicate (16 - length dev) 0) = Some name \<and> c_string (take 16 name) = dev)"
  using assms by (auto simp: attach_linux_tap_def IFNAMSIZ_def Let_def split: if_splits option.splits)

theorem attach_closes_witness:
  "attach_linux_tap \<lparr>fcntl_ok = (\<lambda>_. True), tun_fd = 3, tunsetiff = (\<lambda>_ _. None), write_eio = (\<lambda>_. False)\<rparr> [0x74] = (-1, [3])"
  using attach_closes [of "\<lparr>fcntl_ok = (\<lambda>_. True), tun_fd = 3, tunsetiff = (\<lambda>_ _. None), write_eio = (\<lambda>_. False)\<rparr>" "[0x74]" "-1" "[3]"]
  by (simp add: attach_linux_tap_def IFNAMSIZ_def)

end
