(* ===== verification/Restart.thy ===== *)
theory Restart
  imports Migration Net_Config
begin

text \<open>
  Checkpoint files and the start of the hypervisor: \<open>read_cpu_state\<close>, \<open>write_cpu_state\<close> and \<open>timer_handler\<close> of
  \<open>src/uhyve-x86_64.c\<close>, \<open>uhyve_init\<close> of \<open>src/uhyve.c\<close> with its three ways to start (incoming migration,
  checkpoint, new guest) and the part of \<open>vcpu_loop\<close> before the loop.

  The files are a map from names to contents.  The CPU states have an object representation as in the theory \<open>Migration\<close>.
\<close>

unbundle bit_operations_syntax

type_synonym files = "bytes \<Rightarrow> bytes option"

section \<open>Files of a checkpoint\<close>

definition MAX_FNAME :: nat where "MAX_FNAME = 256"

text \<open>\<open>snprintf(fname, MAX_FNAME, ...)\<close>.\<close>

definition mem_fname :: "u32 \<Rightarrow> bytes" where
  "mem_fname no_checkpoint = take (MAX_FNAME - 1) (asc ''checkpoint/chk'' @ dec_str (unat no_checkpoint) @ asc ''_mem.dat'')"

definition core_fname :: "u32 \<Rightarrow> u32 \<Rightarrow> bytes" where
  "core_fname no_checkpoint cpuid =
     take (MAX_FNAME - 1) (asc ''checkpoint/chk'' @ dec_str (unat no_checkpoint) @ asc ''_core'' @ dec_str (unat cpuid) @ asc ''.dat'')"

definition config_fname :: bytes where "config_fname = asc ''checkpoint/chk_config.txt''"

definition write_cpu_state :: "('v \<Rightarrow> bytes) \<Rightarrow> u32 \<Rightarrow> u32 \<Rightarrow> 'v \<Rightarrow> files \<Rightarrow> files" where
  "write_cpu_state enc_vs no_checkpoint cpuid state files = files(core_fname no_checkpoint cpuid \<mapsto> enc_vs state)"

text \<open>\<open>None\<close>: the file does not open or is too short, and the program ends.\<close>

definition read_cpu_state :: "(bytes \<Rightarrow> 'v) \<Rightarrow> nat \<Rightarrow> u32 \<Rightarrow> u32 \<Rightarrow> files \<Rightarrow> 'v option" where
  "read_cpu_state dec_vs sz no_checkpoint cpuid files =
    (case files (core_fname no_checkpoint cpuid) of
       None \<Rightarrow> None
     | Some f \<Rightarrow> (case fread1 sz f of None \<Rightarrow> None | Some (bs, _) \<Rightarrow> Some (dec_vs bs)))"

section \<open>The configuration file\<close>

record globals =
  g_ncores :: u32
  g_guest_size :: u64
  g_no_checkpoint :: u32
  g_elf_entry :: u64
  g_full_checkpoint :: bool

definition print_config :: "globals \<Rightarrow> bytes" where
  "print_config g =
     asc ''number of cores: '' @ dec_str (unat (g_ncores g)) @ [0x0a] @
     asc ''memory size: 0x'' @ hex_str (unat (g_guest_size g)) @ [0x0a] @
     asc ''checkpoint number: '' @ dec_str (unat (g_no_checkpoint g)) @ [0x0a] @
     asc ''entry point: 0x'' @ hex_str (unat (g_elf_entry g)) @ [0x0a] @
     (if g_full_checkpoint g then asc ''full checkpoint: 1'' else asc ''full checkpoint: 0'')"

text \<open>The five calls of \<open>fscanf\<close>; a variable whose conversion fails keeps its value.\<close>

definition read_config :: "bytes \<Rightarrow> globals \<Rightarrow> globals" where
  "read_config s g =
    (let (v, s) = fscan1 (asc ''number of cores: '') scan_dec [0x0a] s;
         g = (case v of Some w \<Rightarrow> g\<lparr>g_ncores := ucast w\<rparr> | None \<Rightarrow> g);
         (v, s) = fscan1 (asc ''memory size: 0x'') scan_hex [0x0a] s;
         g = (case v of Some w \<Rightarrow> g\<lparr>g_guest_size := w\<rparr> | None \<Rightarrow> g);
         (v, s) = fscan1 (asc ''checkpoint number: '') scan_dec [0x0a] s;
         g = (case v of Some w \<Rightarrow> g\<lparr>g_no_checkpoint := ucast w\<rparr> | None \<Rightarrow> g);
         (v, s) = fscan1 (asc ''entry point: 0x'') scan_hex [] s;
         g = (case v of Some w \<Rightarrow> g\<lparr>g_elf_entry := w\<rparr> | None \<Rightarrow> g);
         (v, s) = fscan1 (asc ''full checkpoint: '') scan_dec [] s;
         tmp = (case v of Some w \<Rightarrow> ucast w | None \<Rightarrow> (0 :: u32))
     in g\<lparr>g_full_checkpoint := (tmp \<noteq> 0)\<rparr>)"

section \<open>Writing a checkpoint\<close>

text \<open>
  \<open>timer_handler\<close> with the handlers \<open>sigusr_handler\<close> it triggers in the other vCPU threads: between the two
  barriers every thread writes its CPU state (\<open>cpus\<close>) and the thread of the timer the memory.  The result \<open>None\<close> is the end of the
  program by a failing \<open>fwrite\<close>.
\<close>

record 'v chk_vm =
  cv_globals :: globals
  cv_mem :: gmem
  cv_cpus :: "u32 \<Rightarrow> 'v"
  cv_files :: files

definition write_cpu_states :: "('v \<Rightarrow> bytes) \<Rightarrow> u32 \<Rightarrow> nat \<Rightarrow> (u32 \<Rightarrow> 'v) \<Rightarrow> files \<Rightarrow> files" where
  "write_cpu_states enc_vs no_checkpoint n cpus files =
     fold (\<lambda>i. write_cpu_state enc_vs no_checkpoint (word_of_nat i) (cpus (word_of_nat i))) [0..<n] files"

definition timer_handler :: "('v \<Rightarrow> bytes) \<Rightarrow> (bytes \<Rightarrow> bytes \<Rightarrow> bool) \<Rightarrow> bytes \<Rightarrow> 'v chk_vm \<Rightarrow> 'v chk_vm option" where
  "timer_handler enc_vs ok clock cv =
    (let g = cv_globals cv; no_checkpoint = g_no_checkpoint g;
         files = write_cpu_states enc_vs no_checkpoint (unat (g_ncores g)) (cv_cpus cv) (cv_files cv)
     in case write_chk_mem ok (g_full_checkpoint g) no_checkpoint clock (cv_mem cv) of
          (mem, None) \<Rightarrow> None
        | (mem, Some f) \<Rightarrow>
            Some (cv\<lparr>cv_mem := mem, cv_files := files(mem_fname no_checkpoint \<mapsto> f, config_fname \<mapsto> print_config g),
                     cv_globals := g\<lparr>g_no_checkpoint := no_checkpoint + 1\<rparr>\<rparr>))"

section \<open>Starting\<close>

text \<open>
  What \<open>uhyve_init\<close> finds: the accepted migration connection if \<open>HERMIT_MIGRATION_SERVER\<close> is set, the files, the environment
  variables \<open>HERMIT_MEM\<close>, \<open>HERMIT_CPUS\<close>, \<open>HERMIT_FULLCHECKPOINT\<close> and \<open>HERMIT_NETIF\<close>, whether \<open>calloc\<close> succeeds, the descriptor of
  \<open>/dev/kvm\<close>, the API version, the host, and what \<open>load_kernel\<close> and \<open>uhyve_net_init\<close> use.
\<close>

record init_env =
  ie_migration :: "sock option option"
  ie_files :: files
  ie_mem :: "bytes option"
  ie_cpus :: "bytes option"
  ie_full :: "bytes option"
  ie_calloc :: bool
  ie_kvm :: int
  ie_api_version :: int
  ie_host :: host_env
  ie_kernel :: "pfile option"
  ie_boot :: boot_env
  ie_junk :: gmem
  ie_malloc :: bool
  ie_netif :: "bytes option"
  ie_tap :: tap_env
  ie_mac :: "bytes option"
  ie_urandom :: "bytes option"

datatype startup = Migrating sock | Restarting | Fresh

definition init_globals :: "init_env \<Rightarrow> globals \<Rightarrow> (globals \<times> startup) option" where
  "init_globals ie g = (case ie_migration ie of
       Some accepted \<Rightarrow>
         map_option (\<lambda>(mp, md, s). (g\<lparr>g_ncores := md_ncores md, g_guest_size := md_guest_size md, g_elf_entry := md_elf_entry md,
             g_full_checkpoint := md_full_checkpoint md\<rparr>, Migrating s)) (wait_for_incomming_migration accepted)
     | None \<Rightarrow>
         (case ie_files ie config_fname of
            Some f \<Rightarrow> Some (read_config f g, Restarting)
          | None \<Rightarrow>
              let g = (case ie_mem ie of Some str \<Rightarrow> g\<lparr>g_guest_size := memparse str\<rparr> | None \<Rightarrow> g);
                  g = (case ie_cpus ie of Some str \<Rightarrow> g\<lparr>g_ncores := word_of_int (atoi str)\<rparr> | None \<Rightarrow> g);
                  g = (case ie_full ie of Some str \<Rightarrow> if str \<noteq> [0x30] then g\<lparr>g_full_checkpoint := True\<rparr> else g | None \<Rightarrow> g)
              in Some (g, Fresh)))"

text \<open>The initial values of the global variables.\<close>

definition default_globals :: globals where
  "default_globals = \<lparr>g_ncores = 1, g_guest_size = 0x20000000, g_no_checkpoint = 0, g_elf_entry = 0, g_full_checkpoint = False\<rparr>"

record 'v started =
  sd_globals :: globals
  sd_restart :: bool
  sd_arch :: kvm_arch
  sd_loader :: loader
  sd_thread_states :: "'v list option"
  sd_net :: "(int \<times> bytes) option"

text \<open>The memory of a guest, from the mapping that \<open>init_kvm_arch\<close> created: zeroed.\<close>

definition fresh_loader :: loader where
  "fresh_loader = \<lparr>l_mem = \<lambda>_. 0, l_klog = None, l_kheader = None, l_clock = None\<rparr>"

definition load_guest ::
  "(bytes \<Rightarrow> 'v) \<Rightarrow> nat \<Rightarrow> init_env \<Rightarrow> kvm_arch \<Rightarrow> startup \<Rightarrow> globals \<Rightarrow> (globals \<times> loader \<times> 'v list option) option" where
  "load_guest dec_vs sz ie k how g = (case how of
       Restarting \<Rightarrow>
         (case load_checkpoint (\<lambda>i. ie_files ie (mem_fname i)) (ka_cap_adjust_clock_stable k) (g_full_checkpoint g)
            (g_no_checkpoint g) (g_elf_entry g) fresh_loader of
            Loaded ld \<Rightarrow> Some (g, ld, None) | NoFile _ \<Rightarrow> None | LoadErr \<Rightarrow> None)
     | Migrating s \<Rightarrow>
         map_option (\<lambda>(de, s). (g, \<lparr>l_mem = \<lambda>a. de_hmem de (ka_guest_mem k + a), l_klog = de_klog de, l_kheader = de_kheader de,
             l_clock = de_clock de\<rparr>, Some (de_states de)))
           (load_migration_data dec_vs sz (ka_cap_adjust_clock_stable k) (ka_guest_mem k) (g_elf_entry g) (g_ncores g)
              \<lparr>de_hmem = \<lambda>_. 0, de_klog = None, de_kheader = None, de_states = [], de_clock = None\<rparr> s)
     | Fresh \<Rightarrow>
         (case load_kernel EM_X86_64 ((ie_boot ie)\<lparr>be_guest_size := ka_guest_size k, be_guest_mem := ka_guest_mem k\<rparr>)
            (ie_junk ie) (ie_malloc ie) (ie_kernel ie) fresh_loader of
            (True, ld, Some entry) \<Rightarrow> Some (g\<lparr>g_elf_entry := entry\<rparr>, ld, None) | _ \<Rightarrow> None))"

text \<open>The last step: the network, if \<open>HERMIT_NETIF\<close> is set.\<close>

definition init_net :: "init_env \<Rightarrow> 'v started \<Rightarrow> 'v started option" where
  "init_net ie st = (case ie_netif ie of
       None \<Rightarrow> Some st
     | Some netif \<Rightarrow>
         (case uhyve_net_init (ie_tap ie) (ie_mac ie) (ie_urandom ie) (Some netif) of
            Inl _ \<Rightarrow> None
          | Inr nf \<Rightarrow> if fst nf < 0 then None else Some (st\<lparr>sd_net := Some nf\<rparr>)))"

definition uhyve_init :: "(bytes \<Rightarrow> 'v) \<Rightarrow> nat \<Rightarrow> init_env \<Rightarrow> globals \<Rightarrow> 'v started option" where
  "uhyve_init dec_vs sz ie g =
    Option.bind (init_globals ie g) (\<lambda>(g, how).
    if \<not> ie_calloc ie \<or> ie_kvm ie < 0 \<or> ie_api_version ie \<noteq> 12 then None
    else Option.bind (init_kvm_arch (ie_host ie) (g_guest_size g)) (\<lambda>k.
      let g = g\<lparr>g_guest_size := ka_guest_size k\<rparr>
      in Option.bind (load_guest dec_vs sz ie k how g) (\<lambda>(g, ld, states).
         init_net ie \<lparr>sd_globals = g, sd_restart = (how = Restarting), sd_arch = k, sd_loader = ld, sd_thread_states = states, sd_net = None\<rparr>)))"

text \<open>
  The state with which \<open>vcpu_loop\<close> starts a vCPU: restored from the checkpoint, restored from the migration, or set
  up by \<open>init_cpu_state\<close> (\<open>Inl\<close>).  \<open>None\<close>: the program ends.
\<close>

definition vcpu_start :: "(bytes \<Rightarrow> 'v) \<Rightarrow> nat \<Rightarrow> files \<Rightarrow> 'v started \<Rightarrow> u32 \<Rightarrow> (u64 + 'v) option" where
  "vcpu_start dec_vs sz files st cpuid =
    (if sd_restart st then map_option Inr (read_cpu_state dec_vs sz (g_no_checkpoint (sd_globals st)) cpuid files)
     else case sd_thread_states st of
            Some states \<Rightarrow> Some (Inr (states ! unat cpuid))
          | None \<Rightarrow> Some (Inl (g_elf_entry (sd_globals st))))"

section \<open>Lemmas\<close>

lemma is_space_val: "is_space 0x20" "is_space 0x0a" by (simp_all add: is_space_def)

text \<open>A format without adjacent white space scans its own text, if no white space follows.\<close>

fun spaced :: "bytes \<Rightarrow> bool" where
  "spaced [] = True"
| "spaced [c] = True"
| "spaced (c # d # f) = (\<not> (is_space c \<and> is_space d) \<and> spaced (d # f))"

lemma scan_lit_text: "spaced f \<Longrightarrow> s = [] \<or> \<not> is_space (hd s) \<Longrightarrow> scan_lit f (f @ s) = (True, s)"
proof (induction f rule: spaced.induct)
  case (2 c)
  then show ?case by (cases s) (auto simp: skip_ws_def)
next
  case (3 c d f)
  then show ?case by (auto simp: skip_ws_def)
qed simp

lemma plain_number: "\<not> is_space (hd (dec_str n @ r))" "\<not> is_space (hd (hex_str n @ r))"
proof -
  show "\<not> is_space (hd (dec_str n @ r))"
    using dec_str_props [of n] isdigit_plain by (cases "dec_str n") auto
  show "\<not> is_space (hd (hex_str n @ r))"
    using hex_str_props [of n] hex_str_nonempty [of n] is_hex_plain by (cases "hex_str n") auto
qed

lemma fscan_dec:
  assumes "spaced f" and "n < 2 ^ 64" and "rest = [] \<or> \<not> is_space (hd rest)"
  shows "fscan1 f scan_dec [0x0a] (f @ dec_str n @ 0x0a # rest) = (Some (word_of_nat n), rest)"
proof -
  have "scan_lit f (f @ dec_str n @ 0x0a # rest) = (True, dec_str n @ 0x0a # rest)"
    using assms(1) plain_number by (intro scan_lit_text) simp_all
  moreover have "scan_dec (dec_str n @ 0x0a # rest) = Some (word_of_nat n, 0x0a # rest)"
    using assms(2) by (intro scan_dec_str) (simp_all add: isdigit_def)
  moreover have "skip_ws (0x0a # rest) = rest"
    using assms(3) by (cases rest) (auto simp: skip_ws_def is_space_val)
  ultimately show ?thesis
    by (simp add: fscan1_def is_space_val)
qed

lemma fscan_hex:
  assumes "spaced f" and "n < 2 ^ 64"
  shows "fscan1 f scan_hex a (f @ hex_str n @ 0x0a # rest) = (Some (word_of_nat n), snd (scan_lit a (0x0a # rest)))"
proof -
  have "scan_lit f (f @ hex_str n @ 0x0a # rest) = (True, hex_str n @ 0x0a # rest)"
    using assms(1) plain_number by (intro scan_lit_text) simp_all
  moreover have "scan_hex (hex_str n @ 0x0a # rest) = Some (word_of_nat n, 0x0a # rest)"
    using assms(2) by (intro scan_hex_str) (simp_all add: is_hex_def hex_def)
  ultimately show ?thesis
    by (simp add: fscan1_def)
qed

lemma ucast_u32: "ucast (ucast w :: u64) = (w :: u32)"
  by (rule bit_eqI) (simp add: bit_simps)

lemma scan_nl: "rest = [] \<or> \<not> is_space (hd rest) \<Longrightarrow> snd (scan_lit [0x0a] (0x0a # rest)) = rest"
  by (cases rest) (auto simp: skip_ws_def is_space_val)

lemma spaced_formats: "spaced (asc ''number of cores: '')" "spaced (asc ''memory size: 0x'')" "spaced (asc ''checkpoint number: '')"
  "spaced (asc ''entry point: 0x'')"
  by code_simp+

lemma format_starts:
  "\<not> is_space (hd (asc ''memory size: 0x'' @ r))" "\<not> is_space (hd (asc ''checkpoint number: '' @ r))"
  "\<not> is_space (hd (asc ''entry point: 0x'' @ r))"
  by (simp_all add: asc_def is_space_def)

lemma full_checkpoint_not_read: "fst (fscan1 (asc ''full checkpoint: '') scan_dec [] (0x0a # rest)) = None"
  by (simp add: fscan1_def asc_def is_space_def)

lemma read_config_printed: "read_config (print_config g) g0 = g\<lparr>g_full_checkpoint := False\<rparr>"
proof -
  let ?fl = "if g_full_checkpoint g then asc ''full checkpoint: 1'' else asc ''full checkpoint: 0''"
  let ?s4 = "asc ''entry point: 0x'' @ hex_str (unat (g_elf_entry g)) @ 0x0a # ?fl"
  let ?s3 = "asc ''checkpoint number: '' @ dec_str (unat (g_no_checkpoint g)) @ 0x0a # ?s4"
  let ?s2 = "asc ''memory size: 0x'' @ hex_str (unat (g_guest_size g)) @ 0x0a # ?s3"
  have u32: "unat (w :: u32) < 2 ^ 64" for w using unat_less_exp [of w] by simp
  have u64: "unat (w :: u64) < 2 ^ 64" for w using unat_less_exp [of w] by simp
  have p: "print_config g = asc ''number of cores: '' @ dec_str (unat (g_ncores g)) @ 0x0a # ?s2"
    by (simp add: print_config_def)
  have 1: "fscan1 (asc ''number of cores: '') scan_dec [0x0a] (print_config g) = (Some (word_of_nat (unat (g_ncores g))), ?s2)"
    unfolding p by (rule fscan_dec) (simp_all only: spaced_formats u32 format_starts simp_thms)
  have 2: "fscan1 (asc ''memory size: 0x'') scan_hex [0x0a] ?s2 = (Some (word_of_nat (unat (g_guest_size g))), ?s3)"
    using fscan_hex [OF spaced_formats(2) u64, of "[0x0a]" "g_guest_size g" ?s3] scan_nl [of ?s3] format_starts(2) by simp
  have 3: "fscan1 (asc ''checkpoint number: '') scan_dec [0x0a] ?s3 = (Some (word_of_nat (unat (g_no_checkpoint g))), ?s4)"
    by (rule fscan_dec) (simp_all only: spaced_formats u32 format_starts simp_thms)
  have 4: "fscan1 (asc ''entry point: 0x'') scan_hex [] ?s4 = (Some (word_of_nat (unat (g_elf_entry g))), 0x0a # ?fl)"
    using fscan_hex [OF spaced_formats(4) u64, of "[]" "g_elf_entry g" ?fl] by simp
  obtain s5 where 5: "fscan1 (asc ''full checkpoint: '') scan_dec [] (0x0a # ?fl) = (None, s5)"
    using full_checkpoint_not_read [of ?fl] by (metis prod.collapse)
  show ?thesis
    unfolding read_config_def 1 Let_def prod.case 2 3 4 5 option.case by (cases g; cases g0) (simp add: ucast_u32)
qed

text \<open>The names of the files of different checkpoints and cores differ.\<close>

lemma length_dec_str: "n < 10 ^ Suc k \<Longrightarrow> length (dec_str n) \<le> Suc k"
proof (induction k arbitrary: n)
  case 0
  then show ?case by (simp add: dec_str.simps)
next
  case (Suc k)
  then have "n div 10 < 10 ^ Suc k" by simp
  with Suc.IH [OF this] show ?case by (subst dec_str.simps) simp
qed

lemma length_dec_u32: "length (dec_str (unat (w :: u32))) \<le> 10"
  using unat_less_exp [of w] length_dec_str [of "unat w" 9] by simp

lemma mem_fname_eq: "mem_fname no = asc ''checkpoint/chk'' @ dec_str (unat no) @ asc ''_mem.dat''"
  using length_dec_u32 [of no] by (simp add: mem_fname_def MAX_FNAME_def asc_def)

lemma core_fname_eq:
  "core_fname no cpu = asc ''checkpoint/chk'' @ dec_str (unat no) @ asc ''_core'' @ dec_str (unat cpu) @ asc ''.dat''"
  using length_dec_u32 [of no] length_dec_u32 [of cpu] by (simp add: core_fname_def MAX_FNAME_def asc_def)

lemma dec_str_split:
  assumes "dec_str n @ c # r = dec_str m @ d # s" and "\<not> isdigit c" and "\<not> isdigit d"
  shows "n = m \<and> c # r = d # s"
proof -
  have "takeWhile isdigit (dec_str k @ e # t) = dec_str k" if "\<not> isdigit e" for k e t
    using dec_str_props [of k] that by (simp add: takeWhile_append list_all_iff)
  from this [OF assms(2), of n r] this [OF assms(3), of m s] assms(1) have e: "dec_str n = dec_str m" by simp
  then have "n = m" using dec_str_props [of n] dec_str_props [of m] by metis
  with assms(1) e show ?thesis by simp
qed

lemma fname_tails: "asc ''_mem.dat'' = 0x5f # asc ''mem.dat''" "asc ''_core'' = 0x5f # asc ''core''" "asc ''.dat'' = 0x2e # asc ''dat''"
  by (simp_all add: asc_def)

lemma mem_fname_inject: "mem_fname a = mem_fname b \<longleftrightarrow> a = b"
  using dec_str_split [of "unat a" "0x5f" "asc ''mem.dat''" "unat b" "0x5f" "asc ''mem.dat''"]
  by (auto simp: mem_fname_eq fname_tails isdigit_def word_unat_eq_iff)

lemma core_fname_inject: "core_fname a c = core_fname b d \<longleftrightarrow> a = b \<and> c = d"
proof
  assume h: "core_fname a c = core_fname b d"
  then have "unat a = unat b \<and> asc ''core'' @ dec_str (unat c) @ asc ''.dat'' = asc ''core'' @ dec_str (unat d) @ asc ''.dat''"
    using dec_str_split [of "unat a" "0x5f" "asc ''core'' @ dec_str (unat c) @ asc ''.dat''" "unat b" "0x5f"
        "asc ''core'' @ dec_str (unat d) @ asc ''.dat''"]
    by (auto simp: core_fname_eq fname_tails isdigit_def)
  then show "a = b \<and> c = d"
    using dec_str_split [of "unat c" "0x2e" "asc ''dat''" "unat d" "0x2e" "asc ''dat''"]
    by (auto simp: fname_tails isdigit_def word_unat_eq_iff)
qed simp

lemma mem_core_fname: "mem_fname a \<noteq> core_fname b c"
proof
  assume h: "mem_fname a = core_fname b c"
  have "asc ''mem.dat'' = asc ''core'' @ dec_str (unat c) @ asc ''.dat''"
    using dec_str_split [of "unat a" "0x5f" "asc ''mem.dat''" "unat b" "0x5f" "asc ''core'' @ dec_str (unat c) @ asc ''.dat''"] h
    by (auto simp: mem_fname_eq core_fname_eq fname_tails isdigit_def)
  then show False by (simp add: asc_def)
qed

lemma config_other: "config_fname \<noteq> mem_fname a" "config_fname \<noteq> core_fname b c"
proof -
  have d: "\<exists>e t. dec_str n = e # t \<and> isdigit e" for n
    using dec_str_props [of n] by (cases "dec_str n") auto
  have "config_fname \<noteq> asc ''checkpoint/chk'' @ dec_str n @ r" for n r
    using d [of n] by (auto simp: config_fname_def asc_def isdigit_def)
  then show "config_fname \<noteq> mem_fname a" "config_fname \<noteq> core_fname b c"
    by (simp_all add: mem_fname_eq core_fname_eq)
qed

lemma write_cpu_states_core:
  "c < n \<Longrightarrow> n \<le> 2 ^ 32 \<Longrightarrow> write_cpu_states enc no n cpus files (core_fname no (word_of_nat c)) = Some (enc (cpus (word_of_nat c)))"
proof (induction n)
  case (Suc n)
  show ?case
  proof (cases "c = n")
    case True
    then show ?thesis by (simp add: write_cpu_states_def write_cpu_state_def)
  next
    case False
    then have "(word_of_nat c :: u32) \<noteq> word_of_nat n"
      using Suc.prems by (simp add: word_unat_eq_iff unat_of_nat)
    with False Suc show ?thesis
      by (simp add: write_cpu_states_def write_cpu_state_def core_fname_inject)
  qed
qed simp

lemma write_cpu_states_other:
  "(\<And>c. name \<noteq> core_fname no c) \<Longrightarrow> write_cpu_states enc no n cpus files name = files name"
  by (induction n) (simp_all add: write_cpu_states_def write_cpu_state_def)

lemma timer_handler_files:
  assumes "timer_handler enc ok clock cv = Some cv'" and "g = cv_globals cv"
  shows "cv_globals cv' = g\<lparr>g_no_checkpoint := g_no_checkpoint g + 1\<rparr>"
    and "cv_files cv' config_fname = Some (print_config g)"
    and "\<And>c. c < unat (g_ncores g) \<Longrightarrow>
       cv_files cv' (core_fname (g_no_checkpoint g) (word_of_nat c)) = Some (enc (cv_cpus cv (word_of_nat c)))"
    and "\<exists>m' f. write_chk_mem ok (g_full_checkpoint g) (g_no_checkpoint g) clock (cv_mem cv) = (m', Some f) \<and>
       cv_files cv' (mem_fname (g_no_checkpoint g)) = Some f"
    and "\<And>n. n \<noteq> g_no_checkpoint g \<Longrightarrow> cv_files cv' (mem_fname n) = cv_files cv (mem_fname n)"
proof -
  let ?no = "g_no_checkpoint g"
  let ?fs = "write_cpu_states enc ?no (unat (g_ncores g)) (cv_cpus cv) (cv_files cv)"
  obtain m' f where w: "write_chk_mem ok (g_full_checkpoint g) ?no clock (cv_mem cv) = (m', Some f)"
    and cv': "cv' = cv\<lparr>cv_mem := m', cv_files := ?fs(mem_fname ?no \<mapsto> f, config_fname \<mapsto> print_config g),
                     cv_globals := g\<lparr>g_no_checkpoint := ?no + 1\<rparr>\<rparr>"
    using assms by (auto simp: timer_handler_def Let_def split: prod.splits option.splits)
  have n: "unat (g_ncores g) \<le> 2 ^ 32"
    using unat_less_exp [of "g_ncores g"] by simp
  show "cv_globals cv' = g\<lparr>g_no_checkpoint := g_no_checkpoint g + 1\<rparr>" "cv_files cv' config_fname = Some (print_config g)"
    by (simp_all add: cv')
  show "\<exists>m' f. write_chk_mem ok (g_full_checkpoint g) ?no clock (cv_mem cv) = (m', Some f) \<and> cv_files cv' (mem_fname ?no) = Some f"
    using w config_other(1) [of ?no] by (simp add: cv')
  show "cv_files cv' (mem_fname i) = cv_files cv (mem_fname i)" if "i \<noteq> ?no" for i
    using that config_other(1) [of i] write_cpu_states_other [of "mem_fname i" ?no] mem_core_fname by (auto simp: cv' mem_fname_inject)
  show "cv_files cv' (core_fname ?no (word_of_nat c)) = Some (enc (cv_cpus cv (word_of_nat c)))" if "c < unat (g_ncores g)" for c
    using write_cpu_states_core [OF that n, of enc ?no "cv_cpus cv" "cv_files cv"] config_other(2) [of ?no "word_of_nat c"]
      mem_core_fname [of ?no ?no "word_of_nat c"] by (auto simp: cv')
qed

text \<open>A run: before each checkpoint the guest changes its memory and CPU states in any way.\<close>

fun checkpoints :: "('v \<Rightarrow> bytes) \<Rightarrow> (gmem \<times> (u32 \<Rightarrow> 'v) \<times> bytes) list \<Rightarrow> 'v chk_vm \<Rightarrow> 'v chk_vm option" where
  "checkpoints enc [] cv = Some cv"
| "checkpoints enc ((mem, cpus, clock) # rest) cv =
    Option.bind (timer_handler enc (\<lambda>_ _. True) clock (cv\<lparr>cv_mem := mem, cv_cpus := cpus\<rparr>)) (checkpoints enc rest)"

definition mem_file_ok :: "files \<Rightarrow> (nat \<Rightarrow> gmem) \<Rightarrow> nat \<Rightarrow> bool" where
  "mem_file_ok files ms i \<longleftrightarrow> (\<exists>ok clock m' f. write_chk_mem ok False (word_of_nat i) clock (ms i) = (m', Some f) \<and>
     length clock = sizeof_clock \<and> files (mem_fname (word_of_nat i)) = Some f)"

text \<open>The files after the checkpoints up to \<open>n\<close>.\<close>

definition chk_files :: "('v \<Rightarrow> bytes) \<Rightarrow> globals \<Rightarrow> (nat \<Rightarrow> gmem) \<Rightarrow> (u32 \<Rightarrow> 'v) \<Rightarrow> nat \<Rightarrow> files \<Rightarrow> bool" where
  "chk_files enc g ms cpus n files \<longleftrightarrow> (\<forall>i \<le> n. mem_file_ok files ms i) \<and>
     files config_fname = Some (print_config (g\<lparr>g_no_checkpoint := word_of_nat n\<rparr>)) \<and>
     (\<forall>c < unat (g_ncores g). files (core_fname (word_of_nat n) (word_of_nat c)) = Some (enc (cpus (word_of_nat c))))"

lemma checkpoints_files:
  assumes "checkpoints enc steps cv = Some cv'" and "steps \<noteq> []" and "\<not> g_full_checkpoint (cv_globals cv)"
    and "g_no_checkpoint (cv_globals cv) = word_of_nat k" and "k + length steps \<le> 2 ^ 32"
    and "list_all (\<lambda>(mem, cpus, clock). length clock = sizeof_clock) steps"
    and "\<forall>i < k. mem_file_ok (cv_files cv) ms i" and "\<forall>j < length steps. ms (k + j) = fst (steps ! j)"
  shows "chk_files enc (cv_globals cv) ms (fst (snd (last steps))) (k + length steps - 1) (cv_files cv')"
  using assms
proof (induction steps arbitrary: cv k)
  case (Cons step rest)
  obtain mem cpus clock where step: "step = (mem, cpus, clock)" by (cases step)
  let ?g = "cv_globals cv"
  let ?cv = "cv\<lparr>cv_mem := mem, cv_cpus := cpus\<rparr>"
  obtain cv1 where t: "timer_handler enc (\<lambda>_ _. True) clock ?cv = Some cv1" and r: "checkpoints enc rest cv1 = Some cv'"
    using Cons.prems(1) step by (auto simp: bind_eq_Some_conv)
  note f = timer_handler_files [OF t refl, simplified]
  have msk: "ms k = mem" using Cons.prems(8) [rule_format, of 0] step by simp
  have distinct: "(word_of_nat i :: u32) \<noteq> word_of_nat k" if "i < k" for i
    using that Cons.prems(5) by (simp add: word_unat_eq_iff unat_of_nat)
  have ok1: "mem_file_ok (cv_files cv1) ms i" if "i < Suc k" for i
  proof (cases "i = k")
    case True
    then show ?thesis
      using f(4) Cons.prems(3,4,6) step msk by (auto simp: mem_file_ok_def)
  next
    case False
    then have "i < k" using that by simp
    then show ?thesis
      using Cons.prems(7) f(5) [of "word_of_nat i"] distinct [of i] Cons.prems(4) by (auto simp: mem_file_ok_def)
  qed
  show ?case
  proof (cases "rest = []")
    case True
    then have cv': "cv' = cv1" using r by simp
    have g: "?g\<lparr>g_no_checkpoint := word_of_nat k\<rparr> = ?g" using Cons.prems(4) by simp
    have cfg: "cv_files cv1 config_fname = Some (print_config (?g\<lparr>g_no_checkpoint := word_of_nat k\<rparr>))"
      using f(2) by (simp only: g)
    have core: "\<forall>c < unat (g_ncores ?g). cv_files cv1 (core_fname (word_of_nat k) (word_of_nat c)) = Some (enc (cpus (word_of_nat c)))"
      using f(3) Cons.prems(4) by simp
    from ok1 cfg core show ?thesis
      by (simp add: chk_files_def cv' step True less_Suc_eq_le)
  next
    case False
    have "chk_files enc (cv_globals cv1) ms (fst (snd (last rest))) (Suc k + length rest - 1) (cv_files cv')"
    proof (rule Cons.IH [OF r False])
      show "\<not> g_full_checkpoint (cv_globals cv1)" "g_no_checkpoint (cv_globals cv1) = word_of_nat (Suc k)"
        using Cons.prems(3,4) by (simp_all add: f(1))
      show "Suc k + length rest \<le> 2 ^ 32" "list_all (\<lambda>(mem, cpus, clock). length clock = sizeof_clock) rest"
        using Cons.prems(5,6) by auto
      show "\<forall>i < Suc k. mem_file_ok (cv_files cv1) ms i" using ok1 by blast
      show "\<forall>j < length rest. ms (Suc k + j) = fst (rest ! j)"
        using Cons.prems(8) by (auto dest: spec [of _ "Suc j" for j])
    qed
    then show ?thesis
      using False by (simp add: chk_files_def f(1))
  qed
qed simp

lemma init_net_keeps:
  "init_net ie st = Some st' \<Longrightarrow> sd_globals st' = sd_globals st \<and> sd_restart st' = sd_restart st \<and> sd_arch st' = sd_arch st \<and>
     sd_loader st' = sd_loader st \<and> sd_thread_states st' = sd_thread_states st"
  by (auto simp: init_net_def split: option.splits sum.splits if_splits)

lemma uhyve_init_Some:
  assumes "uhyve_init dec sz ie g0 = Some st" and "init_globals ie g0 = Some (g, how)"
  obtains k g' ld states where "init_kvm_arch (ie_host ie) (g_guest_size g) = Some k"
    and "load_guest dec sz ie k how (g\<lparr>g_guest_size := ka_guest_size k\<rparr>) = Some (g', ld, states)"
    and "sd_globals st = g'" and "sd_restart st = (how = Restarting)" and "sd_arch st = k" and "sd_loader st = ld"
    and "sd_thread_states st = states"
  using assms that by (auto simp: uhyve_init_def Let_def bind_eq_Some_conv dest!: init_net_keeps split: if_splits)

text \<open>Start-up from such files.\<close>

lemma init_globals_restart:
  assumes "ie_migration ie = None" and "ie_files ie config_fname = Some (print_config g)"
  shows "init_globals ie g0 = Some (g\<lparr>g_full_checkpoint := False\<rparr>, Restarting)"
  using assms by (simp add: init_globals_def read_config_printed)

section \<open>Properties\<close>

text \<open>
  The configuration a checkpoint writes is read back by a restart, except for one field: the format of the entry point does not
  consume the line's end, so the last conversion never succeeds and \<open>full_checkpoint\<close> is false after every restart.
\<close>

theorem read_print_config: "read_config (print_config g) g0 = g\<lparr>g_full_checkpoint := False\<rparr>"
  by (rule read_config_printed)


definition sample_env :: "files \<Rightarrow> sock option option \<Rightarrow> init_env" where
  "sample_env files mig = \<lparr>ie_migration = mig, ie_files = files, ie_mem = None, ie_cpus = None, ie_full = None, ie_calloc = True, ie_kvm = 3,
     ie_api_version = 12, ie_host = he0, ie_kernel = None, ie_boot = be0, ie_junk = \<lambda>_. 0, ie_malloc = True, ie_netif = None,
     ie_tap = \<lparr>fcntl_ok = \<lambda>_. True, tun_fd = 5, tunsetiff = \<lambda>_ _. None, write_eio = \<lambda>_. False\<rparr>, ie_mac = None, ie_urandom = None\<rparr>"

definition sample_steps :: "(gmem \<times> (u32 \<Rightarrow> u64) \<times> bytes) list" where
  "sample_steps = [(quad 7, \<lambda>_. 1, replicate 48 0), (quad 9, \<lambda>_. 42, replicate 48 0)]"

lemma checkpoints_never_fail: "\<exists>cv'. checkpoints enc steps cv = Some cv'"
proof (induction steps arbitrary: cv)
  case (Cons step rest)
  obtain mem cpus clock where step: "step = (mem, cpus, clock)" by (cases step)
  have "\<exists>cv1. timer_handler enc (\<lambda>_ _. True) clock (cv\<lparr>cv_mem := mem, cv_cpus := cpus\<rparr>) = Some cv1"
    using write_never_fails [of "g_full_checkpoint (cv_globals cv)" "g_no_checkpoint (cv_globals cv)" clock mem]
    by (auto simp: timer_handler_def Let_def)
  with Cons show ?case by (auto simp: step)
qed simp


text \<open>
  C12.  Start of a migrated guest.  \<open>uhyve_init\<close> of a destination whose connection carries what the source's \<open>migration_handler\<close>
  sent starts with the source's core count, guest size and entry point; every vCPU starts with its CPU state of the source, and guest
  memory is that of the source on the transferred regions and zero elsewhere.
\<close>

theorem migrated_guest_starts:
  assumes "codec enc dec sz" and "migratable src malloced mm sz vs clock" and "no_errors s" and "s_out s = []"
    and "so_guest_size src = alloc_size gs" and "unat gs + 0x60000000 < 2 ^ 64"
    and "init_kvm_arch (ie_host ie) (md_guest_size (migration_metadata src)) = Some k" and "ka_cap_adjust_clock_stable k = so_clock_stable src"
    and "ie_calloc ie" and "0 \<le> ie_kvm ie" and "ie_api_version ie = 12" and "ie_netif ie = None"
  shows "\<exists>s'. migration_handler enc src malloced (Some mm) [Connected s] hmem vs clock = Some s' \<and>
    (\<forall>r. no_errors r \<and> s_in r = s_out s' \<and> ie_migration ie = Some (Some r) \<longrightarrow>
      (\<exists>st. uhyve_init dec sz ie g0 = Some st \<and> g_ncores (sd_globals st) = so_ncores src \<and>
        g_guest_size (sd_globals st) = so_guest_size src \<and> g_elf_entry (sd_globals st) = so_elf_entry src \<and>
        (\<forall>c < unat (so_ncores src). vcpu_start dec sz (ie_files ie) st (word_of_nat c) = Some (Inr (vs ! c))) \<and>
        (\<forall>a. l_mem (sd_loader st) a = (if covered a (transferred src malloced mm) then hmem (so_guest_mem src + a) else 0))))"
proof -
  obtain s' where s': "migration_handler enc src malloced (Some mm) [Connected s] hmem vs clock = Some s'"
    and out: "s_out s' = migration_stream enc src (transferred src malloced mm) hmem vs clock"
    using migration_handler_sends [OF assms(1,2), of "[]" s "[]" hmem] assms(3,4) by auto
  have size: "ka_guest_size k = so_guest_size src"
    using metadata_sizes [OF assms(5,6)] assms(7) by (auto simp: init_kvm_arch_def Let_def split: option.splits if_splits)
  have md: "md_ncores (migration_metadata src) = so_ncores src" "md_elf_entry (migration_metadata src) = so_elf_entry src"
    by (simp_all add: migration_metadata_def Let_def)
  have w: "unat (word_of_nat c :: u32) = c" if "c < unat (so_ncores src)" for c
    using that unat_less_exp [of "so_ncores src"] by (simp add: unat_of_nat)
  show ?thesis
  proof (intro exI conjI, rule s', intro allI impI, elim conjE)
    fix r assume r: "no_errors r" "s_in r = s_out s'" "ie_migration ie = Some (Some r)"
    let ?de = "\<lparr>de_hmem = \<lambda>_. 0, de_klog = None, de_kheader = None, de_states = [], de_clock = None\<rparr>"
    obtain r1 de' r2 where i: "wait_for_incomming_migration (Some r) = Some (so_params src, migration_metadata src, r1)"
      and l: "load_migration_data dec sz (so_clock_stable src) (ka_guest_mem k) (so_elf_entry src) (so_ncores src) ?de r1 = Some (de', r2)"
      and d: "de_states de' = vs" "\<forall>a. de_hmem de' (ka_guest_mem k + a) =
        (if covered a (transferred src malloced mm) then hmem (so_guest_mem src + a) else 0)"
      using destination_receives [OF assms(1,2) r(1), of hmem "ka_guest_mem k" ?de] r(2) out by auto
    show "\<exists>st. uhyve_init dec sz ie g0 = Some st \<and> g_ncores (sd_globals st) = so_ncores src \<and>
        g_guest_size (sd_globals st) = so_guest_size src \<and> g_elf_entry (sd_globals st) = so_elf_entry src \<and>
        (\<forall>c < unat (so_ncores src). vcpu_start dec sz (ie_files ie) st (word_of_nat c) = Some (Inr (vs ! c))) \<and>
        (\<forall>a. l_mem (sd_loader st) a = (if covered a (transferred src malloced mm) then hmem (so_guest_mem src + a) else 0))"
      using r(3) i l d md size w assms(7-12)
      by (simp add: uhyve_init_def init_globals_def load_guest_def init_net_def vcpu_start_def Let_def)
  qed
qed

theorem migrated_guest_starts_witness:
  "\<exists>s' st. migration_handler enc64 sample_source sample_regions (Some sample_regions)
      [Connected \<lparr>s_in = [], s_out = [], s_script = []\<rparr>] (\<lambda>x. ucast x) [42] (replicate 48 1) = Some s' \<and>
    uhyve_init dec64 8 (sample_env (\<lambda>_. None) (Some (Some \<lparr>s_in = s_out s', s_out = [], s_script = []\<rparr>))) default_globals = Some st \<and>
    vcpu_start dec64 8 (\<lambda>_. None) st 0 = Some (Inr 42) \<and> l_mem (sd_loader st) 0x800007 = 7 \<and> l_mem (sd_loader st) 0x700007 = 0"
proof -
  let ?s = "\<lparr>s_in = [], s_out = [], s_script = []\<rparr>"
  let ?ie = "\<lambda>r. sample_env (\<lambda>_. None) (Some (Some r))"
  have m: "migratable sample_source sample_regions sample_regions 8 [42 :: u64] (replicate 48 1)"
    by (simp add: migratable_def sample_source_def sample_regions_def transferred_def default_mig_params_def sizeof_clock_def)
  have cov: "covered 0x800007 (transferred sample_source sample_regions sample_regions)"
    "\<not> covered 0x700007 (transferred sample_source sample_regions sample_regions)"
    by (simp_all add: covered_def mapping_list_def transferred_def sample_source_def sample_regions_def default_mig_params_def
        in_chunk_def in_run_def)
  have gs: "so_guest_size sample_source = alloc_size 0x4000000"
    by (simp add: sample_source_def alloc_size_def gap_val)
  obtain k where k: "init_kvm_arch he0 (md_guest_size (migration_metadata sample_source)) = Some k" "ka_cap_adjust_clock_stable k"
    by (simp add: init_kvm_arch_def he0_def KVM_CLOCK_TSC_STABLE_def Let_def)
  have t: "\<exists>s'. migration_handler enc64 sample_source sample_regions (Some sample_regions) [Connected ?s] (\<lambda>x. ucast x) [42] (replicate 48 1) = Some s' \<and>
    (\<forall>r'. no_errors r' \<and> s_in r' = s_out s' \<and> ie_migration (?ie r) = Some (Some r') \<longrightarrow>
      (\<exists>st. uhyve_init dec64 8 (?ie r) default_globals = Some st \<and> g_ncores (sd_globals st) = so_ncores sample_source \<and>
        g_guest_size (sd_globals st) = so_guest_size sample_source \<and> g_elf_entry (sd_globals st) = so_elf_entry sample_source \<and>
        (\<forall>c < unat (so_ncores sample_source). vcpu_start dec64 8 (ie_files (?ie r)) st (word_of_nat c) = Some (Inr ([42] ! c))) \<and>
        (\<forall>a. l_mem (sd_loader st) a = (if covered a (transferred sample_source sample_regions sample_regions)
            then ucast (so_guest_mem sample_source + a) else 0))))" for r
    by (rule migrated_guest_starts [OF c64.codec_axioms m _ _ gs, where k = k])
      (use k in \<open>simp_all add: sample_env_def no_errors_def sample_source_def\<close>)
  then obtain s' where h: "migration_handler enc64 sample_source sample_regions (Some sample_regions) [Connected ?s] (\<lambda>x. ucast x)
      [42] (replicate 48 1) = Some s'"
    by blast
  let ?r = "\<lparr>s_in = s_out s', s_out = [], s_script = []\<rparr>"
  have r: "no_errors ?r" "s_in ?r = s_out s'" "ie_migration (?ie ?r) = Some (Some ?r)" "ie_files (?ie ?r) = (\<lambda>_. None)"
    by (simp_all add: no_errors_def sample_env_def)
  obtain st where st: "uhyve_init dec64 8 (?ie ?r) default_globals = Some st"
    and v: "\<forall>c < unat (so_ncores sample_source). vcpu_start dec64 8 (\<lambda>_. None) st (word_of_nat c) = Some (Inr ([42] ! c))"
    and l: "\<forall>a. l_mem (sd_loader st) a = (if covered a (transferred sample_source sample_regions sample_regions)
            then ucast (so_guest_mem sample_source + a) else 0)"
    using t [of ?r] h r by (metis option.inject)
  have "vcpu_start dec64 8 (\<lambda>_. None) st 0 = Some (Inr 42)"
    using v [rule_format, of 0] by (simp add: sample_source_def)
  moreover have "l_mem (sd_loader st) 0x800007 = 7" "l_mem (sd_loader st) 0x700007 = 0"
    using cov l by (simp_all add: sample_source_def)
  ultimately show ?thesis
    using h st by blast
qed

end
