(* ===== verification/Mig_Config.thy ===== *)
theory Mig_Config
  imports Restart
begin

text \<open>
  The configuration of a migration, \<open>src/uhyve-migration.c\<close>: the file with the parameters, the address of the
  destination, and the closing of the sockets.
\<close>

unbundle bit_operations_syntax

section \<open>Migration parameters\<close>

definition MAX_PARAM_STR_LEN :: nat where "MAX_PARAM_STR_LEN = 128"

text \<open>\<open>%s\<close>, and the text of a \<open>char\<close> array as the string the setters compare.\<close>

definition scan_word :: "bytes \<Rightarrow> (bytes \<times> bytes) option" where
  "scan_word s = (let s = skip_ws s; w = takeWhile (\<lambda>c. \<not> is_space c) s in if w = [] then None else Some (w, drop (length w) s))"

definition text_of :: "bytes \<Rightarrow> string" where "text_of bs = map (\<lambda>b. char_of (unat b)) bs"

text \<open>
  The two flags are \<open>bool\<close> members, one behind the other, of one byte each, and are scanned as \<open>uint32_t\<close>: the conversion of
  \<open>use-odp\<close> stores 4 bytes from the first flag on, which are the two flags and the 2 bytes of padding, and the conversion of \<open>prefetch\<close>
  from the second one on, which are this flag, the padding and the byte behind \<open>mig_params\<close> (\<open>m_behind\<close>).
\<close>

record mig_mem =
  m_params :: mig_params_t
  m_behind :: u8

definition store_use_odp :: "u32 \<Rightarrow> mig_mem \<Rightarrow> mig_mem" where
  "store_use_odp v m = m\<lparr>m_params := (m_params m)\<lparr>p_use_odp := (enc32 v ! 0 \<noteq> 0), p_prefetch := (enc32 v ! 1 \<noteq> 0)\<rparr>\<rparr>"

definition store_prefetch :: "u32 \<Rightarrow> mig_mem \<Rightarrow> mig_mem" where
  "store_prefetch v m = m\<lparr>m_params := (m_params m)\<lparr>p_prefetch := (enc32 v ! 0 \<noteq> 0)\<rparr>, m_behind := enc32 v ! 3\<rparr>"

text \<open>
  \<open>set_migration_params\<close>.  Without a name it does nothing (\<open>None\<close>); a file that does not open is used all the same, and a word
  of 128 characters or more is written behind \<open>tmp_str\<close>: both are errors here.  \<open>tmp_str\<close> is not initialised, and
  a conversion that fails leaves it as it is.
\<close>

datatype param_error = NullStream | StringOverflow

definition scan_into :: "bytes \<Rightarrow> bytes \<Rightarrow> bytes \<Rightarrow> param_error + bytes \<times> bytes" where
  "scan_into format tmp_str s =
    (case fscan1 format scan_word [0x0a] s of
       (None, s) \<Rightarrow> Inr (tmp_str, s)
     | (Some w, s) \<Rightarrow> if length w < MAX_PARAM_STR_LEN then Inr (w, s) else Inl StringOverflow)"

definition set_flags :: "bytes \<Rightarrow> mig_mem \<Rightarrow> mig_mem" where
  "set_flags s m =
    (let (v, s) = fscan1 (asc ''use-odp: '') scan_dec [0x0a] s;
         m = (case v of Some w \<Rightarrow> store_use_odp (ucast w) m | None \<Rightarrow> m);
         (v, s) = fscan1 (asc ''prefetch: '') scan_dec [0x0a] s
     in case v of Some w \<Rightarrow> store_prefetch (ucast w) m | None \<Rightarrow> m)"

definition set_migration_params :: "bytes \<Rightarrow> bytes option option \<Rightarrow> mig_mem \<Rightarrow> param_error + mig_mem" where
  "set_migration_params tmp_str file m =
    (case file of
       None \<Rightarrow> Inr m
     | Some None \<Rightarrow> Inl NullStream
     | Some (Some s) \<Rightarrow>
         (case scan_into (asc ''mode: '') tmp_str s of
            Inl err \<Rightarrow> Inl err
          | Inr (tmp_str, s) \<Rightarrow>
              let m = m\<lparr>m_params := set_migration_mode (Some (text_of tmp_str)) (m_params m)\<rparr>
              in case scan_into (asc ''type: '') tmp_str s of
                   Inl err \<Rightarrow> Inl err
                 | Inr (tmp_str, s) \<Rightarrow>
                     Inr (set_flags s (m\<lparr>m_params := set_migration_type (Some (text_of tmp_str)) (m_params m)\<rparr>))))"

definition get_migration_type :: "mig_mem \<Rightarrow> mig_type_t" where
  "get_migration_type m = p_type (m_params m)"

definition print_migration_params :: "mig_params_t \<Rightarrow> bytes" where
  "print_migration_params mp =
     asc ''========== MIGRATION PARAMETERS =========='' @ [0x0a] @
     asc ''   MODE     : '' @ asc (get_migration_mode_str (p_mode mp)) @ [0x0a] @
     asc ''   TYPE     : '' @ asc (get_migration_type_str (p_type mp)) @ [0x0a] @
     asc ''   USE ODP  : '' @ dec_str (of_bool (p_use_odp mp)) @ [0x0a] @
     asc ''   PREFETCH : '' @ dec_str (of_bool (p_prefetch mp)) @ [0x0a] @
     asc ''=========================================='' @ [0x0a]"

section \<open>The destination\<close>

text \<open>\<open>inet_pton(AF_INET, ...)\<close>: four decimal numbers below 256 without leading zeros, between dots.\<close>

definition octet :: "bytes \<Rightarrow> u8 option" where
  "octet ds = (if ds \<noteq> [] \<and> list_all isdigit ds \<and> (length ds = 1 \<or> hd ds \<noteq> 0x30) \<and> dec_value ds < 256
     then Some (word_of_nat (dec_value ds)) else None)"

fun split_dots :: "bytes \<Rightarrow> bytes list" where
  "split_dots [] = [[]]"
| "split_dots (c # s) = (if c = 0x2e then [] # split_dots s else case split_dots s of w # ws \<Rightarrow> (c # w) # ws | [] \<Rightarrow> [[c]])"

definition inet_pton :: "bytes \<Rightarrow> bytes option" where
  "inet_pton s = (case map octet (split_dots s) of [Some a, Some b, Some c, Some d] \<Rightarrow> Some [a, b, c, d] | _ \<Rightarrow> None)"

text \<open>The members of \<open>mig_server\<close>, as bytes in memory.\<close>

record sockaddr_in =
  sin_family :: u16
  sin_port :: bytes
  sin_addr :: bytes

definition AF_INET :: u16 where "AF_INET = 2"
definition MIGRATION_PORT :: u16 where "MIGRATION_PORT = 1337"

definition htons :: "u16 \<Rightarrow> bytes" where "htons p = rev (enc16 p)"

text \<open>The structure is filled with the character \<open>0\<close> first; an invalid address is reported, and the address stays as it is then.\<close>

definition set_migration_target :: "bytes \<Rightarrow> u16 \<Rightarrow> sockaddr_in" where
  "set_migration_target ip_str port =
    (let mig_server = \<lparr>sin_family = dec16 [0x30, 0x30], sin_port = [0x30, 0x30], sin_addr = replicate 4 0x30\<rparr>;
         mig_server = mig_server\<lparr>sin_family := AF_INET\<rparr>;
         mig_server = mig_server\<lparr>sin_port := htons port\<rparr>
     in case inet_pton ip_str of Some a \<Rightarrow> mig_server\<lparr>sin_addr := a\<rparr> | None \<Rightarrow> mig_server)"

section \<open>Closing\<close>

text \<open>\<open>close\<close> is a parameter, the result of the call for a descriptor; the list are the calls made.  \<open>False\<close>: the program ends.\<close>

definition close_sock :: "(int \<Rightarrow> int) \<Rightarrow> int \<Rightarrow> int list \<Rightarrow> bool \<times> int list" where
  "close_sock close s calls = (0 \<le> close s, calls @ [s])"

definition close_migration_channel :: "(int \<Rightarrow> int) \<Rightarrow> int \<Rightarrow> int \<Rightarrow> bool \<times> int list" where
  "close_migration_channel close listen_sock com_sock =
    (let (ok, calls) = (if listen_sock \<noteq> 0 then close_sock close listen_sock [] else (True, []))
     in if ok then close_sock close com_sock calls else (False, calls))"

section \<open>Lemmas\<close>

definition params_file :: "mig_params_t \<Rightarrow> u32 \<Rightarrow> u32 \<Rightarrow> bytes" where
  "params_file mp odp prefetch =
     asc ''mode: '' @ asc (get_migration_mode_str (p_mode mp)) @ 0x0a #
     asc ''type: '' @ asc (get_migration_type_str (p_type mp)) @ 0x0a #
     asc ''use-odp: '' @ dec_str (unat odp) @ 0x0a #
     asc ''prefetch: '' @ dec_str (unat prefetch) @ [0x0a]"

lemma fscan_word:
  assumes "spaced f" and "w \<noteq> []" and "list_all (\<lambda>c. \<not> is_space c) w" and "rest = [] \<or> \<not> is_space (hd rest)"
  shows "fscan1 f scan_word [0x0a] (f @ w @ 0x0a # rest) = (Some w, rest)"
proof -
  have w: "\<not> is_space (hd w)" "takeWhile (\<lambda>c. \<not> is_space c) (w @ 0x0a # rest) = w"
    using assms(2,3) by (cases w; simp add: takeWhile_append2 is_space_val list_all_iff)+
  have "scan_lit f (f @ w @ 0x0a # rest) = (True, w @ 0x0a # rest)"
    using assms(1,2) w(1) by (intro scan_lit_text) simp_all
  moreover have "skip_ws (w @ 0x0a # rest) = w @ 0x0a # rest"
    using assms(2) w(1) by (cases w) (simp_all add: skip_ws_def)
  ultimately show ?thesis
    using assms(2) w(2) scan_nl [OF assms(4)] by (simp add: fscan1_def scan_word_def)
qed

lemma scan_into_word:
  assumes "spaced f" and "w \<noteq> []" and "list_all (\<lambda>c. \<not> is_space c) w" and "rest = [] \<or> \<not> is_space (hd rest)" and "length w < 128"
  shows "scan_into f tmp_str (f @ w @ 0x0a # rest) = Inr (w, rest)"
  using fscan_word [OF assms(1-4)] assms(5) by (simp add: scan_into_def MAX_PARAM_STR_LEN_def)

lemma text_of_asc: "text_of (asc s) = s"
proof -
  have "unat (of_char c :: u8) = of_char c" for c
    using arg_cong [OF of_nat_of_char [of c, where ?'a = "8 word"], of unat] by (simp add: unat_of_nat)
  then show ?thesis
    by (simp add: text_of_def asc_def comp_def)
qed

lemma param_strs:
  "get_migration_mode_str MIG_MODE_COMPLETE_DUMP = ''complete-dump''" "get_migration_mode_str MIG_MODE_INCREMENTAL_DUMP = ''incremental-dump''"
  "get_migration_type_str MIG_TYPE_COLD = ''cold''" "get_migration_type_str MIG_TYPE_LIVE = ''live''"
  by (simp_all add: get_migration_mode_str_def mig_mode_conv_def mode_index_def get_migration_type_str_def mig_type_conv_def type_index_def)

lemma mode_word: "asc (get_migration_mode_str v) \<noteq> []" "list_all (\<lambda>c. \<not> is_space c) (asc (get_migration_mode_str v))"
  "length (asc (get_migration_mode_str v)) < 128"
  by (cases v; simp add: param_strs asc_def is_space_def)+

lemma type_word: "asc (get_migration_type_str v) \<noteq> []" "list_all (\<lambda>c. \<not> is_space c) (asc (get_migration_type_str v))"
  "length (asc (get_migration_type_str v)) < 128"
  by (cases v; simp add: param_strs asc_def is_space_def)+

lemma param_formats: "spaced (asc ''mode: '')" "spaced (asc ''type: '')" "spaced (asc ''use-odp: '')" "spaced (asc ''prefetch: '')"
  by code_simp+

lemma param_starts: "\<not> is_space (hd (asc ''type: '' @ r))" "\<not> is_space (hd (asc ''use-odp: '' @ r))" "\<not> is_space (hd (asc ''prefetch: '' @ r))"
  by (simp_all add: asc_def is_space_def)

lemma set_mode_str: "set_migration_mode (Some (get_migration_mode_str v)) mp = mp\<lparr>p_mode := v\<rparr>"
  by (cases v) (simp_all add: set_migration_mode_def get_migration_mode_str_def mig_mode_conv_def mode_index_def)

lemma set_type_str: "set_migration_type (Some (get_migration_type_str v)) mp = mp\<lparr>p_type := v\<rparr>"
  by (cases v) (simp_all add: set_migration_type_def get_migration_type_str_def mig_type_conv_def type_index_def)

lemma fscan_dec_u32:
  assumes "spaced f" and "rest = [] \<or> \<not> is_space (hd rest)"
  shows "fscan1 f scan_dec [0x0a] (f @ dec_str (unat (w :: u32)) @ 0x0a # rest) = (Some (ucast w), rest)"
  using fscan_dec [OF assms(1) _ assms(2), of "unat w"] unat_less_exp [of w] by simp

lemma set_flags_file:
  "set_flags (asc ''use-odp: '' @ dec_str (unat odp) @ 0x0a # asc ''prefetch: '' @ dec_str (unat prefetch) @ [0x0a]) m =
    store_prefetch prefetch (store_use_odp odp m)"
  using fscan_dec_u32 [OF param_formats(3), of "asc ''prefetch: '' @ dec_str (unat prefetch) @ [0x0a]" odp] param_starts(3)
    fscan_dec_u32 [OF param_formats(4), of "[]" prefetch]
  by (simp add: set_flags_def ucast_u32)

lemma enc32_nth:
  "enc32 v ! 0 = word_of_nat (unat v mod 256)" "enc32 v ! 3 = word_of_nat (unat v div 2 ^ 24 mod 256)"
proof -
  have "(4 :: nat) = Suc (Suc (Suc (Suc 0)))" by simp
  then have e: "enc32 v = [word_of_nat (unat v mod 256), word_of_nat (unat v div 256 mod 256), word_of_nat (unat v div 256 div 256 mod 256),
      word_of_nat (unat v div 256 div 256 div 256 mod 256)]"
    unfolding enc32_def by (simp only: le_bytes.simps)
  have d: "unat v div 256 div 256 div 256 = unat v div 2 ^ 24"
    by (simp flip: div_mult2_eq)
  show "enc32 v ! 0 = word_of_nat (unat v mod 256)" "enc32 v ! 3 = word_of_nat (unat v div 2 ^ 24 mod 256)"
    unfolding e d by (simp_all add: numeral_3_eq_3)
qed

lemma enc32_bytes: "(enc32 v ! 0 \<noteq> 0) = (take_bit 8 v \<noteq> 0)" "enc32 v ! 3 = ucast (drop_bit 24 v)"
  unfolding enc32_nth
  by (simp_all add: word_unat_eq_iff unsigned_take_bit_eq unsigned_ucast_eq unsigned_drop_bit_eq take_bit_eq_mod drop_bit_eq_div
      unat_of_nat unat_mod_distrib unat_div_distrib)

lemma octet_dec: "octet (dec_str (unat (a :: u8))) = Some a"
proof -
  have "length (dec_str (unat a)) = 1 \<or> hd (dec_str (unat a)) \<noteq> 0x30"
    using dec_str_lead [of "unat a"] by (cases "unat a = 0") (simp_all add: dec_str.simps)
  then show ?thesis
    using dec_str_props [of "unat a"] unat_less_exp [of a] by (simp add: octet_def)
qed

lemma split_dots_word: "list_all isdigit w \<Longrightarrow> split_dots (w @ 0x2e # s) = w # split_dots s"
  by (induction w) (auto simp: isdigit_def)

lemma split_dots_last: "list_all isdigit w \<Longrightarrow> split_dots w = [w]"
  by (induction w) (auto simp: isdigit_def)

section \<open>Properties\<close>

text \<open>
  A parameter file.  From a file in the format that the function scans, whatever \<open>tmp_str\<close> holds, the mode and the type are those
  written there, and the flags are those of the low bytes of the two numbers; but the store of \<open>prefetch\<close> also overwrites the byte
  behind the structure.
\<close>

theorem set_migration_params_file:
  "set_migration_params tmp_str (Some (Some (params_file mp odp prefetch))) m =
     Inr \<lparr>m_params = \<lparr>p_type = p_type mp, p_mode = p_mode mp, p_use_odp = (take_bit 8 odp \<noteq> 0), p_prefetch = (take_bit 8 prefetch \<noteq> 0)\<rparr>,
       m_behind = ucast (drop_bit 24 prefetch)\<rparr>"
proof -
  let ?fl = "asc ''use-odp: '' @ dec_str (unat odp) @ 0x0a # asc ''prefetch: '' @ dec_str (unat prefetch) @ [0x0a]"
  let ?s2 = "asc ''type: '' @ asc (get_migration_type_str (p_type mp)) @ 0x0a # ?fl"
  have 1: "scan_into (asc ''mode: '') tmp_str (params_file mp odp prefetch) = Inr (asc (get_migration_mode_str (p_mode mp)), ?s2)"
    unfolding params_file_def by (rule scan_into_word) (simp_all only: param_formats mode_word param_starts simp_thms)
  have 2: "scan_into (asc ''type: '') t ?s2 = Inr (asc (get_migration_type_str (p_type mp)), ?fl)" for t
    by (rule scan_into_word) (simp_all only: param_formats type_word param_starts simp_thms)
  show ?thesis
    unfolding set_migration_params_def option.case 1 sum.case prod.case Let_def 2 set_flags_file
    by (cases m; cases "m_params m") (simp add: text_of_asc set_mode_str set_type_str store_use_odp_def store_prefetch_def enc32_bytes)
qed

text \<open>
  The destination of a migration.  A dotted IPv4 address is stored in network order with the port 1337; from a string that is no such
  address the destination is \<open>48.48.48.48\<close>, the bytes with which the structure was filled.
\<close>

theorem migration_target:
  "set_migration_target (dec_str (unat a) @ 0x2e # dec_str (unat b) @ 0x2e # dec_str (unat c) @ 0x2e # dec_str (unat d)) MIGRATION_PORT =
     \<lparr>sin_family = AF_INET, sin_port = [5, 57], sin_addr = [a, b, c, d]\<rparr> \<and>
   (inet_pton s = None \<longrightarrow> sin_addr (set_migration_target s port) = [48, 48, 48, 48])"
proof -
  have "htons MIGRATION_PORT = [5, 57]"
    by code_simp
  moreover have "inet_pton (dec_str (unat a) @ 0x2e # dec_str (unat b) @ 0x2e # dec_str (unat c) @ 0x2e # dec_str (unat d)) = Some [a, b, c, d]"
    using dec_str_props by (simp add: inet_pton_def split_dots_word split_dots_last octet_dec)
  ultimately show ?thesis
    by (simp add: set_migration_target_def numeral_eq_Suc)
qed

theorem migration_target_witness:
  "inet_pton (asc ''localhost'') = None \<and> sin_addr (set_migration_target (asc ''localhost'') MIGRATION_PORT) = [48, 48, 48, 48]"
proof -
  have "inet_pton (asc ''localhost'') = None" by code_simp
  then show ?thesis using migration_target [of 0 0 0 0 "asc ''localhost''" MIGRATION_PORT] by blast
qed

end
