(* ===== verification/Hypercalls.thy ===== *)
theory Hypercalls
  imports Mem_Mappings
begin

text \<open>
  The hypercalls of \<open>src/uhyve.c\<close>: the guest writes the address of an argument block (a packed struct of
  \<open>src/uhyve-syscalls.h\<close>) to an I/O port, \<open>vcpu_loop\<close> leaves \<open>KVM_RUN\<close> and the handler of the port works on
  the block in guest memory.

  The operating system is a parameter, the record \<open>posix\<close> of the calls the handlers make on a state of
  any type.  The virtual machine is the record \<open>vm\<close>: guest memory, the operating system's state and
  the process-wide variables the handlers change.
\<close>

unbundle bit_operations_syntax

section \<open>The state\<close>

text \<open>
  The results are those of the C functions: \<open>write\<close>, \<open>open\<close>, \<open>close\<close>, \<open>unlink\<close> and \<open>lseek\<close> return the integer
  they return (an error is -1); \<open>read\<close> returns the bytes it stored, \<open>None\<close> for -1; \<open>realpath\<close> returns
  whether it succeeded and the string its buffer then holds.
\<close>

record 'os posix =
  px_write :: "'os \<Rightarrow> u32 \<Rightarrow> bytes \<Rightarrow> u64 \<times> 'os"
  px_read :: "'os \<Rightarrow> u32 \<Rightarrow> nat \<Rightarrow> bytes option \<times> 'os"
  px_open :: "'os \<Rightarrow> bytes \<Rightarrow> u32 \<Rightarrow> u32 \<Rightarrow> u32 \<times> 'os"
  px_close :: "'os \<Rightarrow> u32 \<Rightarrow> u32 \<times> 'os"
  px_lseek :: "'os \<Rightarrow> u32 \<Rightarrow> u64 \<Rightarrow> u32 \<Rightarrow> u64 \<times> 'os"
  px_unlink :: "'os \<Rightarrow> bytes \<Rightarrow> u32 \<times> 'os"
  px_realpath :: "'os \<Rightarrow> bytes \<Rightarrow> bool \<times> bytes"
  px_eventfd :: "'os \<Rightarrow> int \<times> 'os"

record 'os vm =
  vm_mem :: gmem
  vm_os :: 'os
  vm_uart :: bytes
  vm_tx_sem :: nat
  vm_mig_sem :: nat
  vm_efd :: int
  vm_irqfds :: "(int \<times> nat) list"
  vm_net_threads :: nat
  vm_mac :: bytes
  vm_mappings :: mem_mappings_t
  vm_argv :: "bytes list"
  vm_envp :: "bytes list"

text \<open>
  What a handler needs besides the state: the architecture's \<open>virt_to_phys\<close> and
  \<open>determine_mem_mappings\<close>, the operating system, the thread's \<open>cpuid\<close>, \<open>verbose\<close>, whether
  \<open>HERMIT_NETIF\<close> is set, and the debugger stub, if
  \<open>uhyve_gdb_enabled\<close>: \<open>uhyve_gdb_handle_exception\<close> (\<open>None\<close> when it ends the process) and
  \<open>uhyve_gdb_handle_term\<close>.
\<close>

record 'os env =
  e_v2p :: "gmem \<Rightarrow> u64 \<Rightarrow> u64 \<times> u64"
  e_mem_mappings :: "gmem \<Rightarrow> u64 \<Rightarrow> mem_mappings_t option"
  e_posix :: "'os posix"
  e_cpuid :: u32
  e_verbose :: bool
  e_netif :: bool
  e_gdb :: "((nat \<Rightarrow> 'os vm \<Rightarrow> 'os vm option) \<times> ('os vm \<Rightarrow> 'os vm)) option"

definition PATH_MAX :: nat where "PATH_MAX = 4096"
definition MAX_ARGC_ENVC :: nat where "MAX_ARGC_ENVC = 128"
definition UHYVE_IRQ_NET :: nat where "UHYVE_IRQ_NET = 11"

text \<open>A path name in guest memory: the operating system reads at most \<open>PATH_MAX\<close> bytes of it.\<close>

definition path_at :: "gmem \<Rightarrow> u64 \<Rightarrow> bytes" where
  "path_at mem a = takeWhile (\<lambda>b. b \<noteq> 0) (load_bytes mem a PATH_MAX)"

section \<open>Argument blocks\<close>

text \<open>The offsets of the packed structs.\<close>

definition wr_fd :: u64 where "wr_fd = 0"
definition wr_buf :: u64 where "wr_buf = 4"
definition wr_len :: u64 where "wr_len = 12"
definition rd_fd :: u64 where "rd_fd = 0"
definition rd_buf :: u64 where "rd_buf = 4"
definition rd_len :: u64 where "rd_len = 12"
definition rd_ret :: u64 where "rd_ret = 20"
definition op_name :: u64 where "op_name = 0"
definition op_flags :: u64 where "op_flags = 8"
definition op_mode :: u64 where "op_mode = 12"
definition op_ret :: u64 where "op_ret = 16"
definition ul_name :: u64 where "ul_name = 0"
definition ul_ret :: u64 where "ul_ret = 8"
definition cl_fd :: u64 where "cl_fd = 0"
definition cl_ret :: u64 where "cl_ret = 4"
definition ls_fd :: u64 where "ls_fd = 0"
definition ls_offset :: u64 where "ls_offset = 4"
definition ls_whence :: u64 where "ls_whence = 12"
definition cs_argc :: u64 where "cs_argc = 0"
definition cs_argsz :: u64 where "cs_argsz = 4"
definition cs_envc :: u64 where "cs_envc = 4 + 4 * word_of_nat MAX_ARGC_ENVC"
definition cs_envsz :: u64 where "cs_envsz = 8 + 4 * word_of_nat MAX_ARGC_ENVC"
definition cv_argv :: u64 where "cv_argv = 0"
definition cv_envp :: u64 where "cv_envp = 8"

lemmas block_offsets [layout_defs] = wr_fd_def wr_buf_def wr_len_def rd_fd_def rd_buf_def rd_len_def rd_ret_def
  op_name_def op_flags_def op_mode_def op_ret_def ul_name_def ul_ret_def cl_fd_def cl_ret_def
  ls_fd_def ls_offset_def ls_whence_def cs_argc_def cs_argsz_def cs_envc_def cs_envsz_def cv_argv_def cv_envp_def

section \<open>Write and read\<close>

text \<open>
  The loops of \<open>UHYVE_PORT_WRITE\<close> and \<open>UHYVE_PORT_READ\<close>, page by page.  \<open>None\<close>: still looping after
  \<open>fuel\<close> pages.
\<close>

fun write_loop :: "(gmem \<Rightarrow> u64 \<Rightarrow> u64 \<times> u64) \<Rightarrow> 'os posix \<Rightarrow> nat \<Rightarrow> u64 \<Rightarrow> u64 \<Rightarrow> u64 \<Rightarrow> gmem \<Rightarrow> 'os \<Rightarrow> (u64 \<times> 'os) option" where
  "write_loop v2p px fuel arg bytes_to_write bytes_written mem os =
    (if bytes_to_write = 0 then Some (bytes_written, os)
     else case fuel of 0 \<Rightarrow> None
      | Suc fuel' \<Rightarrow>
        (let (pa, pe) = v2p mem (load64 mem (arg + wr_buf) + bytes_written);
             step = min (pe - pa) bytes_to_write;
             (written_step, os) = px_write px os (load32 mem (arg + wr_fd)) (load_bytes mem pa (unat step));
             bytes_written = bytes_written + written_step
         in if written_step < step then Some (bytes_written, os)
            else write_loop v2p px fuel' arg (bytes_to_write - step) bytes_written mem os))"

fun read_loop :: "(gmem \<Rightarrow> u64 \<Rightarrow> u64 \<times> u64) \<Rightarrow> 'os posix \<Rightarrow> nat \<Rightarrow> u64 \<Rightarrow> u64 \<Rightarrow> u64 \<Rightarrow> gmem \<Rightarrow> 'os \<Rightarrow> (u64 \<times> gmem \<times> 'os) option" where
  "read_loop v2p px fuel arg bytes_to_read bytes_read mem os =
    (if bytes_to_read = 0 then Some (bytes_read, mem, os)
     else case fuel of 0 \<Rightarrow> None
      | Suc fuel' \<Rightarrow>
        (let (pa, pe) = v2p mem (load64 mem (arg + rd_buf) + bytes_read);
             step = min (pe - pa) bytes_to_read;
             (res, os) = px_read px os (load32 mem (arg + rd_fd)) (unat step);
             (read_step, mem) = (case res of None \<Rightarrow> (-1, mem)
                | Some bs \<Rightarrow> (word_of_nat (length bs), store_bytes mem pa bs));
             bytes_read = bytes_read + read_step
         in if read_step < step then Some (bytes_read, mem, os)
            else read_loop v2p px fuel' arg (bytes_to_read - step) bytes_read mem os))"

declare write_loop.simps [simp del] read_loop.simps [simp del]

definition port_write :: "'os env \<Rightarrow> nat \<Rightarrow> u64 \<Rightarrow> 'os vm \<Rightarrow> 'os vm option" where
  "port_write e fuel arg vm =
    map_option (\<lambda>(written, os). vm\<lparr>vm_os := os, vm_mem := store64 (vm_mem vm) (arg + wr_len) written\<rparr>)
      (write_loop (e_v2p e) (e_posix e) fuel arg (load64 (vm_mem vm) (arg + wr_len)) 0 (vm_mem vm) (vm_os vm))"

definition port_read :: "'os env \<Rightarrow> nat \<Rightarrow> u64 \<Rightarrow> 'os vm \<Rightarrow> 'os vm option" where
  "port_read e fuel arg vm =
    map_option (\<lambda>(bytes_read, mem, os). vm\<lparr>vm_os := os, vm_mem := store64 mem (arg + rd_ret) bytes_read\<rparr>)
      (read_loop (e_v2p e) (e_posix e) fuel arg (load64 (vm_mem vm) (arg + rd_len)) 0 (vm_mem vm) (vm_os vm))"

section \<open>The other ports\<close>

definition port_unlink :: "'os env \<Rightarrow> u64 \<Rightarrow> 'os vm \<Rightarrow> 'os vm" where
  "port_unlink e arg vm =
    (let mem = vm_mem vm;
         (ret, os) = px_unlink (e_posix e) (vm_os vm) (path_at mem (load64 mem (arg + ul_name)))
     in vm\<lparr>vm_os := os, vm_mem := store32 mem (arg + ul_ret) ret\<rparr>)"

definition dev_kvm :: bytes where
  "dev_kvm = [0x2f, 0x64, 0x65, 0x76, 0x2f, 0x6b, 0x76, 0x6d]"

text \<open>
  \<open>realpath\<close> returns a pointer, so that \<open>realpath(...) < 0\<close> is false whatever it returns and the first
  branch of the C code is dead.
\<close>

definition port_open :: "'os env \<Rightarrow> u64 \<Rightarrow> 'os vm \<Rightarrow> 'os vm" where
  "port_open e arg vm =
    (let mem = vm_mem vm;
         name = path_at mem (load64 mem (arg + op_name));
         (_, rpath) = px_realpath (e_posix e) (vm_os vm) name
     in if rpath = dev_kvm then vm\<lparr>vm_mem := store32 mem (arg + op_ret) (-1)\<rparr>
        else let (ret, os) = px_open (e_posix e) (vm_os vm) name (load32 mem (arg + op_flags)) (load32 mem (arg + op_mode))
             in vm\<lparr>vm_os := os, vm_mem := store32 mem (arg + op_ret) ret\<rparr>)"

definition port_close :: "'os env \<Rightarrow> u64 \<Rightarrow> 'os vm \<Rightarrow> 'os vm" where
  "port_close e arg vm =
    (let mem = vm_mem vm; fd = load32 mem (arg + cl_fd)
     in if sint fd > 2
        then let (ret, os) = px_close (e_posix e) (vm_os vm) fd
             in vm\<lparr>vm_os := os, vm_mem := store32 mem (arg + cl_ret) ret\<rparr>
        else vm\<lparr>vm_mem := store32 mem (arg + cl_ret) 0\<rparr>)"

definition port_lseek :: "'os env \<Rightarrow> u64 \<Rightarrow> 'os vm \<Rightarrow> 'os vm" where
  "port_lseek e arg vm =
    (let mem = vm_mem vm;
         (off, os) = px_lseek (e_posix e) (vm_os vm) (load32 mem (arg + ls_fd)) (load64 mem (arg + ls_offset))
                       (load32 mem (arg + ls_whence))
     in vm\<lparr>vm_os := os, vm_mem := store64 mem (arg + ls_offset) off\<rparr>)"

text \<open>\<open>check_network\<close> starts the two network threads when the guest configures its device first.\<close>

definition check_network :: "'os env \<Rightarrow> 'os vm \<Rightarrow> 'os vm" where
  "check_network e vm =
    (if vm_efd vm < 0 \<and> e_netif e
     then let (efd, os) = px_eventfd (e_posix e) (vm_os vm)
          in vm\<lparr>vm_os := os, vm_efd := efd, vm_irqfds := vm_irqfds vm @ [(efd, UHYVE_IRQ_NET)],
                vm_tx_sem := 1, vm_net_threads := vm_net_threads vm + 2\<rparr>
     else vm)"

definition port_netinfo :: "'os env \<Rightarrow> u64 \<Rightarrow> 'os vm \<Rightarrow> 'os vm" where
  "port_netinfo e arg vm = check_network e (vm\<lparr>vm_mem := store_bytes (vm_mem vm) arg (take 6 (vm_mac vm))\<rparr>)"

definition port_netwrite :: "'os vm \<Rightarrow> 'os vm" where
  "port_netwrite vm = vm\<lparr>vm_tx_sem := vm_tx_sem vm + 1\<rparr>"

definition store_sizes :: "u64 \<Rightarrow> bytes list \<Rightarrow> gmem \<Rightarrow> gmem" where
  "store_sizes base strs mem =
     fold (\<lambda>i mem. store32 mem (base + 4 * word_of_nat i) (word_of_nat (length (strs ! i)) + 1)) [0..<length strs] mem"

definition port_cmdsize :: "u64 \<Rightarrow> 'os vm \<Rightarrow> 'os vm" where
  "port_cmdsize arg vm =
    (let mem = store32 (vm_mem vm) (arg + cs_argc) (word_of_nat (length (vm_argv vm)));
         mem = store_sizes (arg + cs_argsz) (vm_argv vm) mem;
         mem = store32 mem (arg + cs_envc) (word_of_nat (length (vm_envp vm)));
         mem = store_sizes (arg + cs_envsz) (vm_envp vm) mem
     in vm\<lparr>vm_mem := mem\<rparr>)"

definition strcpy :: "gmem \<Rightarrow> u64 \<Rightarrow> bytes \<Rightarrow> gmem" where
  "strcpy mem dest s = store_bytes mem dest (s @ [0])"

definition copy_strings :: "u64 \<Rightarrow> bytes list \<Rightarrow> gmem \<Rightarrow> gmem" where
  "copy_strings ptrs strs mem =
     fold (\<lambda>i mem. strcpy mem (load64 mem (ptrs + 8 * word_of_nat i)) (strs ! i)) [0..<length strs] mem"

definition port_cmdval :: "u64 \<Rightarrow> 'os vm \<Rightarrow> 'os vm" where
  "port_cmdval arg vm =
    (let mem = vm_mem vm;
         mem = copy_strings (load64 mem (arg + cv_argv)) (vm_argv vm) mem;
         mem = copy_strings (load64 mem (arg + cv_envp)) (vm_envp vm) mem
     in vm\<lparr>vm_mem := mem\<rparr>)"

definition port_freelist :: "'os env \<Rightarrow> u64 \<Rightarrow> 'os vm \<Rightarrow> 'os vm option" where
  "port_freelist e arg vm =
    (if arg = 0 then Some (vm\<lparr>vm_mig_sem := vm_mig_sem vm + 1\<rparr>)
     else map_option (\<lambda>mm. vm\<lparr>vm_mappings := mm, vm_mig_sem := vm_mig_sem vm + 1\<rparr>)
            (e_mem_mappings e (vm_mem vm) arg))"

section \<open>The loops under the contracts of the interfaces\<close>

text \<open>POSIX: a successful \<open>write\<close> transfers a prefix of the data and returns its length.\<close>

definition write_contract :: "'os posix \<Rightarrow> u32 \<Rightarrow> ('os \<Rightarrow> bytes) \<Rightarrow> bool" where
  "write_contract px fd out \<longleftrightarrow> (\<forall>os bs. let (r, os') = px_write px os fd bs
     in unat r \<le> length bs \<and> out os' = out os @ take (unat r) bs)"

definition write_full :: "'os posix \<Rightarrow> u32 \<Rightarrow> bool" where
  "write_full px fd \<longleftrightarrow> (\<forall>os bs. fst (px_write px os fd bs) = word_of_nat (length bs))"

text \<open>POSIX: a successful \<open>read\<close> takes at most the requested number of bytes from the front of the input.\<close>

definition read_contract :: "'os posix \<Rightarrow> u32 \<Rightarrow> ('os \<Rightarrow> bytes) \<Rightarrow> bool" where
  "read_contract px fd inp \<longleftrightarrow> (\<forall>os n. \<exists>bs os'. px_read px os fd n = (Some bs, os') \<and> length bs \<le> n \<and> inp os = bs @ inp os')"

text \<open>
  The destination of a read: its bytes lie at distinct guest-physical addresses, none of which belongs
  to the argument block or to a table entry that translates the buffer.
\<close>

definition buffer_ok :: "(gmem \<Rightarrow> u64 \<Rightarrow> u64 \<times> u64) \<Rightarrow> (gmem \<Rightarrow> u64 \<Rightarrow> u64 list) \<Rightarrow> gmem \<Rightarrow> u64 \<Rightarrow> u64 \<Rightarrow> nat \<Rightarrow> bool" where
  "buffer_ok v2p reads mem arg buf n \<longleftrightarrow>
    (let phys = (\<lambda>i. fst (v2p mem (buf + word_of_nat i)))
     in distinct (map phys [0..<n]) \<and>
        (\<forall>i < n. \<not> in_run (phys i) arg 28 \<and> (\<forall>j < n. \<forall>a \<in> set (reads mem (buf + word_of_nat j)). \<not> in_run (phys i) a 8)))"

context translation
begin

lemma write_loop_sends:
  assumes "write_contract px (load32 mem (arg + wr_fd)) out"
    and "\<forall>i < unat n. tr_ok mem (load64 mem (arg + wr_buf) + k + word_of_nat i)" and "unat n \<le> fuel"
  shows "\<exists>w os'. write_loop v2p px fuel arg n k mem os = Some (k + w, os') \<and> unat w \<le> unat n \<and>
    out os' = out os @ take (unat w) (virt_bytes mem (load64 mem (arg + wr_buf) + k) (unat n)) \<and>
    (write_full px (load32 mem (arg + wr_fd)) \<longrightarrow> w = n)"
  using assms(2,3)
proof (induction fuel arbitrary: n k os)
  case 0
  then have "n = 0" by (simp add: unat_eq_0)
  then show ?case
    by (intro exI [of _ 0] exI [of _ os]) (simp add: write_loop.simps [of _ _ _ _ 0])
next
  case (Suc fuel)
  let ?fd = "load32 mem (arg + wr_fd)" and ?va = "load64 mem (arg + wr_buf) + k"
  show ?case
  proof (cases "n = 0")
    case True
    then show ?thesis
      by (intro exI [of _ 0] exI [of _ os]) (simp add: write_loop.simps [of _ _ _ _ 0])
  next
    case False
    then have ok: "tr_ok mem ?va"
      using Suc.prems(1) [rule_format, of 0] by (simp add: unat_gt_0)
    obtain pa pe where v: "v2p mem ?va = (pa, pe)" by fastforce
    define s where "s = min (pe - pa) n"
    note ps = page_step [OF ok v False, folded s_def]
    obtain r os1 where w: "px_write px os ?fd (load_bytes mem pa (unat s)) = (r, os1)" by fastforce
    have r: "unat r \<le> unat s" and o1: "out os1 = out os @ take (unat r) (load_bytes mem pa (unat s))"
      using assms(1) [unfolded write_contract_def, rule_format, of os "load_bytes mem pa (unat s)"] w by simp_all
    have split: "virt_bytes mem ?va (unat n) = load_bytes mem pa (unat s) @ virt_bytes mem (?va + s) (unat n - unat s)"
      using virt_bytes_append [of mem ?va "unat s" "unat n - unat s"] ps(2,3) by simp
    have step: "write_loop v2p px (Suc fuel) arg n k mem os =
        (if r < s then Some (k + r, os1) else write_loop v2p px fuel arg (n - s) (k + r) mem os1)"
      using False v w by (simp add: write_loop.simps [of _ _ "Suc fuel"] s_def [symmetric] Let_def del: min_less_iff_conj)
    show ?thesis
    proof (cases "r < s")
      case True
      have "\<not> write_full px ?fd"
        using w True by (auto simp: write_full_def intro!: exI [of _ os] exI [of _ "load_bytes mem pa (unat s)"])
      then show ?thesis
        using True step o1 split r ps(2) by (intro exI [of _ r] exI [of _ os1]) simp
    next
      case False
      then have rs: "r = s" using r by (simp add: word_le_nat_alt not_less word_unat_eq_iff)
      have m: "\<forall>i < unat (n - s). tr_ok mem (load64 mem (arg + wr_buf) + (k + s) + word_of_nat i)"
      proof (intro allI impI)
        fix i assume "i < unat (n - s)"
        then have "tr_ok mem (?va + word_of_nat (unat s + i))"
          by (intro Suc.prems(1) [rule_format]) (simp add: ps(4))
        then show "tr_ok mem (load64 mem (arg + wr_buf) + (k + s) + word_of_nat i)"
          by (simp add: word_of_nat_plus_unat add.assoc)
      qed
      have "unat (n - s) \<le> fuel"
        using ps(1,4) Suc.prems(2) by simp
      from Suc.IH [OF m this, of os1] obtain w' os' where
        l: "write_loop v2p px fuel arg (n - s) (k + s) mem os1 = Some (k + s + w', os')" and w': "unat w' \<le> unat n - unat s"
        and o': "out os' = out os1 @ take (unat w') (virt_bytes mem (?va + s) (unat n - unat s))"
        and full: "write_full px ?fd \<longrightarrow> w' = n - s"
        by (auto simp: ps(4) add.assoc)
      have u: "unat (s + w') = unat s + unat w'"
        using w' ps(2) by (intro unat_plus_le [of _ _ n]) simp
      show ?thesis
        using step False rs l o' o1 split u full w' ps(2)
        by (intro exI [of _ "s + w'"] exI [of _ os']) (simp add: add.assoc)
    qed
  qed
qed

lemma read_loop_receives:
  fixes mem0 :: gmem and arg buf :: u64
  defines "phys \<equiv> \<lambda>i. fst (v2p mem0 (buf + word_of_nat i))"
  assumes con: "read_contract px (load32 mem0 (arg + rd_fd)) inp"
    and buf: "buf = load64 mem0 (arg + rd_buf)"
    and ok: "\<forall>i < N. tr_ok mem0 (buf + word_of_nat i)"
    and dst: "buffer_ok v2p tr_reads mem0 arg buf N"
    and "k + unat n = N" and "unat n \<le> fuel" and "\<forall>x. x \<notin> phys ` {..<k} \<longrightarrow> m x = mem0 x"
    and N: "N < 2 ^ 64"
  shows "\<exists>data m' os'. read_loop v2p px fuel arg n (word_of_nat k) m os = Some (word_of_nat (k + length data), m', os') \<and>
    length data \<le> unat n \<and> inp os = data @ inp os' \<and> (\<forall>i < length data. m' (phys (k + i)) = data ! i) \<and>
    (\<forall>x. x \<notin> phys ` {k..<k + length data} \<longrightarrow> m' x = m x)"
  using assms(6,7,8)
proof (induction fuel arbitrary: n k m os)
  case 0
  then show ?case by (intro exI [of _ "[]"]) (simp add: read_loop.simps unat_eq_0)
next
  case (Suc fuel)
  have apart: "\<not> in_run (phys i) arg 28" "\<And>j a. j < N \<Longrightarrow> a \<in> set (tr_reads mem0 (buf + word_of_nat j)) \<Longrightarrow> \<not> in_run (phys i) a 8"
    if "i < N" for i
    using dst that unfolding buffer_ok_def phys_def Let_def by auto
  have inj: "phys i = phys j \<Longrightarrow> i < N \<Longrightarrow> j < N \<Longrightarrow> i = j" for i j
    using dst unfolding buffer_ok_def Let_def phys_def [symmetric] by (simp add: distinct_map inj_on_def)
  show ?case
  proof (cases "n = 0")
    case True
    then show ?thesis by (intro exI [of _ "[]"]) (simp add: read_loop.simps [of _ _ _ _ 0])
  next
    case False
    then have kN: "k < N"
      using Suc.prems(1) unat_gt_0 [of n] by simp
    have same: "m x = mem0 x" if "\<And>i. i < N \<Longrightarrow> x \<noteq> phys i" for x
      using Suc.prems(3) that kN by (metis imageE lessThan_iff order.strict_trans)
    have fd: "load32 m (arg + rd_fd) = load32 mem0 (arg + rd_fd)"
      by (intro load32_cong same) (use apart(1) in_run_shift [of _ arg 0 4 28] in \<open>auto simp: rd_fd_def\<close>)
    have bf: "load64 m (arg + rd_buf) = buf"
      unfolding buf
      by (intro load64_cong same) (use apart(1) in_run_shift [of _ arg 4 8 28] in \<open>auto simp: rd_buf_def\<close>)
    have vs: "v2p m (buf + word_of_nat k) = v2p mem0 (buf + word_of_nat k)"
      by (intro local ballI load64_cong same) (use apart(2) kN in auto)
    obtain pa pe where v: "v2p mem0 (buf + word_of_nat k) = (pa, pe)" by fastforce
    have okk: "tr_ok mem0 (buf + word_of_nat k)" using ok kN by blast
    define s where "s = min (pe - pa) n"
    note ps = page_step [OF okk v False, folded s_def]
    have lin: "phys (k + i) = pa + word_of_nat i" if "i < unat s" for i
    proof -
      have "unat s \<le> unat (pe - pa)" by (simp add: s_def flip: word_le_nat_alt)
      then show ?thesis
        using linear [OF okk v, of i] that by (simp add: phys_def add.assoc)
    qed
    obtain bs os1 where r: "px_read px os (load32 mem0 (arg + rd_fd)) (unat s) = (Some bs, os1)"
      and lb: "length bs \<le> unat s" and i1: "inp os = bs @ inp os1"
      using con unfolding read_contract_def by blast
    define m1 where "m1 = store_bytes m pa bs"
    have ls: "unat s < 2 ^ 64" using unat_less_exp [of s] by simp
    have new: "m1 (phys (k + i)) = bs ! i" if "i < length bs" for i
    proof -
      have u: "unat (pa + word_of_nat i - pa) = i"
        using that lb ls by (simp add: unat_word_of_nat_u64)
      show ?thesis
        using that lb u by (simp add: lin m1_def store_bytes_in in_run_def)
    qed
    have old: "m1 x = m x" if "x \<notin> phys ` {k..<k + length bs}" for x
    proof -
      have "\<not> in_run x pa (length bs)"
      proof
        assume "in_run x pa (length bs)"
        then have i: "unat (x - pa) < length bs" by (simp add: in_run_def)
        then have "x = phys (k + unat (x - pa))"
          using lb by (simp add: lin)
        with that i show False by auto
      qed
      then show ?thesis by (simp add: m1_def store_bytes_out)
    qed
    have ul: "unat (word_of_nat (length bs) :: u64) = length bs"
      using lb ls by (intro unat_word_of_nat_u64) simp
    have step: "read_loop v2p px (Suc fuel) arg n (word_of_nat k) m os =
        (if length bs < unat s then Some (word_of_nat (k + length bs), m1, os1)
         else read_loop v2p px fuel arg (n - s) (word_of_nat (k + length bs)) m1 os1)"
      using False v r ul by (simp add: read_loop.simps [of _ _ "Suc fuel"] s_def [symmetric] bf fd vs m1_def word_less_nat_alt)
    show ?thesis
    proof (cases "length bs < unat s")
      case True
      then show ?thesis
        using step i1 new old lb ps(2) by (intro exI [of _ bs] exI [of _ m1] exI [of _ os1]) simp
    next
      case False
      then have eq: "length bs = unat s" using lb by simp
      have "k + length bs + unat (n - s) = N" "unat (n - s) \<le> fuel"
        using ps eq Suc.prems(1,2) by auto
      moreover have "\<forall>x. x \<notin> phys ` {..<k + length bs} \<longrightarrow> m1 x = mem0 x"
      proof (intro allI impI)
        fix x assume x: "x \<notin> phys ` {..<k + length bs}"
        then have "x \<notin> phys ` {k..<k + length bs}" "x \<notin> phys ` {..<k}" by auto
        then show "m1 x = mem0 x" using old Suc.prems(3) by simp
      qed
      ultimately obtain data m' os' where
        l: "read_loop v2p px fuel arg (n - s) (word_of_nat (k + length bs)) m1 os1 =
              Some (word_of_nat (k + length bs + length data), m', os')"
        and d: "length data \<le> unat (n - s)" "inp os1 = data @ inp os'"
        and nw: "\<forall>i < length data. m' (phys (k + length bs + i)) = data ! i"
        and od: "\<forall>x. x \<notin> phys ` {k + length bs..<k + length bs + length data} \<longrightarrow> m' x = m1 x"
        using Suc.IH [of "k + length bs" "n - s" m1 os1] by blast
      have bound: "k + length bs + length data \<le> N"
        using d(1) ps(2,4) eq Suc.prems(1) by simp
      have keep: "m' (phys (k + i)) = bs ! i" if "i < length bs" for i
      proof -
        have "phys (k + i) \<notin> phys ` {k + length bs..<k + length bs + length data}"
          using that bound inj by fastforce
        then show ?thesis using od new that by simp
      qed
      have "m' (phys (k + i)) = (bs @ data) ! i" if "i < length (bs @ data)" for i
        using that keep [of i] nw [rule_format, of "i - length bs"]
        by (cases "i < length bs") (simp_all add: nth_append)
      moreover have "\<forall>x. x \<notin> phys ` {k..<k + length (bs @ data)} \<longrightarrow> m' x = m x"
      proof (intro allI impI)
        fix x assume x: "x \<notin> phys ` {k..<k + length (bs @ data)}"
        then have "x \<notin> phys ` {k + length bs..<k + length bs + length data}" "x \<notin> phys ` {k..<k + length bs}" by auto
        then show "m' x = m x" using od old by simp
      qed
      ultimately show ?thesis
        using step False l d i1 ps(2,4) eq
        by (intro exI [of _ "bs @ data"] exI [of _ m'] exI [of _ os']) (simp add: add.assoc)
    qed
  qed
qed

end

section \<open>Properties\<close>

text \<open>The bytes the guest has at the virtual addresses \<open>[va, va+n)\<close>.\<close>

definition guest_bytes :: "gmem \<Rightarrow> u64 \<Rightarrow> nat \<Rightarrow> bytes" where
  "guest_bytes mem va n = map (\<lambda>i. mem (virt_to_phys_with_offset mem (va + word_of_nat i))) [0..<n]"

lemma guest_bytes_virt: "x86.virt_bytes mem va n = guest_bytes mem va n"
  by (simp add: x86.virt_bytes_def guest_bytes_def virt_to_phys_with_offset_def)

text \<open>
  A file descriptor for the witnesses: input and output are byte lists, and a \<open>write\<close> accepts at most
  two bytes.
\<close>

definition pipe_posix :: "(bytes \<times> bytes) posix" where
  "pipe_posix = \<lparr>px_write = (\<lambda>(i, out) fd bs. (word_of_nat (min 2 (length bs)), (i, out @ take 2 bs))),
     px_read = (\<lambda>(i, out) fd n. (Some (take n i), (drop n i, out))),
     px_open = (\<lambda>os _ _ _. (3, os)), px_close = (\<lambda>os _. (0, os)), px_lseek = (\<lambda>os _ off _. (off, os)),
     px_unlink = (\<lambda>os _. (0, os)), px_realpath = (\<lambda>_ p. (True, p)), px_eventfd = (\<lambda>os. (5, os))\<rparr>"

definition pipe_env :: "(bytes \<times> bytes) env" where
  "pipe_env = \<lparr>e_v2p = virt_to_phys, e_mem_mappings = (\<lambda>_ _. None), e_posix = pipe_posix, e_cpuid = 0,
     e_verbose = False, e_netif = False, e_gdb = None\<rparr>"

definition pipe_vm :: "gmem \<Rightarrow> bytes \<Rightarrow> (bytes \<times> bytes) vm" where
  "pipe_vm mem inp = \<lparr>vm_mem = mem, vm_os = (inp, []), vm_uart = [], vm_tx_sem = 0, vm_mig_sem = 0, vm_efd = -1,
     vm_irqfds = [], vm_net_threads = 0, vm_mac = [], vm_mappings = \<lparr>mem_chunks = (\<lambda>_. \<lparr>c_size = 0, c_ptr = 0\<rparr>), count = 0\<rparr>,
     vm_argv = [], vm_envp = []\<rparr>"

text \<open>An argument block at \<open>0x20000\<close> for the descriptor 1, the buffer \<open>buf\<close> and the length \<open>len\<close>.\<close>

definition block_mem :: "u64 \<Rightarrow> u64 \<Rightarrow> gmem" where
  "block_mem buf len = store64 (store64 (store32 tiny_mem 0x20000 1) 0x20004 buf) 0x2000C len"

lemma pipe_write_contract: "write_contract pipe_posix fd snd"
  by (auto simp: write_contract_def pipe_posix_def unat_of_nat min_def split: prod.splits)

lemma pipe_read_contract: "read_contract pipe_posix fd fst"
  by (auto simp: read_contract_def pipe_posix_def)

lemma block_mem_loads:
  "load64 (block_mem buf len) 0x10000 = 0x10003" "load32 (block_mem buf len) 0x20000 = 1"
  "load64 (block_mem buf len) 0x20004 = buf" "load64 (block_mem buf len) 0x2000C = len"
  unfolding block_mem_def
  by (simp_all add: load64_store64_other load32_store64_other load64_store32_other disj_num tiny_load)

text \<open>
  C1.  \<open>UHYVE_PORT_WRITE\<close> on a buffer whose addresses are mapped ends, sends the bytes the guest has
  at the virtual addresses of the buffer, in order and without a gap across pages, up to the first
  short write, reports their number in \<open>len\<close> and changes nothing else in guest memory; with a
  descriptor that takes every write in full the whole buffer is sent.
\<close>

theorem port_write_sends:
  assumes "e_v2p e = virt_to_phys"
    and "write_contract (e_posix e) (load32 (vm_mem vm) (arg + wr_fd)) out"
    and "buf = load64 (vm_mem vm) (arg + wr_buf)" and "len = load64 (vm_mem vm) (arg + wr_len)"
    and "\<forall>i < unat len. mapped_low (vm_mem vm) (buf + word_of_nat i)" and "unat len \<le> fuel"
  shows "\<exists>n vm'. port_write e fuel arg vm = Some vm' \<and> unat n \<le> unat len \<and>
    out (vm_os vm') = out (vm_os vm) @ take (unat n) (guest_bytes (vm_mem vm) buf (unat len)) \<and>
    load64 (vm_mem vm') (arg + wr_len) = n \<and>
    (\<forall>x. \<not> in_run x (arg + wr_len) 8 \<longrightarrow> vm_mem vm' x = vm_mem vm x) \<and>
    (write_full (e_posix e) (load32 (vm_mem vm) (arg + wr_fd)) \<longrightarrow> n = len)"
proof -
  obtain w os' where "write_loop virt_to_phys (e_posix e) fuel arg len 0 (vm_mem vm) (vm_os vm) = Some (w, os')"
    and "unat w \<le> unat len" "out os' = out (vm_os vm) @ take (unat w) (guest_bytes (vm_mem vm) buf (unat len))"
    and "write_full (e_posix e) (load32 (vm_mem vm) (arg + wr_fd)) \<longrightarrow> w = len"
    using x86.write_loop_sends [OF assms(2), of len 0 fuel "vm_os vm"] assms(3,5,6)
    by (auto simp: guest_bytes_virt)
  then show ?thesis
    using assms(1,4) by (intro exI [of _ w]) (simp add: port_write_def store64_outside)
qed

theorem port_write_sends_witness:
  "\<exists>n vm'. port_write pipe_env 3 0x20000 (pipe_vm (block_mem 0x123 3) []) = Some vm' \<and> unat n \<le> 3 \<and>
     snd (vm_os vm') = take (unat n) (guest_bytes (block_mem 0x123 3) 0x123 3) \<and>
     load64 (vm_mem vm') 0x2000C = n"
proof -
  have m: "\<forall>i < unat (3::u64). mapped_low (vm_mem (pipe_vm (block_mem 0x123 3) [])) (0x123 + word_of_nat i)"
  proof (intro allI impI)
    fix i :: nat assume "i < unat (3::u64)"
    then have "i = 0 \<or> i = 1 \<or> i = 2" by auto
    then show "mapped_low (vm_mem (pipe_vm (block_mem 0x123 3) [])) (0x123 + word_of_nat i)"
      by (elim disjE) (simp_all add: self_mapped block_mem_loads pipe_vm_def)
  qed
  from port_write_sends [where e = pipe_env and vm = "pipe_vm (block_mem 0x123 3) []" and arg = "0x20000"
      and out = snd and buf = "0x123" and len = 3 and fuel = 3, OF _ _ _ _ m]
  show ?thesis
    by (fastforce simp: pipe_env_def pipe_vm_def block_offsets block_mem_loads pipe_write_contract)
qed





end
