(* ===== verification/Vcpu_Loop.thy ===== *)
theory Vcpu_Loop
  imports Hypercalls
begin

text \<open>
  The exit dispatch of \<open>vcpu_loop\<close> (\<open>src/uhyve.c\<close>).  Each result of \<open>ioctl(KVM_RUN)\<close> is a value of
  \<open>run_result\<close>; \<open>vcpu_run\<close> handles a sequence of them, one per turn of the \<open>while (1)\<close> loop.
\<close>

unbundle bit_operations_syntax

section \<open>Exits\<close>

datatype kvm_exit =
    KVM_EXIT_HLT
  | KVM_EXIT_MMIO u64 bool u32
  | KVM_EXIT_IO u16 u32
  | KVM_EXIT_FAIL_ENTRY
  | KVM_EXIT_INTERNAL_ERROR
  | KVM_EXIT_SHUTDOWN
  | KVM_EXIT_DEBUG
  | KVM_EXIT_OTHER u32

datatype run_result = RunExit kvm_exit | RunErrno nat

text \<open>
  What a turn of the loop ends in: the next turn, \<open>return 0\<close>, \<open>exit\<close> of the process with a status,
  \<open>pthread_exit\<close> with a pointer into guest memory, or \<open>err(1, ...)\<close>.
\<close>

datatype 'vm outcome =
    Continue 'vm
  | Return0 'vm
  | ProcessExit u32 'vm
  | ThreadExit u64 'vm
  | Fatal

definition EINTR :: nat where "EINTR = 4"
definition EXIT_FAILURE :: u32 where "EXIT_FAILURE = 1"
definition GDB_SIGNAL_TRAP :: nat where "GDB_SIGNAL_TRAP = 5"
definition GDB_SIGNAL_SEGV :: nat where "GDB_SIGNAL_SEGV = 11"

definition UHYVE_PORT_WRITE :: u64 where "UHYVE_PORT_WRITE = 0x400"
definition UHYVE_PORT_OPEN :: u64 where "UHYVE_PORT_OPEN = 0x440"
definition UHYVE_PORT_CLOSE :: u64 where "UHYVE_PORT_CLOSE = 0x480"
definition UHYVE_PORT_READ :: u64 where "UHYVE_PORT_READ = 0x500"
definition UHYVE_PORT_EXIT :: u64 where "UHYVE_PORT_EXIT = 0x540"
definition UHYVE_PORT_LSEEK :: u64 where "UHYVE_PORT_LSEEK = 0x580"
definition UHYVE_PORT_NETINFO :: u64 where "UHYVE_PORT_NETINFO = 0x600"
definition UHYVE_PORT_NETWRITE :: u64 where "UHYVE_PORT_NETWRITE = 0x640"
definition UHYVE_PORT_FREELIST :: u64 where "UHYVE_PORT_FREELIST = 0x720"
definition UHYVE_PORT_CMDSIZE :: u64 where "UHYVE_PORT_CMDSIZE = 0x740"
definition UHYVE_PORT_CMDVAL :: u64 where "UHYVE_PORT_CMDVAL = 0x780"
definition UHYVE_UART_PORT :: u64 where "UHYVE_UART_PORT = 0x800"
definition UHYVE_PORT_UNLINK :: u64 where "UHYVE_PORT_UNLINK = 0x840"

lemmas port_defs [layout_defs] = UHYVE_PORT_WRITE_def UHYVE_PORT_OPEN_def UHYVE_PORT_CLOSE_def UHYVE_PORT_READ_def
  UHYVE_PORT_EXIT_def UHYVE_PORT_LSEEK_def UHYVE_PORT_NETINFO_def UHYVE_PORT_NETWRITE_def UHYVE_PORT_FREELIST_def
  UHYVE_PORT_CMDSIZE_def UHYVE_PORT_CMDVAL_def UHYVE_UART_PORT_def UHYVE_PORT_UNLINK_def

section \<open>Dispatch\<close>

definition port_uart :: "'os env \<Rightarrow> u32 \<Rightarrow> 'os vm \<Rightarrow> 'os vm" where
  "port_uart e raddr vm = (if e_verbose e then vm\<lparr>vm_uart := vm_uart vm @ [ucast raddr]\<rparr> else vm)"

definition port_exit :: "'os env \<Rightarrow> u64 \<Rightarrow> 'os vm \<Rightarrow> 'os vm outcome" where
  "port_exit e arg vm =
    (if e_cpuid e \<noteq> 0 then ThreadExit arg vm else ProcessExit (load32 (vm_mem vm) arg) vm)"

text \<open>The inner \<open>switch (port)\<close>; \<open>raddr\<close> is a 32-bit value and addresses \<open>guest_mem+raddr\<close>.\<close>

definition handle_port :: "'os env \<Rightarrow> nat \<Rightarrow> u64 \<Rightarrow> u32 \<Rightarrow> 'os vm \<Rightarrow> 'os vm outcome option" where
  "handle_port e fuel port raddr vm =
    (let arg = ucast raddr
     in if port = UHYVE_UART_PORT then Some (Continue (port_uart e raddr vm))
        else if port = UHYVE_PORT_WRITE then map_option Continue (port_write e fuel arg vm)
        else if port = UHYVE_PORT_READ then map_option Continue (port_read e fuel arg vm)
        else if port = UHYVE_PORT_EXIT then Some (port_exit e arg vm)
        else if port = UHYVE_PORT_UNLINK then Some (Continue (port_unlink e arg vm))
        else if port = UHYVE_PORT_OPEN then Some (Continue (port_open e arg vm))
        else if port = UHYVE_PORT_CLOSE then Some (Continue (port_close e arg vm))
        else if port = UHYVE_PORT_NETINFO then Some (Continue (port_netinfo e arg vm))
        else if port = UHYVE_PORT_NETWRITE then Some (Continue (port_netwrite vm))
        else if port = UHYVE_PORT_LSEEK then Some (Continue (port_lseek e arg vm))
        else if port = UHYVE_PORT_CMDSIZE then Some (Continue (port_cmdsize arg vm))
        else if port = UHYVE_PORT_CMDVAL then Some (Continue (port_cmdval arg vm))
        else if port = UHYVE_PORT_FREELIST then map_option Continue (port_freelist e arg vm)
        else Some Fatal)"

definition gdb_exception :: "'os env \<Rightarrow> nat \<Rightarrow> 'os vm \<Rightarrow> 'os vm option" where
  "gdb_exception e sig vm = (case e_gdb e of None \<Rightarrow> Some vm | Some (exc, _) \<Rightarrow> exc sig vm)"

definition gdb_term :: "'os env \<Rightarrow> 'os vm \<Rightarrow> 'os vm" where
  "gdb_term e vm = (case e_gdb e of None \<Rightarrow> vm | Some (_, term) \<Rightarrow> term vm)"

text \<open>
  An MMIO exit falls through into the port dispatch with its address as port.  At address 0 the code
  takes \<open>run->io.port\<close>, which shares its memory with bits 16 to 31 of \<open>run->mmio.phys_addr\<close> and is 0 too.
\<close>

definition handle_exit :: "'os env \<Rightarrow> nat \<Rightarrow> kvm_exit \<Rightarrow> 'os vm \<Rightarrow> 'os vm outcome option" where
  "handle_exit e fuel exit_reason vm =
    (case exit_reason of
       KVM_EXIT_HLT \<Rightarrow> Some (Return0 (gdb_term e vm))
     | KVM_EXIT_MMIO phys_addr is_write data \<Rightarrow> handle_port e fuel phys_addr (if is_write then data else 0) vm
     | KVM_EXIT_IO port data \<Rightarrow> handle_port e fuel (ucast port) data vm
     | KVM_EXIT_FAIL_ENTRY \<Rightarrow> map_option (\<lambda>_. Fatal) (gdb_exception e GDB_SIGNAL_SEGV vm)
     | KVM_EXIT_INTERNAL_ERROR \<Rightarrow> map_option (\<lambda>_. Fatal) (gdb_exception e GDB_SIGNAL_SEGV vm)
     | KVM_EXIT_SHUTDOWN \<Rightarrow>
         if e_gdb e \<noteq> None then map_option Continue (gdb_exception e GDB_SIGNAL_TRAP vm)
         else Some (ProcessExit EXIT_FAILURE vm)
     | KVM_EXIT_DEBUG \<Rightarrow>
         if e_gdb e \<noteq> None then map_option Continue (gdb_exception e GDB_SIGNAL_TRAP vm)
         else Some (ProcessExit EXIT_FAILURE vm)
     | KVM_EXIT_OTHER reason \<Rightarrow> Some (ProcessExit EXIT_FAILURE vm))"

definition vcpu_step :: "'os env \<Rightarrow> nat \<Rightarrow> run_result \<Rightarrow> 'os vm \<Rightarrow> 'os vm outcome option" where
  "vcpu_step e fuel r vm =
    (case r of RunErrno errno \<Rightarrow> Some (if errno = EINTR then Continue vm else Fatal)
     | RunExit exit_reason \<Rightarrow> handle_exit e fuel exit_reason vm)"

fun vcpu_run :: "'os env \<Rightarrow> nat \<Rightarrow> run_result list \<Rightarrow> 'os vm \<Rightarrow> 'os vm outcome option" where
  "vcpu_run e fuel [] vm = Some (Continue vm)"
| "vcpu_run e fuel (r # rs) vm =
    (case vcpu_step e fuel r vm of Some (Continue vm') \<Rightarrow> vcpu_run e fuel rs vm' | res \<Rightarrow> res)"

section \<open>The files a guest opens\<close>

text \<open>The state an outcome leaves behind.\<close>

definition outcome_vm :: "'vm outcome \<Rightarrow> 'vm option" where
  "outcome_vm res = (case res of Continue vm \<Rightarrow> Some vm | Return0 vm \<Rightarrow> Some vm | ProcessExit _ vm \<Rightarrow> Some vm
     | ThreadExit _ vm \<Rightarrow> Some vm | Fatal \<Rightarrow> None)"

text \<open>
  \<open>opened\<close> observes the canonical names of the files the process has opened for the guest.  Only \<open>open\<close>
  adds one, and it opens the KVM device only by a name that resolves to it.
\<close>

definition open_contract :: "'os env \<Rightarrow> ('os \<Rightarrow> bytes set) \<Rightarrow> bool" where
  "open_contract e opened \<longleftrightarrow>
    (\<forall>os name fl md. dev_kvm \<in> opened (snd (px_open (e_posix e) os name fl md)) \<longrightarrow>
        dev_kvm \<in> opened os \<or> snd (px_realpath (e_posix e) os name) = dev_kvm) \<and>
    (\<forall>os fd bs. opened (snd (px_write (e_posix e) os fd bs)) = opened os) \<and>
    (\<forall>os fd n. opened (snd (px_read (e_posix e) os fd n)) = opened os) \<and>
    (\<forall>os fd. opened (snd (px_close (e_posix e) os fd)) \<subseteq> opened os) \<and>
    (\<forall>os fd off wh. opened (snd (px_lseek (e_posix e) os fd off wh)) = opened os) \<and>
    (\<forall>os name. opened (snd (px_unlink (e_posix e) os name)) = opened os) \<and>
    (\<forall>os. opened (snd (px_eventfd (e_posix e) os)) = opened os) \<and>
    (\<forall>exc term. e_gdb e = Some (exc, term) \<longrightarrow>
       (\<forall>sig vm vm'. exc sig vm = Some vm' \<longrightarrow> opened (vm_os vm') = opened (vm_os vm)) \<and>
       (\<forall>vm. opened (vm_os (term vm)) = opened (vm_os vm)))"

lemma write_loop_opened:
  assumes "\<forall>os fd bs. opened (snd (px_write px os fd bs)) = opened os"
  shows "write_loop v2p px fuel arg n k mem os = Some (w, os') \<Longrightarrow> opened os' = opened os"
proof (induction fuel arbitrary: n k os)
  case (Suc fuel)
  then show ?case
    using assms by (subst (asm) (2) write_loop.simps) (auto simp: Let_def split: if_splits prod.splits dest!: Suc.IH; metis snd_conv)
qed (auto simp: write_loop.simps split: if_splits)

lemma read_loop_opened:
  assumes "\<forall>os fd n. opened (snd (px_read px os fd n)) = opened os"
  shows "read_loop v2p px fuel arg n k mem os = Some (w, mem', os') \<Longrightarrow> opened os' = opened os"
proof (induction fuel arbitrary: n k mem os)
  case (Suc fuel)
  then show ?case
    using assms by (subst (asm) (2) read_loop.simps) (auto simp: Let_def split: if_splits prod.splits dest!: Suc.IH; metis snd_conv)
qed (auto simp: read_loop.simps split: if_splits)

text \<open>The descriptors of a state do not include the KVM device.\<close>

definition no_kvm :: "('os \<Rightarrow> bytes set) \<Rightarrow> 'os vm \<Rightarrow> bool" where
  "no_kvm opened vm \<longleftrightarrow> dev_kvm \<notin> opened (vm_os vm)"

lemma open_contract_conj:
  assumes "open_contract e opened"
  shows "\<forall>os fd bs. opened (snd (px_write (e_posix e) os fd bs)) = opened os"
    and "\<forall>os fd n. opened (snd (px_read (e_posix e) os fd n)) = opened os"
    and "\<forall>os fd. opened (snd (px_close (e_posix e) os fd)) \<subseteq> opened os"
    and "\<forall>os fd off wh. opened (snd (px_lseek (e_posix e) os fd off wh)) = opened os"
    and "\<forall>os name. opened (snd (px_unlink (e_posix e) os name)) = opened os"
    and "\<forall>os. opened (snd (px_eventfd (e_posix e) os)) = opened os"
    and "\<forall>os name fl md. dev_kvm \<in> opened (snd (px_open (e_posix e) os name fl md)) \<longrightarrow>
        dev_kvm \<in> opened os \<or> snd (px_realpath (e_posix e) os name) = dev_kvm"
  using assms unfolding open_contract_def by - (elim conjE, assumption)+

lemmas open_contractD = open_contract_conj(1,2) open_contract_conj(3) [rule_format, THEN subsetD]
  open_contract_conj(4-7) [rule_format]

lemma port_write_safe:
  assumes "open_contract e opened" and "no_kvm opened vm" and "port_write e fuel arg vm = Some vm'"
  shows "no_kvm opened vm'"
  using assms(2,3) by (auto simp: port_write_def no_kvm_def dest: write_loop_opened [OF open_contractD(1) [OF assms(1)]])

lemma port_read_safe:
  assumes "open_contract e opened" and "no_kvm opened vm" and "port_read e fuel arg vm = Some vm'"
  shows "no_kvm opened vm'"
  using assms(2,3) by (auto simp: port_read_def no_kvm_def dest: read_loop_opened [OF open_contractD(2) [OF assms(1)]])

lemma port_open_safe:
  assumes "open_contract e opened" and "no_kvm opened vm"
  shows "no_kvm opened (port_open e arg vm)"
  using assms(2) by (auto simp: no_kvm_def port_open_def Let_def split_beta dest: open_contractD(7) [OF assms(1)])

lemma port_simple_safe:
  assumes "open_contract e opened" and "no_kvm opened vm"
  shows "no_kvm opened (port_unlink e arg vm)" "no_kvm opened (port_lseek e arg vm)"
    "no_kvm opened (port_netinfo e arg vm)" "no_kvm opened (port_close e arg vm)"
    "no_kvm opened (port_netwrite vm)" "no_kvm opened (port_cmdsize arg vm)" "no_kvm opened (port_cmdval arg vm)"
    "no_kvm opened (port_uart e raddr vm)" "port_freelist e arg vm = Some vm' \<Longrightarrow> no_kvm opened vm'"
  using assms(2) unfolding no_kvm_def
  by (auto simp: port_unlink_def port_lseek_def port_netinfo_def check_network_def port_close_def
      port_netwrite_def port_cmdsize_def port_cmdval_def port_uart_def port_freelist_def Let_def split_beta
      open_contractD(4-6) [OF assms(1)] dest: open_contractD(3) [OF assms(1)] split: if_splits)

lemma gdb_safe:
  assumes "open_contract e opened" and "no_kvm opened vm"
  shows "gdb_exception e sig vm = Some vm' \<Longrightarrow> no_kvm opened vm'" "no_kvm opened (gdb_term e vm)"
  using assms unfolding open_contract_def no_kvm_def gdb_exception_def gdb_term_def
  by (auto split: option.splits)

lemma handle_port_safe:
  assumes "open_contract e opened" and "no_kvm opened vm"
    and "handle_port e fuel port raddr vm = Some res" and "outcome_vm res = Some vm'"
  shows "no_kvm opened vm'"
  using assms(3,4) assms(2) port_simple_safe [OF assms(1,2)] port_open_safe [OF assms(1,2)]
    port_write_safe [OF assms(1,2)] port_read_safe [OF assms(1,2)]
  unfolding handle_port_def Let_def
  by (auto simp: outcome_vm_def port_exit_def split: if_splits)

lemma vcpu_step_safe:
  assumes "open_contract e opened" and "no_kvm opened vm" and "vcpu_step e fuel r vm = Some res" and "outcome_vm res = Some vm'"
  shows "no_kvm opened vm'"
proof (cases r)
  case (RunExit x)
  then show ?thesis
    using assms(3,4) assms(2) handle_port_safe [OF assms(1,2)] gdb_safe [OF assms(1,2)]
    by (auto simp: vcpu_step_def handle_exit_def outcome_vm_def [of "Return0 _"] outcome_vm_def [of "Continue _"]
        outcome_vm_def [of "ProcessExit _ _"] outcome_vm_def [of Fatal] split: kvm_exit.splits if_splits)
qed (use assms in \<open>auto simp: vcpu_step_def outcome_vm_def split: if_splits\<close>)

definition known_ports :: "u16 set" where
  "known_ports = {0x400, 0x440, 0x480, 0x500, 0x540, 0x580, 0x600, 0x640, 0x720, 0x740, 0x780, 0x800, 0x840}"

lemma ucast_port_eq: "n < 2 ^ 16 \<Longrightarrow> ucast (port :: u16) = (word_of_nat n :: u64) \<longleftrightarrow> port = word_of_nat n"
proof -
  assume n: "n < 2 ^ 16"
  have "unat (ucast port :: u64) = unat port"
    using unat_less_exp [of port] by (simp add: unsigned_ucast_eq take_bit_nat_eq_self_iff)
  then show ?thesis
    using n by (simp add: word_unat_eq_iff unat_of_nat)
qed

lemma port_numeral_eq: "(numeral n :: nat) < 2 ^ 16 \<Longrightarrow> ucast (port :: u16) = (numeral n :: u64) \<longleftrightarrow> port = numeral n"
  using ucast_port_eq [of "numeral n" port] by simp

lemma handle_port_fatal: "handle_port e fuel (ucast (port :: u16)) data vm = Some Fatal \<longleftrightarrow> port \<notin> known_ports"
  unfolding handle_port_def Let_def known_ports_def port_defs
  by (simp add: port_numeral_eq port_exit_def)

section \<open>Properties\<close>

text \<open>
  C4.  Whatever sequence of exits a guest produces, it never obtains a descriptor of the KVM device,
  provided that \<open>open\<close> opens the device only by names that \<open>realpath\<close> resolves to it.
\<close>

theorem vcpu_run_no_kvm:
  assumes "open_contract e opened" and "dev_kvm \<notin> opened (vm_os vm)"
    and "vcpu_run e fuel rs vm = Some res" and "outcome_vm res = Some vm'"
  shows "dev_kvm \<notin> opened (vm_os vm')"
proof -
  have "no_kvm opened vm \<Longrightarrow> vcpu_run e fuel rs vm = Some res \<Longrightarrow> no_kvm opened vm'"
  proof (induction rs arbitrary: vm)
    case Nil
    then show ?case using assms(4) by (auto simp: outcome_vm_def)
  next
    case (Cons r rs)
    obtain o1 where o1: "vcpu_step e fuel r vm = Some o1"
      using Cons.prems(2) by (auto split: option.splits)
    show ?case
    proof (cases "\<exists>vm1. o1 = Continue vm1")
      case True
      then obtain vm1 where "o1 = Continue vm1" by blast
      with Cons o1 vcpu_step_safe [OF assms(1) Cons.prems(1) o1, of vm1] show ?thesis
        by (simp add: outcome_vm_def)
    next
      case False
      with Cons.prems(2) o1 have "o1 = res" by (auto split: outcome.splits)
      with o1 vcpu_step_safe [OF assms(1) Cons.prems(1)] assms(4) show ?thesis by blast
    qed
  qed
  with assms(2,3) show ?thesis by (simp add: no_kvm_def)
qed

text \<open>A system in which every open call is recorded by its resolved name.\<close>

definition log_posix :: "bytes list posix" where
  "log_posix = \<lparr>px_write = (\<lambda>os fd bs. (word_of_nat (length bs), os)), px_read = (\<lambda>os fd n. (Some [], os)),
     px_open = (\<lambda>os name _ _. (3, name # os)), px_close = (\<lambda>os _. (0, os)), px_lseek = (\<lambda>os _ off _. (off, os)),
     px_unlink = (\<lambda>os _. (0, os)), px_realpath = (\<lambda>_ p. (True, p)), px_eventfd = (\<lambda>os. (5, os))\<rparr>"

definition log_env :: "bytes list env" where
  "log_env = \<lparr>e_v2p = virt_to_phys, e_mem_mappings = (\<lambda>_ _. None), e_posix = log_posix, e_cpuid = 0,
     e_verbose = False, e_netif = False, e_gdb = None\<rparr>"

definition log_vm :: "bytes list vm" where
  "log_vm = \<lparr>vm_mem = (\<lambda>_. 0), vm_os = [], vm_uart = [], vm_tx_sem = 0, vm_mig_sem = 0, vm_efd = -1,
     vm_irqfds = [], vm_net_threads = 0, vm_mac = [], vm_mappings = \<lparr>mem_chunks = (\<lambda>_. \<lparr>c_size = 0, c_ptr = 0\<rparr>), count = 0\<rparr>,
     vm_argv = [], vm_envp = []\<rparr>"

theorem vcpu_run_no_kvm_witness:
  "open_contract log_env set \<and>
   (\<exists>vm'. vcpu_run log_env 1 [RunExit (KVM_EXIT_IO 0x440 0x20000)] log_vm = Some (Continue vm') \<and> dev_kvm \<notin> set (vm_os vm'))"
proof -
  have c: "open_contract log_env set"
    by (auto simp: open_contract_def log_env_def log_posix_def)
  let ?vm = "port_open log_env 0x20000 log_vm"
  have r: "vcpu_run log_env 1 [RunExit (KVM_EXIT_IO 0x440 0x20000)] log_vm = Some (Continue ?vm)"
    by (simp add: vcpu_step_def handle_exit_def handle_port_def port_defs)
  have "dev_kvm \<notin> set (vm_os log_vm)" "outcome_vm (Continue ?vm) = Some ?vm"
    by (simp_all add: log_vm_def outcome_vm_def)
  from vcpu_run_no_kvm [OF c this(1) r this(2)] c r show ?thesis by blast
qed

text \<open>
  A hypercall through a memory-mapped write has the effect of the same hypercall through an I/O
  port; the process ends with an error exactly for the ports without a handler.
\<close>

theorem mmio_is_port_io:
  "handle_exit e fuel (KVM_EXIT_MMIO (ucast port) True data) vm = handle_exit e fuel (KVM_EXIT_IO port data) vm \<and>
   (handle_exit e fuel (KVM_EXIT_IO port data) vm = Some Fatal \<longleftrightarrow> port \<notin> known_ports)"
  by (simp add: handle_exit_def handle_port_fatal)

end
