(* ===== verification/Hypercalls_Cmdline.thy ===== *)
theory Hypercalls_Cmdline
  imports Hypercalls
begin

text \<open>
  The two hypercalls that forward the command line and the environment to the guest: after
  \<open>UHYVE_PORT_CMDSIZE\<close> the guest knows the sizes of the strings, allocates a buffer for each, and
  \<open>UHYVE_PORT_CMDVAL\<close> copies the strings there.
\<close>

unbundle bit_operations_syntax

text \<open>The runs \<open>strcpy\<close> writes.\<close>

definition string_runs :: "gmem \<Rightarrow> u64 \<Rightarrow> bytes list \<Rightarrow> (u64 \<times> nat) list" where
  "string_runs mem ptrs strs = map (\<lambda>i. (load64 mem (ptrs + 8 * word_of_nat i), length (strs ! i) + 1)) [0..<length strs]"

lemma load_strcpy_other: "disjoint_runs a n d (length s + 1) \<Longrightarrow> load_bytes (strcpy mem d s) a n = load_bytes mem a n"
  by (simp add: strcpy_def load_store_other)

lemma load_strcpy_same: "length s < 2 ^ 64 \<Longrightarrow> load_bytes (strcpy mem d s) d (length s + 1) = s @ [0]"
  unfolding strcpy_def by (rule load_store_same) simp_all

lemma copy_strings_upto:
  assumes "n \<le> length strs" and len: "\<forall>i < length strs. length (strs ! i) < 2 ^ 64"
    and ptr: "\<forall>i < length strs. \<forall>j < length strs. disjoint_runs (ptrs + 8 * word_of_nat i) 8 (load64 mem (ptrs + 8 * word_of_nat j)) (length (strs ! j) + 1)"
    and ap: "apart_runs (string_runs mem ptrs strs)"
  defines "mem' \<equiv> fold (\<lambda>i mem. strcpy mem (load64 mem (ptrs + 8 * word_of_nat i)) (strs ! i)) [0..<n] mem"
  shows "(\<forall>i < n. load_bytes mem' (load64 mem (ptrs + 8 * word_of_nat i)) (length (strs ! i) + 1) = strs ! i @ [0]) \<and>
    (\<forall>a k. (\<forall>j < n. disjoint_runs a k (load64 mem (ptrs + 8 * word_of_nat j)) (length (strs ! j) + 1)) \<longrightarrow>
       load_bytes mem' a k = load_bytes mem a k)"
  using assms(1) unfolding mem'_def
proof (induction n)
  case 0
  then show ?case by simp
next
  case (Suc n)
  let ?f = "\<lambda>n. fold (\<lambda>i mem. strcpy mem (load64 mem (ptrs + 8 * word_of_nat i)) (strs ! i)) [0..<n] mem"
  let ?p = "\<lambda>i. load64 mem (ptrs + 8 * word_of_nat i)"
  from Suc have n: "n < length strs" and IH1: "\<And>i. i < n \<Longrightarrow> load_bytes (?f n) (?p i) (length (strs ! i) + 1) = strs ! i @ [0]"
    and IH2: "\<And>a k. (\<forall>j < n. disjoint_runs a k (?p j) (length (strs ! j) + 1)) \<Longrightarrow> load_bytes (?f n) a k = load_bytes mem a k"
    by auto
  have "load64 (?f n) (ptrs + 8 * word_of_nat n) = ?p n"
    by (intro load64_eqI IH2) (use ptr n in simp)
  then have f: "?f (Suc n) = strcpy (?f n) (?p n) (strs ! n)"
    by simp
  have dis: "disjoint_runs (?p i) (length (strs ! i) + 1) (?p j) (length (strs ! j) + 1)"
    if "i < length strs" "j < length strs" "i \<noteq> j" for i j
    using apart_runs_nth [OF ap, of i j] that by (simp add: string_runs_def)
  have "load_bytes (?f (Suc n)) (?p i) (length (strs ! i) + 1) = strs ! i @ [0]" if "i < Suc n" for i
    unfolding f using that IH1 [of i] dis [of i n] n len load_strcpy_same [of "strs ! n" "?f n" "?p n"]
    by (cases "i = n") (simp_all add: load_strcpy_other)
  moreover have "load_bytes (?f (Suc n)) a k = load_bytes mem a k"
    if "\<forall>j < Suc n. disjoint_runs a k (?p j) (length (strs ! j) + 1)" for a k
    unfolding f using that IH2 [of a k] by (simp add: load_strcpy_other)
  ultimately show ?case by blast
qed

lemma set_string_runs: "set (string_runs mem ptrs strs) =
   {(load64 mem (ptrs + 8 * word_of_nat i), length (strs ! i) + 1) |i. i < length strs}"
  by (auto simp: string_runs_def)

lemma slot_apart:
  assumes "\<forall>q \<in> set (string_runs mem ptrs strs). disjoint_runs base (8 * n) (fst q) (snd q)"
    and "i < n" and "j < length strs"
  shows "disjoint_runs (base + 8 * word_of_nat i) 8 (load64 mem (ptrs + 8 * word_of_nat j)) (length (strs ! j) + 1)"
proof -
  have "disjoint_runs base (8 * n) (load64 mem (ptrs + 8 * word_of_nat j)) (length (strs ! j) + 1)"
    using assms(1,3) by (auto simp: set_string_runs)
  from disjoint_runs_sub [OF this, of "8 * i" 8] assms(2) show ?thesis by simp
qed

lemma copy_strings_result:
  assumes "\<forall>i < length strs. length (strs ! i) < 2 ^ 64"
    and "\<forall>q \<in> set (string_runs mem ptrs strs). disjoint_runs ptrs (8 * length strs) (fst q) (snd q)"
    and "apart_runs (string_runs mem ptrs strs)"
  shows "i < length strs \<Longrightarrow>
      load_bytes (copy_strings ptrs strs mem) (load64 mem (ptrs + 8 * word_of_nat i)) (length (strs ! i) + 1) = strs ! i @ [0]"
    and "\<forall>q \<in> set (string_runs mem ptrs strs). disjoint_runs a k (fst q) (snd q) \<Longrightarrow>
      load_bytes (copy_strings ptrs strs mem) a k = load_bytes mem a k"
proof -
  let ?p = "\<lambda>i. load64 mem (ptrs + 8 * word_of_nat i)"
  have "\<forall>i < length strs. \<forall>j < length strs. disjoint_runs (ptrs + 8 * word_of_nat i) 8 (?p j) (length (strs ! j) + 1)"
    using slot_apart [OF assms(2)] by blast
  note c = copy_strings_upto [OF order_refl assms(1) this assms(3), folded copy_strings_def]
  then show "i < length strs \<Longrightarrow> load_bytes (copy_strings ptrs strs mem) (?p i) (length (strs ! i) + 1) = strs ! i @ [0]"
    by blast
  assume "\<forall>q \<in> set (string_runs mem ptrs strs). disjoint_runs a k (fst q) (snd q)"
  then have "\<forall>j < length strs. disjoint_runs a k (?p j) (length (strs ! j) + 1)"
    unfolding set_string_runs by auto
  with c show "load_bytes (copy_strings ptrs strs mem) a k = load_bytes mem a k"
    by blast
qed

definition cmdval_runs :: "gmem \<Rightarrow> u64 \<Rightarrow> bytes list \<Rightarrow> bytes list \<Rightarrow> (u64 \<times> nat) list" where
  "cmdval_runs mem arg argv envp =
    (let ap = load64 mem (arg + cv_argv); ep = load64 mem (arg + cv_envp)
     in [(arg, 16), (ap, 8 * length argv), (ep, 8 * length envp)] @ string_runs mem ap argv @ string_runs mem ep envp)"

text \<open>
  C20.  \<open>UHYVE_PORT_CMDVAL\<close>: when the guest's pointer arrays, the argument block and the string buffers, each of
  the size that \<open>UHYVE_PORT_CMDSIZE\<close> reports, do not overlap, every buffer holds its argument or environment
  string with the terminating zero afterwards.
\<close>

theorem port_cmdval_strings:
  assumes "apart_runs (cmdval_runs (vm_mem vm) arg (vm_argv vm) (vm_envp vm))"
    and "\<forall>s \<in> set (vm_argv vm @ vm_envp vm). length s < 2 ^ 64"
  shows "(\<forall>i < length (vm_argv vm).
      load_bytes (vm_mem (port_cmdval arg vm)) (load64 (vm_mem vm) (load64 (vm_mem vm) (arg + cv_argv) + 8 * word_of_nat i))
        (length (vm_argv vm ! i) + 1) = vm_argv vm ! i @ [0]) \<and>
    (\<forall>i < length (vm_envp vm).
      load_bytes (vm_mem (port_cmdval arg vm)) (load64 (vm_mem vm) (load64 (vm_mem vm) (arg + cv_envp) + 8 * word_of_nat i))
        (length (vm_envp vm ! i) + 1) = vm_envp vm ! i @ [0])"
proof -
  let ?m = "vm_mem vm" and ?argv = "vm_argv vm" and ?envp = "vm_envp vm"
  let ?ap = "load64 ?m (arg + cv_argv)" and ?ep = "load64 ?m (arg + cv_envp)"
  let ?A = "string_runs ?m ?ap ?argv" and ?E = "string_runs ?m ?ep ?envp"
  define m1 where "m1 = copy_strings ?ap ?argv ?m"
  have ap: "\<forall>q \<in> set ?A. disjoint_runs ?ap (8 * length ?argv) (fst q) (snd q)" "apart_runs ?A"
    and ep: "\<forall>q \<in> set ?E. disjoint_runs ?ep (8 * length ?envp) (fst q) (snd q)" "apart_runs ?E"
    and blk: "\<forall>q \<in> set ?A. disjoint_runs arg 16 (fst q) (snd q)"
    and epA: "\<forall>q \<in> set ?A. disjoint_runs ?ep (8 * length ?envp) (fst q) (snd q)"
    and AE: "\<forall>a \<in> set ?A. \<forall>q \<in> set ?E. disjoint_runs (fst a) (snd a) (fst q) (snd q)"
    using assms(1) unfolding cmdval_runs_def Let_def apart_runs_append by (auto simp: list_all_iff)
  note c1 = copy_strings_result [OF _ ap, folded m1_def]
  have la: "\<forall>i < length ?argv. length (?argv ! i) < 2 ^ 64" and le: "\<forall>i < length ?envp. length (?envp ! i) < 2 ^ 64"
    using assms(2) by auto
  have e1: "load64 m1 (arg + cv_envp) = ?ep"
    by (intro load64_eqI c1(2) [OF la])
       (use blk disjoint_runs_sub [of arg 16 _ _ 8 8] in \<open>auto simp: cv_envp_def\<close>)
  have slot: "load64 m1 (?ep + 8 * word_of_nat i) = load64 ?m (?ep + 8 * word_of_nat i)" if "i < length ?envp" for i
    by (intro load64_eqI c1(2) [OF la])
       (use slot_apart [OF epA that] in \<open>auto simp: set_string_runs\<close>)
  have E: "string_runs m1 ?ep ?envp = ?E"
    unfolding string_runs_def using slot by simp
  note c2 = copy_strings_result [of ?envp m1 ?ep, unfolded E, OF le ep]
  have fin: "vm_mem (port_cmdval arg vm) = copy_strings ?ep ?envp m1"
    by (simp add: port_cmdval_def Let_def m1_def [symmetric] e1)
  have "load_bytes (copy_strings ?ep ?envp m1) (load64 ?m (?ap + 8 * word_of_nat i)) (length (?argv ! i) + 1) = ?argv ! i @ [0]"
    if "i < length ?argv" for i
  proof -
    have "(load64 ?m (?ap + 8 * word_of_nat i), length (?argv ! i) + 1) \<in> set ?A"
      using that by (auto simp: set_string_runs)
    then have "\<forall>q \<in> set ?E. disjoint_runs (load64 ?m (?ap + 8 * word_of_nat i)) (length (?argv ! i) + 1) (fst q) (snd q)"
      using AE by fastforce
    from c2(2) [OF this] show ?thesis
      using c1(1) [OF la that] by simp
  qed
  moreover have "load_bytes (copy_strings ?ep ?envp m1) (load64 ?m (?ep + 8 * word_of_nat i)) (length (?envp ! i) + 1) = ?envp ! i @ [0]"
    if "i < length ?envp" for i
    using c2(1) [OF that] slot [OF that] by simp
  ultimately show ?thesis
    unfolding fin by blast
qed

definition argv_mem :: gmem where
  "argv_mem = store64 (store64 (store64 (\<lambda>_. 0) 0x20000 0x30000) 0x20008 0x32000) 0x30000 0x31000"

theorem port_cmdval_strings_witness:
  "load_bytes (vm_mem (port_cmdval 0x20000 ((pipe_vm argv_mem [])\<lparr>vm_argv := [[0x61]]\<rparr>))) 0x31000 2 = [0x61, 0]"
proof -
  let ?vm = "(pipe_vm argv_mem [])\<lparr>vm_argv := [[0x61]]\<rparr>"
  have l: "load64 (vm_mem ?vm) (0x20000 + cv_argv) = 0x30000" "load64 (vm_mem ?vm) (0x20000 + cv_envp) = 0x32000"
    "load64 (vm_mem ?vm) 0x30000 = 0x31000"
    by (simp_all add: pipe_vm_def argv_mem_def cv_argv_def cv_envp_def load64_store64_other disj_num)
  have "apart_runs (cmdval_runs (vm_mem ?vm) 0x20000 (vm_argv ?vm) (vm_envp ?vm))"
    using l by (simp add: cmdval_runs_def string_runs_def pipe_vm_def disjoint_runs_def)
  from port_cmdval_strings [OF this] l
  have "load_bytes (vm_mem (port_cmdval 0x20000 ?vm)) 0x31000 (Suc (Suc 0)) = [0x61, 0]"
    by (simp add: pipe_vm_def)
  then show ?thesis by (simp only: numeral_2_eq_2)
qed

lemma store_sizes_snoc: "store_sizes base (strs @ [s]) mem =
   store32 (store_sizes base strs mem) (base + 4 * word_of_nat (length strs)) (word_of_nat (length s) + 1)"
proof -
  have "fold (\<lambda>i mem. store32 mem (base + 4 * word_of_nat i) (word_of_nat (length ((strs @ [s]) ! i)) + 1)) [0..<length strs] mem =
        fold (\<lambda>i mem. store32 mem (base + 4 * word_of_nat i) (word_of_nat (length (strs ! i)) + 1)) [0..<length strs] mem"
    by (intro fold_cong) (auto simp: nth_append)
  then show ?thesis
    by (simp add: store_sizes_def)
qed

lemma store_sizes_other:
  assumes "q + 4 \<le> p \<or> p + 4 * length strs \<le> q" and "p + 4 * length strs < 2 ^ 63" and "q < 2 ^ 63"
  shows "load32 (store_sizes (arg + word_of_nat p) strs mem) (arg + word_of_nat q) = load32 mem (arg + word_of_nat q)"
  using assms(1,2)
proof (induction strs rule: rev_induct)
  case (snoc s strs)
  let ?r = "p + 4 * length strs"
  have a: "arg + word_of_nat p + 4 * word_of_nat (length strs) = arg + (word_of_nat ?r :: u64)"
    by simp
  have "disjoint_runs (arg + word_of_nat q) 4 (arg + word_of_nat ?r) 4"
    using snoc.prems assms(3) block_fields_apart [of q 4 ?r 4 arg] block_fields_apart [of ?r 4 q 4 arg]
    by (auto simp: disjoint_runs_sym simp del: of_nat_add of_nat_mult)
  moreover have "q + 4 \<le> p \<or> p + 4 * length strs \<le> q" "p + 4 * length strs < 2 ^ 63"
    using snoc.prems by auto
  ultimately show ?case
    using snoc.IH by (simp add: store_sizes_snoc a load32_store32_other del: of_nat_add of_nat_mult)
qed (simp add: store_sizes_def)

lemma store_sizes_same:
  assumes "i < length strs" and "p + 4 * length strs < 2 ^ 63"
  shows "load32 (store_sizes (arg + word_of_nat p) strs mem) (arg + word_of_nat (p + 4 * i)) = word_of_nat (length (strs ! i)) + 1"
  using assms
proof (induction strs rule: rev_induct)
  case (snoc s strs)
  let ?r = "p + 4 * length strs"
  have a: "arg + word_of_nat p + 4 * word_of_nat (length strs) = arg + (word_of_nat ?r :: u64)"
    by simp
  show ?case
  proof (cases "i = length strs")
    case True
    then show ?thesis
      unfolding store_sizes_snoc a by simp
  next
    case False
    then have "disjoint_runs (arg + word_of_nat (p + 4 * i)) 4 (arg + word_of_nat ?r) 4"
      using snoc.prems by (intro block_fields_apart) auto
    with snoc False show ?thesis
      unfolding store_sizes_snoc a by (simp add: load32_store32_other nth_append del: of_nat_add of_nat_mult)
  qed
qed simp

text \<open>
  \<open>UHYVE_PORT_CMDSIZE\<close> reports the number of arguments and environment strings and for each of
  them the size of the buffer that \<open>strcpy\<close> needs, as long as there are at most \<open>MAX_ARGC_ENVC\<close> of each.
\<close>

theorem port_cmdsize_sizes:
  fixes vm :: "'os vm" and arg :: u64
  assumes "length (vm_argv vm) \<le> MAX_ARGC_ENVC" and "length (vm_envp vm) \<le> MAX_ARGC_ENVC"
  defines "mem' \<equiv> vm_mem (port_cmdsize arg vm)"
  shows "load32 mem' (arg + cs_argc) = word_of_nat (length (vm_argv vm)) \<and>
    load32 mem' (arg + cs_envc) = word_of_nat (length (vm_envp vm)) \<and>
    (\<forall>i < length (vm_argv vm). load32 mem' (arg + cs_argsz + 4 * word_of_nat i) = word_of_nat (length (vm_argv vm ! i)) + 1) \<and>
    (\<forall>i < length (vm_envp vm). load32 mem' (arg + cs_envsz + 4 * word_of_nat i) = word_of_nat (length (vm_envp vm ! i)) + 1)"
proof -
  let ?a = "vm_argv vm" and ?e = "vm_envp vm"
  let ?m1 = "store32 (vm_mem vm) (arg + word_of_nat 0) (word_of_nat (length ?a))"
  let ?m2 = "store_sizes (arg + word_of_nat 4) ?a ?m1"
  let ?m3 = "store32 ?m2 (arg + word_of_nat 516) (word_of_nat (length ?e))"
  have mem': "mem' = store_sizes (arg + word_of_nat 520) ?e ?m3"
    by (simp add: mem'_def port_cmdsize_def Let_def block_offsets MAX_ARGC_ENVC_def)
  have la: "length ?a \<le> 128" and le: "length ?e \<le> 128"
    using assms(1,2) by (simp_all add: MAX_ARGC_ENVC_def)
  have low: "load32 mem' (arg + word_of_nat q) = load32 ?m3 (arg + word_of_nat q)" if "q + 4 \<le> 520" for q
    unfolding mem' using that le by (intro store_sizes_other) auto
  have low2: "load32 ?m3 (arg + word_of_nat q) = load32 ?m2 (arg + word_of_nat q)" if "q + 4 \<le> 516" for q
    using that block_fields_apart [of q 4 516 4 arg] by (simp add: load32_store32_other)
  have "load32 ?m2 (arg + word_of_nat 0) = word_of_nat (length ?a)"
    using la store_sizes_other [of 0 4 ?a arg ?m1] by simp
  then have 1: "load32 mem' (arg + cs_argc) = word_of_nat (length ?a)"
    using low [of 0] low2 [of 0] by (simp add: cs_argc_def)
  have 2: "load32 mem' (arg + cs_envc) = word_of_nat (length ?e)"
    using low [of 516] by (simp add: cs_envc_def MAX_ARGC_ENVC_def)
  have 3: "load32 mem' (arg + cs_argsz + 4 * word_of_nat i) = word_of_nat (length (?a ! i)) + 1" if "i < length ?a" for i
    using that la low [of "4 + 4 * i"] low2 [of "4 + 4 * i"] store_sizes_same [of i ?a 4 arg ?m1]
    by (simp add: cs_argsz_def add.assoc)
  have 4: "load32 mem' (arg + cs_envsz + 4 * word_of_nat i) = word_of_nat (length (?e ! i)) + 1" if "i < length ?e" for i
    unfolding mem' using that le store_sizes_same [of i ?e 520 arg ?m3]
    by (simp add: cs_envsz_def MAX_ARGC_ENVC_def add.assoc)
  show ?thesis using 1 2 3 4 by blast
qed

theorem port_cmdsize_sizes_witness:
  "load32 (vm_mem (port_cmdsize 0x20000 ((pipe_vm argv_mem [])\<lparr>vm_argv := [[0x61]]\<rparr>))) 0x20004 = 2"
  using port_cmdsize_sizes [of "(pipe_vm argv_mem [])\<lparr>vm_argv := [[0x61]]\<rparr>" "0x20000"]
  by (simp add: MAX_ARGC_ENVC_def pipe_vm_def cs_argsz_def)

end
