(* ===== verification/Uhyve_Main.thy ===== *)
theory Uhyve_Main
  imports Mig_Config Vcpu_Loop Hypercalls_Cmdline
begin

text \<open>
  The main program: \<open>main\<close> and \<open>env_init\<close> of \<open>src/main.c\<close>, and \<open>uhyve_loop\<close>, \<open>vcpu_init\<close> and \<open>uhyve_thread\<close> of \<open>src/uhyve.c\<close>,
  from the start of the process to the point where every vCPU enters \<open>vcpu_loop\<close>.
\<close>

unbundle bit_operations_syntax

section \<open>vCPUs\<close>

text \<open>
  \<open>vcpu_init\<close> with the answers of KVM: the descriptor of a new vCPU, the size of the shared structure and whether it can be
  mapped.  \<open>None\<close>: the program ends.
\<close>

record kvm_vcpu_env =
  kv_create :: "u32 \<Rightarrow> int"
  kv_mmap_size :: int
  kv_sizeof_run :: u64
  kv_mapped :: bool

definition vcpu_init :: "kvm_vcpu_env \<Rightarrow> u32 \<Rightarrow> (u32 \<Rightarrow> int) \<Rightarrow> (int \<times> (u32 \<Rightarrow> int)) option" where
  "vcpu_init kv cpuid vcpu_fds =
    (let vcpufd = kv_create kv cpuid
     in if vcpufd = -1 \<or> kv_mmap_size kv = -1 then None
        else if (word_of_int (kv_mmap_size kv) :: u64) < kv_sizeof_run kv \<or> \<not> kv_mapped kv then None
        else Some (vcpufd, vcpu_fds(cpuid := vcpufd)))"

text \<open>
  A secondary thread up to the barrier: the handlers it installs and its vCPU.  The array \<open>vcpu_fds\<close> is shared, and every thread writes
  its own element.
\<close>

record vcpu_thread =
  vt_cpuid :: u32
  vt_vcpufd :: int
  vt_chk_handler :: bool
  vt_mig_handler :: bool

definition uhyve_thread :: "kvm_vcpu_env \<Rightarrow> u64 \<Rightarrow> (u32 \<Rightarrow> int) \<Rightarrow> (vcpu_thread \<times> (u32 \<Rightarrow> int)) option" where
  "uhyve_thread kv arg vcpu_fds =
    (let cpuid = ucast arg
     in map_option (\<lambda>(fd, fds). (\<lparr>vt_cpuid = cpuid, vt_vcpufd = fd, vt_chk_handler = True, vt_mig_handler = True\<rparr>, fds)) (vcpu_init kv cpuid vcpu_fds))"

fun start_threads :: "kvm_vcpu_env \<Rightarrow> nat list \<Rightarrow> (u32 \<Rightarrow> int) \<Rightarrow> (vcpu_thread list \<times> (u32 \<Rightarrow> int)) option" where
  "start_threads kv [] fds = Some ([], fds)"
| "start_threads kv (i # is) fds =
    Option.bind (uhyve_thread kv (word_of_nat i) fds) (\<lambda>(t, fds).
      map_option (\<lambda>(ts, fds). (t # ts, fds)) (start_threads kv is fds))"

section \<open>The loop\<close>

definition UHYVE_IRQ_MIGRATION :: nat where "UHYVE_IRQ_MIGRATION = 12"

text \<open>The environment of \<open>uhyve_loop\<close>: its variables, the parameter file (as in \<open>set_migration_params\<close>), \<open>environ\<close> and the result of \<open>eventfd\<close>.\<close>

record loop_env =
  lo_check :: "bytes option"
  lo_mig_support :: "bytes option"
  lo_mig_params :: "bytes option option"
  lo_debug :: "bytes option"
  lo_environ :: "bytes list"
  lo_tmp_str :: bytes
  lo_eventfd :: int

record hypervisor =
  hv_mem :: gmem
  hv_gdb :: bool
  hv_argv :: "bytes list"
  hv_envp :: "bytes list"
  hv_target :: "sockaddr_in option"
  hv_mig :: mig_mem
  hv_mig_thread :: bool
  hv_mig_efd :: int
  hv_irqfds :: "(int \<times> nat) list"
  hv_threads :: "vcpu_thread list"
  hv_fds :: "u32 \<Rightarrow> int"
  hv_timer :: "int option"

text \<open>How the program ends before the first vCPU runs: \<open>return -1\<close>, a stray pointer, or \<open>err\<close>.\<close>

datatype loop_error = TooManyStrings | ParamError param_error | NoHeader | VcpuError

text \<open>The limits for the strings that are passed to the guest.\<close>

definition clamp_strings :: "int \<Rightarrow> int \<Rightarrow> (int \<times> int) option" where
  "clamp_strings uhyve_argc uhyve_envc =
    (let uhyve_argc = (if uhyve_argc > int MAX_ARGC_ENVC then int MAX_ARGC_ENVC else uhyve_argc);
         uhyve_envc = (if uhyve_envc > int MAX_ARGC_ENVC - 1 then int MAX_ARGC_ENVC - 1 else uhyve_envc)
     in if uhyve_argc > int MAX_ARGC_ENVC \<or> uhyve_envc > int MAX_ARGC_ENVC then None else Some (uhyve_argc, uhyve_envc))"

text \<open>The part for \<open>HERMIT_MIGRATION_SUPPORT\<close>: target, parameters, the thread for \<open>SIGUSR1\<close>, the event for the guest.\<close>

definition setup_migration :: "loop_env \<Rightarrow> hypervisor \<Rightarrow> param_error + hypervisor" where
  "setup_migration lo hv =
    (case lo_mig_support lo of
       None \<Rightarrow> Inr hv
     | Some ip_str \<Rightarrow>
         let hv = hv\<lparr>hv_target := Some (set_migration_target ip_str MIGRATION_PORT)\<rparr>
         in case set_migration_params (lo_tmp_str lo) (lo_mig_params lo) (hv_mig hv) of
              Inl err \<Rightarrow> Inl err
            | Inr m \<Rightarrow> Inr (hv\<lparr>hv_mig := m, hv_mig_thread := True, hv_mig_efd := lo_eventfd lo,
                           hv_irqfds := hv_irqfds hv @ [(lo_eventfd lo, UHYVE_IRQ_MIGRATION)]\<rparr>))"

text \<open>
  \<open>uhyve_loop\<close> up to the call of \<open>vcpu_loop\<close> for the first vCPU, on x86-64, where \<open>uhyve_init\<close> has loaded the guest (\<open>st\<close>).
\<close>

definition uhyve_loop :: "loop_env \<Rightarrow> kvm_vcpu_env \<Rightarrow> bytes list \<Rightarrow> 'v started \<Rightarrow> hypervisor \<Rightarrow> loop_error + hypervisor" where
  "uhyve_loop lo kv argv st hv =
    (let hv = (case lo_debug lo of Some s \<Rightarrow> if atoi s \<noteq> 0 then hv\<lparr>hv_gdb := True\<rparr> else hv | None \<Rightarrow> hv)
     in case clamp_strings (int (length argv) - 1) (int (length (lo_environ lo))) of
          None \<Rightarrow> Inl TooManyStrings
        | Some (uhyve_argc, uhyve_envc) \<Rightarrow>
            let hv = hv\<lparr>hv_argv := take (nat uhyve_argc) (drop 1 argv), hv_envp := take (nat uhyve_envc) (lo_environ lo)\<rparr>;
                ts = (case lo_check lo of Some s \<Rightarrow> atoi s | None \<Rightarrow> 0);
                ncores = g_ncores (sd_globals st)
            in case setup_migration lo hv of
                 Inl err \<Rightarrow> Inl (ParamError err)
               | Inr hv \<Rightarrow>
                   case start_threads kv [1..<unat ncores] (hv_fds hv) of
                     None \<Rightarrow> Inl VcpuError
                   | Some (threads, fds) \<Rightarrow>
                       let hv = hv\<lparr>hv_threads := threads, hv_fds := fds\<rparr>
                       in case l_kheader (sd_loader st) of
                            None \<Rightarrow> Inl NoHeader
                          | Some kh \<Rightarrow>
                              Inr (hv\<lparr>hv_mem := store32 (l_mem (sd_loader st)) (kh + KH_POSSIBLE_CPUS) ncores,
                                      hv_timer := (if ts > 0 then Some ts else None)\<rparr>))"

section \<open>The process\<close>

definition HERMIT_PORT :: u32 where "HERMIT_PORT = 0x494E"

definition env_port :: "bytes option \<Rightarrow> u32" where
  "env_port str = (case str of
       None \<Rightarrow> HERMIT_PORT
     | Some s \<Rightarrow> let port = word_of_int (atoi s) in if port = 0 \<or> port \<ge> 0xFFFF then HERMIT_PORT else port)"

text \<open>
  \<open>env_init\<close>: the two signal handlers (whether \<open>sigaction\<close> succeeds), the port, and \<open>uhyve_init\<close>.  Its last step, the first vCPU, is here.
\<close>

definition env_init :: "(bytes \<Rightarrow> 'v) \<Rightarrow> nat \<Rightarrow> bool \<Rightarrow> bool \<Rightarrow> bytes option \<Rightarrow> init_env \<Rightarrow> kvm_vcpu_env \<Rightarrow> (u32 \<times> 'v started \<times> (u32 \<Rightarrow> int)) option" where
  "env_init dec_vs sz sigint sigterm port ie kv =
    (if \<not> sigint \<or> \<not> sigterm then None
     else Option.bind (uhyve_init dec_vs sz ie default_globals) (\<lambda>st.
       map_option (\<lambda>(fd, fds). (env_port port, st, fds)) (vcpu_init kv 0 (\<lambda>_. 0))))"

definition initial_hypervisor :: "(u32 \<Rightarrow> int) \<Rightarrow> u8 \<Rightarrow> hypervisor" where
  "initial_hypervisor fds behind = \<lparr>hv_mem = \<lambda>_. 0, hv_gdb = False, hv_argv = [], hv_envp = [], hv_target = None,
     hv_mig = \<lparr>m_params = default_mig_params, m_behind = behind\<rparr>, hv_mig_thread = False, hv_mig_efd = -1, hv_irqfds = [],
     hv_threads = [], hv_fds = fds, hv_timer = None\<rparr>"

text \<open>\<open>main\<close> until the vCPUs run: \<open>verbose\<close> and the hypervisor; \<open>None\<close>: the program ends before.\<close>

definition main :: "(bytes \<Rightarrow> 'v) \<Rightarrow> nat \<Rightarrow> bool \<Rightarrow> bool \<Rightarrow> bytes option \<Rightarrow> bytes option \<Rightarrow> u8 \<Rightarrow> init_env \<Rightarrow> loop_env \<Rightarrow> kvm_vcpu_env \<Rightarrow> bytes list \<Rightarrow>
    (bool \<times> 'v started \<times> (loop_error + hypervisor)) option" where
  "main dec_vs sz sigint sigterm port verbose_str behind ie lo kv argv =
    (let verbose = (case verbose_str of Some v \<Rightarrow> v \<noteq> [0x30] | None \<Rightarrow> False)
     in map_option (\<lambda>(port, st, fds). (verbose, st, uhyve_loop lo kv argv st (initial_hypervisor fds behind)))
          (env_init dec_vs sz sigint sigterm port ie kv))"

section \<open>Lemmas\<close>

lemma clamp_strings_some:
  "clamp_strings argc envc = Some (min argc 128, min envc 127)"
  by (auto simp: clamp_strings_def MAX_ARGC_ENVC_def)

lemma setup_migration_frame:
  "setup_migration lo hv = Inr hv' \<Longrightarrow> hv_argv hv' = hv_argv hv \<and> hv_envp hv' = hv_envp hv"
  by (auto simp: setup_migration_def Let_def split: option.splits sum.splits)

lemma uhyve_loop_started:
  assumes "uhyve_loop lo kv argv st hv0 = Inr hv"
  shows "hv_argv hv = take 128 (drop 1 argv)" "hv_envp hv = take 127 (lo_environ lo)"
    and "\<exists>kh. l_kheader (sd_loader st) = Some kh \<and> hv_mem hv = store32 (l_mem (sd_loader st)) (kh + KH_POSSIBLE_CPUS) (g_ncores (sd_globals st))"
proof -
  have t: "take (nat (min (int (length argv) - 1) 128)) (drop (Suc 0) argv) = take 128 (drop (Suc 0) argv)"
    "take (nat (min (int (length (lo_environ lo))) 127)) (lo_environ lo) = take 127 (lo_environ lo)"
    by (auto simp: min_def)
  show "hv_argv hv = take 128 (drop 1 argv)" "hv_envp hv = take 127 (lo_environ lo)"
    "\<exists>kh. l_kheader (sd_loader st) = Some kh \<and> hv_mem hv = store32 (l_mem (sd_loader st)) (kh + KH_POSSIBLE_CPUS) (g_ncores (sd_globals st))"
    using assms unfolding uhyve_loop_def Let_def clamp_strings_some
    by (auto split: option.splits sum.splits prod.splits dest!: setup_migration_frame simp: t)
qed

lemma store_sizes_outside:
  assumes "\<not> in_run x arg 1032" and "p + 4 * length strs \<le> 1032"
  shows "store_sizes (arg + word_of_nat p) strs mem x = mem x"
  using assms(2)
proof (induction strs rule: rev_induct)
  case (snoc s strs)
  have "\<not> in_run x (arg + word_of_nat (p + 4 * length strs)) 4"
    using in_run_shift [of x arg "p + 4 * length strs" 4 1032] assms(1) snoc.prems by auto
  then show ?case
    using snoc by (simp add: store_sizes_snoc store32_outside add.assoc)
qed (simp add: store_sizes_def)

lemma port_cmdsize_outside:
  assumes "length (vm_argv vm) \<le> 128" and "length (vm_envp vm) \<le> 128" and "\<not> in_run x arg 1032"
  shows "vm_mem (port_cmdsize arg vm) x = vm_mem vm x"
proof -
  have "\<not> in_run x (arg + word_of_nat k) 4" if "k + 4 \<le> 1032" for k
    using in_run_shift [of x arg k 4 1032] assms(3) that by auto
  from this [of 0] this [of 516] show ?thesis
    using assms store_sizes_outside [of x arg 4 "vm_argv vm"] store_sizes_outside [of x arg 520 "vm_envp vm"]
    by (simp add: port_cmdsize_def Let_def block_offsets MAX_ARGC_ENVC_def store32_outside)
qed

lemma load_chk_loop_header: "load_chk_loop files cap no i ld = Loaded ld' \<Longrightarrow> l_kheader ld' = l_kheader ld"
proof (induction files cap no i ld rule: load_chk_loop.induct)
  case (1 files cap no i ld)
  then show ?case
    by (subst (asm) (2) load_chk_loop.simps) (auto simp: Let_def split: if_splits option.splits prod.splits)
qed

lemma init_net_frame:
  "init_net ie st = Some st' \<Longrightarrow> sd_globals st' = sd_globals st \<and> sd_loader st' = sd_loader st \<and> sd_restart st' = sd_restart st"
  by (auto simp: init_net_def split: option.splits sum.splits if_splits)

lemma restart_header:
  assumes "uhyve_init dec_vs sz ie g = Some st" and "sd_restart st"
  shows "l_kheader (sd_loader st) = Some (g_elf_entry (sd_globals st))"
proof -
  obtain g1 how k g2 ld states where h: "init_globals ie g = Some (g1, how)" "load_guest dec_vs sz ie k how g2 = Some (sd_globals st, ld, states)"
    "sd_loader st = ld" "how = Restarting"
    using assms unfolding uhyve_init_def Let_def
    by (auto simp: bind_eq_Some_conv split: if_splits dest!: init_net_frame)
  then obtain ld' where "load_checkpoint (\<lambda>i. ie_files ie (mem_fname i)) (ka_cap_adjust_clock_stable k) (g_full_checkpoint g2)
      (g_no_checkpoint g2) (g_elf_entry g2) fresh_loader = Loaded ld'" "ld = ld'" "sd_globals st = g2"
    by (auto simp: load_guest_def split: load_result.splits)
  then show ?thesis
    using h(3) by (auto simp: load_checkpoint_def set_pointers_def fresh_loader_def dest!: load_chk_loop_header)
qed

section \<open>Properties\<close>

text \<open>
  C21.  The command line.  Whatever the number of arguments and environment strings, the start does not fail because of them; the first
  128 arguments behind the name of the hypervisor and the first 127 environment strings are passed on, and the hypercall
  \<open>UHYVE_PORT_CMDSIZE\<close> then writes their numbers and sizes into the guest's structure of 1032 bytes and nothing outside it.
\<close>

theorem cmdline_fits:
  "uhyve_loop lo kv argv st hv0 \<noteq> Inl TooManyStrings \<and>
   (\<forall>hv vm arg. uhyve_loop lo kv argv st hv0 = Inr hv \<and> vm_argv vm = hv_argv hv \<and> vm_envp vm = hv_envp hv \<longrightarrow>
      vm_argv vm = take 128 (drop 1 argv) \<and> vm_envp vm = take 127 (lo_environ lo) \<and>
      load32 (vm_mem (port_cmdsize arg vm)) (arg + cs_argc) = word_of_nat (min 128 (length argv - 1)) \<and>
      load32 (vm_mem (port_cmdsize arg vm)) (arg + cs_envc) = word_of_nat (min 127 (length (lo_environ lo))) \<and>
      (\<forall>i < min 128 (length argv - 1).
         load32 (vm_mem (port_cmdsize arg vm)) (arg + cs_argsz + 4 * word_of_nat i) = word_of_nat (length (argv ! (i + 1))) + 1) \<and>
      (\<forall>x. \<not> in_run x arg 1032 \<longrightarrow> vm_mem (port_cmdsize arg vm) x = vm_mem vm x))"
proof -
  have "uhyve_loop lo kv argv st hv0 \<noteq> Inl TooManyStrings"
    unfolding uhyve_loop_def Let_def clamp_strings_some
    by (auto split: option.splits sum.splits prod.splits)
  moreover have "vm_argv vm = take 128 (drop 1 argv) \<and> vm_envp vm = take 127 (lo_environ lo) \<and>
      load32 (vm_mem (port_cmdsize arg vm)) (arg + cs_argc) = word_of_nat (min 128 (length argv - 1)) \<and>
      load32 (vm_mem (port_cmdsize arg vm)) (arg + cs_envc) = word_of_nat (min 127 (length (lo_environ lo))) \<and>
      (\<forall>i < min 128 (length argv - 1).
         load32 (vm_mem (port_cmdsize arg vm)) (arg + cs_argsz + 4 * word_of_nat i) = word_of_nat (length (argv ! (i + 1))) + 1) \<and>
      (\<forall>x. \<not> in_run x arg 1032 \<longrightarrow> vm_mem (port_cmdsize arg vm) x = vm_mem vm x)"
    if "uhyve_loop lo kv argv st hv0 = Inr hv" "vm_argv vm = hv_argv hv" "vm_envp vm = hv_envp hv" for hv arg and vm :: "'b vm"
  proof -
    have v: "vm_argv vm = take 128 (drop 1 argv)" "vm_envp vm = take 127 (lo_environ lo)"
      using uhyve_loop_started [OF that(1)] that(2,3) by simp_all
    then have l: "length (vm_argv vm) \<le> MAX_ARGC_ENVC" "length (vm_envp vm) \<le> MAX_ARGC_ENVC"
      by (simp_all add: MAX_ARGC_ENVC_def)
    have d: "i < length argv - Suc 0 \<Longrightarrow> drop (Suc 0) argv ! i = argv ! Suc i" for i
      by simp
    show ?thesis
      using port_cmdsize_sizes [OF l, of arg] port_cmdsize_outside [of vm _ arg] l v
      by (simp add: MAX_ARGC_ENVC_def min.commute d)
  qed
  ultimately show ?thesis by blast
qed

text \<open>
  C6.  The restart of a guest.  After \<open>uhyve_init\<close> from a checkpoint, \<open>uhyve_loop\<close> writes the number of cores not into the boot
  information, but 124 bytes behind the entry point of the restored kernel, and changes nothing else.
\<close>

theorem restart_overwrites_image:
  assumes "uhyve_init dec_vs sz ie g = Some st" and "sd_restart st" and "uhyve_loop lo kv argv st hv0 = Inr hv"
  shows "load32 (hv_mem hv) (g_elf_entry (sd_globals st) + 124) = g_ncores (sd_globals st) \<and>
    (\<forall>x. \<not> in_run x (g_elf_entry (sd_globals st) + 124) 4 \<longrightarrow> hv_mem hv x = l_mem (sd_loader st) x)"
  using uhyve_loop_started(3) [OF assms(3)] restart_header [OF assms(1,2)]
  by (auto simp: KH_POSSIBLE_CPUS_def store32_outside)

text \<open>A guest with one core, and its restart from the checkpoints of the theory \<open>Restart\<close>.\<close>

definition kv0 :: kvm_vcpu_env where
  "kv0 = \<lparr>kv_create = (\<lambda>i. 10 + uint i), kv_mmap_size = 0x3000, kv_sizeof_run = 0x930, kv_mapped = True\<rparr>"

definition lo0 :: loop_env where
  "lo0 = \<lparr>lo_check = None, lo_mig_support = None, lo_mig_params = None, lo_debug = None, lo_environ = [asc ''HOME=/''], lo_tmp_str = [], lo_eventfd = 5\<rparr>"

lemma loop_starts:
  assumes "l_kheader (sd_loader st) = Some kh" and "g_ncores (sd_globals st) = 1"
  shows "\<exists>hv. uhyve_loop lo0 kv0 argv st (initial_hypervisor (\<lambda>_. 0) 0) = Inr hv"
  using assms by (simp add: uhyve_loop_def Let_def clamp_strings_some lo0_def setup_migration_def)

definition st0 :: "u64 started" where
  "st0 = \<lparr>sd_globals = default_globals, sd_restart = False, sd_arch = undefined, sd_loader = fresh_loader\<lparr>l_kheader := Some BOOT_INFO_ADDR\<rparr>,
     sd_thread_states = None, sd_net = None\<rparr>"

theorem cmdline_fits_witness:
  "\<exists>hv. uhyve_loop lo0 kv0 [asc ''uhyve'', asc ''app''] st0 (initial_hypervisor (\<lambda>_. 0) 0) = Inr hv \<and>
     hv_argv hv = [asc ''app''] \<and>
     load32 (vm_mem (port_cmdsize 0x20000 ((pipe_vm argv_mem [])\<lparr>vm_argv := hv_argv hv, vm_envp := hv_envp hv\<rparr>))) (0x20000 + cs_argc) = 1"
proof -
  obtain hv where h: "uhyve_loop lo0 kv0 [asc ''uhyve'', asc ''app''] st0 (initial_hypervisor (\<lambda>_. 0) 0) = Inr hv"
    using loop_starts [of st0] by (auto simp: st0_def default_globals_def)
  define vm where "vm = (pipe_vm argv_mem [])\<lparr>vm_argv := hv_argv hv, vm_envp := hv_envp hv\<rparr>"
  then have v: "vm_argv vm = hv_argv hv" "vm_envp vm = hv_envp hv"
    by simp_all
  have "hv_argv hv = [asc ''app''] \<and> load32 (vm_mem (port_cmdsize 0x20000 vm)) (0x20000 + cs_argc) = 1"
    using conjunct2 [OF cmdline_fits [of lo0 kv0 "[asc ''uhyve'', asc ''app'']" st0 "initial_hypervisor (\<lambda>_. 0) 0"], rule_format, of hv vm "0x20000"] h v
    by simp
  then show ?thesis using h unfolding vm_def by blast
qed

theorem restart_overwrites_image_witness:
  "\<exists>st hv. sd_restart st \<and> uhyve_loop lo0 kv0 [asc ''uhyve''] (st :: u64 started) (initial_hypervisor (\<lambda>_. 0) 0) = Inr hv \<and> load32 (hv_mem hv) 124 = 1"
proof -
  let ?files = "[config_fname \<mapsto> print_config default_globals, mem_fname 0 \<mapsto> replicate 48 0]"
  obtain k where k: "init_kvm_arch he0 0x20000000 = Some k"
    by (simp add: init_kvm_arch_def he0_def Let_def)
  have "config_fname \<noteq> mem_fname 0"
    by (simp add: config_fname_def mem_fname_eq asc_def)
  then have f: "?files config_fname = Some (print_config default_globals)" "?files (mem_fname 0) = Some (replicate 48 0)"
    by simp_all
  have "\<exists>ld. load_checkpoint (\<lambda>i. ?files (mem_fname i)) cap False 0 0 fresh_loader = Loaded ld" for cap
    using f(2) by (simp add: load_checkpoint_def load_chk_loop.simps fread1_def sizeof_clock_def Let_def load_pages.simps del: fun_upd_apply)
  then obtain ld where ld: "load_checkpoint (\<lambda>i. ?files (mem_fname i)) (ka_cap_adjust_clock_stable k) False 0 0 fresh_loader = Loaded ld"
    by blast
  have "read_config (print_config default_globals) default_globals = default_globals"
    using read_config_printed [of default_globals default_globals] by (simp add: default_globals_def)
  then obtain st :: "u64 started" where st: "uhyve_init dec64 8 (sample_env ?files None) default_globals = Some st" "sd_restart st"
    "g_ncores (sd_globals st) = 1" "g_elf_entry (sd_globals st) = 0"
    using f(1) k ld by (simp add: uhyve_init_def init_globals_def sample_env_def load_guest_def init_net_def default_globals_def Let_def del: fun_upd_apply)
  then obtain hv where "uhyve_loop lo0 kv0 [asc ''uhyve''] st (initial_hypervisor (\<lambda>_. 0) 0) = Inr hv"
    using loop_starts [OF restart_header [OF st(1,2)] st(3)] by blast
  then show ?thesis
    using restart_overwrites_image [OF st(1,2)] st by fastforce
qed

end
