(* ===== verification/Vcpu_Exit.thy ===== *)
theory Vcpu_Exit
  imports Hv_Prelude
begin

text \<open>
  The end of the hypervisor, \<open>close_fd\<close>, \<open>uhyve_exit\<close>, \<open>uhyve_atexit\<close> and \<open>sigterm_handler\<close> of \<open>src/uhyve.c\<close>, as steps of the vCPU
  threads.  The mutex \<open>kvm_lock\<close> is never released: the first thread that gets it sends \<open>SIGTERM\<close> to all others.
\<close>

section \<open>State\<close>

text \<open>
  A thread runs, waits in \<open>pthread_join\<close> as part of \<open>exit\<close>, or has ended.  \<open>x_vcpufd\<close> is the thread-local variable \<open>vcpufd\<close>;
  -1 is no descriptor.  \<open>x_closed\<close> are the calls of \<open>close\<close> so far, \<open>x_atexit\<close> tells that the handler of \<open>atexit\<close> was started.
\<close>

datatype tstate = Running | Joining | Ended

record exit_vm =
  x_lock :: bool
  x_thread :: "nat \<Rightarrow> tstate"
  x_vcpufd :: "nat \<Rightarrow> int"
  x_sig :: "nat set"
  x_net :: bool
  x_net_sig :: bool
  x_vmfd :: int
  x_kvm :: int
  x_closed :: "int list"
  x_atexit :: bool

definition close_fd :: "int \<Rightarrow> int list \<Rightarrow> int \<times> int list" where
  "close_fd fd closed = (if fd \<noteq> -1 then (-1, closed @ [fd]) else (fd, closed))"

definition close_vcpufd :: "nat \<Rightarrow> exit_vm \<Rightarrow> exit_vm" where
  "close_vcpufd i s = (let (fd, closed) = close_fd (x_vcpufd s i) (x_closed s) in s\<lparr>x_vcpufd := (x_vcpufd s)(i := fd), x_closed := closed\<rparr>)"

text \<open>\<open>uhyve_exit\<close> in the thread \<open>i\<close> of \<open>n\<close>.\<close>

definition uhyve_exit :: "nat \<Rightarrow> nat \<Rightarrow> exit_vm \<Rightarrow> exit_vm" where
  "uhyve_exit n i s =
    (if x_lock s then close_vcpufd i s
     else close_vcpufd i (s\<lparr>x_lock := True, x_sig := x_sig s \<union> ({0..<n} - {i}), x_net_sig := (x_net_sig s \<or> x_net s)\<rparr>))"

text \<open>The end of \<open>uhyve_atexit\<close>, after the other threads were joined.\<close>

definition close_vm :: "exit_vm \<Rightarrow> exit_vm" where
  "close_vm s =
    (let (vmfd, closed) = close_fd (x_vmfd s) (x_closed s); (kvm, closed) = close_fd (x_kvm s) closed
     in s\<lparr>x_vmfd := vmfd, x_kvm := kvm, x_closed := closed\<rparr>)"

definition set_thread :: "nat \<Rightarrow> tstate \<Rightarrow> exit_vm \<Rightarrow> exit_vm" where
  "set_thread i t s = s\<lparr>x_thread := (x_thread s)(i := t)\<rparr>"

definition others_ended :: "nat \<Rightarrow> nat \<Rightarrow> exit_vm \<Rightarrow> bool" where
  "others_ended n i s \<longleftrightarrow> list_all (\<lambda>j. j = i \<or> x_thread s j = Ended) [0..<n]"

section \<open>Steps\<close>

text \<open>
  A secondary thread ends, after \<open>vcpu_loop\<close>, by \<open>pthread_exit\<close> or by \<open>SIGTERM\<close>, through its cleanup handler \<open>uhyve_exit\<close>; the main
  thread has no cleanup handler and ends without it when \<open>SIGTERM\<close> arrives, also while it waits.  Any thread may call \<open>exit\<close>, which runs the
  handler of \<open>atexit\<close> once; when the last thread ends the C library calls \<open>exit\<close>.
\<close>

inductive exit_step :: "nat \<Rightarrow> exit_vm \<Rightarrow> exit_vm \<Rightarrow> bool" for n where
  thread_ends: "0 < i \<Longrightarrow> i < n \<Longrightarrow> x_thread s i = Running \<Longrightarrow> exit_step n s (set_thread i Ended (uhyve_exit n i s))"
| main_killed: "0 < n \<Longrightarrow> x_thread s 0 \<noteq> Ended \<Longrightarrow> 0 \<in> x_sig s \<Longrightarrow> exit_step n s (set_thread 0 Ended s)"
| waiting_killed: "0 < i \<Longrightarrow> i < n \<Longrightarrow> x_thread s i = Joining \<Longrightarrow> i \<in> x_sig s \<Longrightarrow> exit_step n s (set_thread i Ended (uhyve_exit n i s))"
| exit_called: "i < n \<Longrightarrow> x_thread s i = Running \<Longrightarrow> \<not> x_atexit s \<Longrightarrow>
    exit_step n s (set_thread i Joining ((uhyve_exit n i s)\<lparr>x_atexit := True\<rparr>))"
| joined: "i < n \<Longrightarrow> x_thread s i = Joining \<Longrightarrow> others_ended n i s \<Longrightarrow> exit_step n s (set_thread i Ended (close_vm s))"
| last_ends: "i < n \<Longrightarrow> x_thread s i = Ended \<Longrightarrow> others_ended n i s \<Longrightarrow> \<not> x_atexit s \<Longrightarrow>
    exit_step n s (close_vm ((uhyve_exit n i s)\<lparr>x_atexit := True\<rparr>))"

definition running_vm :: "(nat \<Rightarrow> int) \<Rightarrow> int \<Rightarrow> int \<Rightarrow> bool \<Rightarrow> exit_vm" where
  "running_vm fds vmfd kvm net = \<lparr>x_lock = False, x_thread = (\<lambda>_. Running), x_vcpufd = fds, x_sig = {}, x_net = net, x_net_sig = False,
     x_vmfd = vmfd, x_kvm = kvm, x_closed = [], x_atexit = False\<rparr>"

inductive exit_reach :: "nat \<Rightarrow> exit_vm \<Rightarrow> exit_vm \<Rightarrow> bool" for n s0 where
  start: "exit_reach n s0 s0"
| step: "exit_reach n s0 s \<Longrightarrow> exit_step n s s' \<Longrightarrow> exit_reach n s0 s'"

section \<open>Lemmas\<close>

text \<open>The descriptors are all different.\<close>

definition fds_ok :: "nat \<Rightarrow> (nat \<Rightarrow> int) \<Rightarrow> int \<Rightarrow> int \<Rightarrow> bool" where
  "fds_ok n fds vmfd kvm \<longleftrightarrow> inj_on fds {0..<n} \<and> vmfd \<notin> fds ` {0..<n} \<and> kvm \<notin> fds ` {0..<n} \<and> vmfd \<noteq> kvm \<and>
     -1 \<notin> fds ` {0..<n} \<and> vmfd \<noteq> -1 \<and> kvm \<noteq> -1"

definition vcpu_inv :: "nat \<Rightarrow> (nat \<Rightarrow> int) \<Rightarrow> exit_vm \<Rightarrow> bool" where
  "vcpu_inv n fds s \<longleftrightarrow> (\<forall>i < n. x_vcpufd s i = (if fds i \<in> set (x_closed s) then -1 else fds i) \<and>
     (x_thread s i = Running \<longrightarrow> fds i \<notin> set (x_closed s)))"

definition vm_inv :: "nat \<Rightarrow> int \<Rightarrow> int \<Rightarrow> exit_vm \<Rightarrow> bool" where
  "vm_inv n vmfd kvm s \<longleftrightarrow> x_vmfd s = (if vmfd \<in> set (x_closed s) then -1 else vmfd) \<and> x_kvm s = (if kvm \<in> set (x_closed s) then -1 else kvm) \<and>
     (vmfd \<in> set (x_closed s) \<or> kvm \<in> set (x_closed s) \<longrightarrow> (\<forall>i < n. x_thread s i = Ended))"

definition sig_inv :: "nat \<Rightarrow> exit_vm \<Rightarrow> bool" where
  "sig_inv n s \<longleftrightarrow> (x_lock s \<longrightarrow> (\<exists>k < n. x_sig s = {0..<n} - {k})) \<and> (\<not> x_lock s \<longrightarrow> x_sig s = {})"

definition exit_inv :: "nat \<Rightarrow> (nat \<Rightarrow> int) \<Rightarrow> int \<Rightarrow> int \<Rightarrow> exit_vm \<Rightarrow> bool" where
  "exit_inv n fds vmfd kvm s \<longleftrightarrow> distinct (x_closed s) \<and> vcpu_inv n fds s \<and> vm_inv n vmfd kvm s \<and> sig_inv n s"

lemmas exit_inv_defs = exit_inv_def vcpu_inv_def vm_inv_def sig_inv_def

lemma start_inv: "fds_ok n fds vmfd kvm \<Longrightarrow> exit_inv n fds vmfd kvm (running_vm fds vmfd kvm net)"
  by (simp add: exit_inv_defs running_vm_def)

text \<open>What a thread does to its own descriptor, then the closing of the machine.\<close>

lemma uhyve_exit_inv:
  assumes "fds_ok n fds vmfd kvm" and "i < n" and "exit_inv n fds vmfd kvm s" and "t \<noteq> Running"
    and "t = Ended \<or> vmfd \<notin> set (x_closed s) \<and> kvm \<notin> set (x_closed s)"
  shows "exit_inv n fds vmfd kvm (set_thread i t (uhyve_exit n i s))"
proof -
  have "fds i \<in> fds ` {0..<n}"
    using assms(2) by simp
  then have f: "fds i \<noteq> -1" "fds i \<noteq> vmfd" "fds i \<noteq> kvm"
    using assms(1) unfolding fds_ok_def by metis+
  have f4: "j < n \<Longrightarrow> j \<noteq> i \<Longrightarrow> fds j \<noteq> fds i" for j
    using assms(1,2) unfolding fds_ok_def inj_on_def by auto
  have c: "x_vcpufd s i = (if fds i \<in> set (x_closed s) then -1 else fds i)"
    using assms(2,3) by (simp add: exit_inv_defs)
  have e: "uhyve_exit n i s = s\<lparr>x_lock := True, x_sig := x_sig (uhyve_exit n i s), x_net_sig := x_net_sig (uhyve_exit n i s),
      x_vcpufd := (x_vcpufd s)(i := -1), x_closed := x_closed s @ (if fds i \<in> set (x_closed s) then [] else [fds i])\<rparr>"
    using c f(1) by (simp add: uhyve_exit_def close_vcpufd_def close_fd_def fun_eq_iff)
  have g: "x_sig (uhyve_exit n i s) = (if x_lock s then x_sig s else x_sig s \<union> ({0..<n} - {i}))"
    by (simp add: uhyve_exit_def close_vcpufd_def split: prod.split)
  show ?thesis
    using assms(2-5) f f4 unfolding set_thread_def
    by (subst (1 2) e) (auto simp: exit_inv_defs g split: if_splits)
qed

lemma close_vm_inv:
  assumes "fds_ok n fds vmfd kvm" and "exit_inv n fds vmfd kvm s" and "\<forall>j < n. x_thread s j \<noteq> Running" and "\<forall>j < n. x_thread s' j = Ended"
    and "s' = (close_vm s)\<lparr>x_thread := x_thread s'\<rparr>"
  shows "exit_inv n fds vmfd kvm s'"
proof -
  have f: "i < n \<Longrightarrow> fds i \<noteq> vmfd \<and> fds i \<noteq> kvm" for i
    using assms(1) unfolding fds_ok_def by (metis atLeastLessThan_iff image_eqI le0)
  have v: "vmfd \<noteq> kvm" "vmfd \<noteq> -1" "kvm \<noteq> -1"
    using assms(1) by (simp_all add: fds_ok_def)
  have x: "x_vmfd s = (if vmfd \<in> set (x_closed s) then -1 else vmfd)" "x_kvm s = (if kvm \<in> set (x_closed s) then -1 else kvm)"
    using assms(2) by (simp_all add: exit_inv_defs)
  have "x_closed s' = x_closed s @ (if vmfd \<in> set (x_closed s) then [] else [vmfd]) @ (if kvm \<in> set (x_closed s) then [] else [kvm])"
    "x_vmfd s' = -1" "x_kvm s' = -1" "x_vcpufd s' = x_vcpufd s" "x_sig s' = x_sig s" "x_lock s' = x_lock s"
    using x v by (subst assms(5), simp add: close_vm_def close_fd_def)+
  then show ?thesis
    using assms(2-4) f v by (auto simp: exit_inv_defs)
qed

lemma exit_step_inv:
  assumes "fds_ok n fds vmfd kvm" and "exit_step n s s'" and "exit_inv n fds vmfd kvm s"
  shows "exit_inv n fds vmfd kvm s'"
  using assms(2,3)
proof cases
  case (thread_ends i)
  then show ?thesis using uhyve_exit_inv [OF assms(1) _ assms(3), of i Ended] by simp
next
  case main_killed
  then show ?thesis using assms(3) by (auto simp: exit_inv_defs set_thread_def)
next
  case (waiting_killed i)
  then show ?thesis using uhyve_exit_inv [OF assms(1) _ assms(3), of i Ended] by simp
next
  case (exit_called i)
  then have "exit_inv n fds vmfd kvm (set_thread i Joining (uhyve_exit n i s))"
    using assms(3) by (intro uhyve_exit_inv [OF assms(1)]) (auto simp: exit_inv_defs)
  then show ?thesis
    unfolding exit_called(1) by (simp add: exit_inv_defs set_thread_def)
next
  case (joined i)
  have e: "j < n \<Longrightarrow> x_thread s j = Joining \<or> x_thread s j = Ended" "j < n \<Longrightarrow> j \<noteq> i \<Longrightarrow> x_thread s j = Ended" for j
    using joined(3,4) unfolding others_ended_def list_all_iff by auto
  have t: "x_thread (close_vm s) = x_thread s"
    by (simp add: close_vm_def split: prod.split)
  show ?thesis
    by (rule close_vm_inv [OF assms(1,3)]) (use e t joined(1) in \<open>force simp: set_thread_def\<close>)+
next
  case (last_ends i)
  have e: "\<forall>j < n. x_thread s j = Ended"
    using last_ends(3,4) by (auto simp: others_ended_def list_all_iff)
  have t: "x_thread (uhyve_exit n i s) = x_thread s"
    by (simp add: uhyve_exit_def close_vcpufd_def split: prod.split)
  have "exit_inv n fds vmfd kvm (set_thread i Ended (uhyve_exit n i s))"
    using last_ends(2) by (intro uhyve_exit_inv [OF assms(1) _ assms(3)]) auto
  moreover have "set_thread i Ended (uhyve_exit n i s) = uhyve_exit n i s"
    using last_ends(3) t by (intro exit_vm.equality) (simp_all add: set_thread_def fun_upd_idem)
  ultimately have "exit_inv n fds vmfd kvm ((uhyve_exit n i s)\<lparr>x_atexit := True\<rparr>)"
    by (simp add: exit_inv_defs)
  then show ?thesis
    unfolding last_ends(1)
    by (rule close_vm_inv [OF assms(1)]) (use e t in \<open>auto simp: close_vm_def split: prod.split\<close>)
qed

section \<open>Properties\<close>



end
