(* ===== verification/Gdb_Breakpoints.thy ===== *)
theory Gdb_Breakpoints
  imports Hv_Prelude
begin

text \<open>
  The breakpoints of the debugger stub (\<open>src/uhyve-gdb.c\<close>, x86-64): the two singly linked lists of software
  and hardware breakpoints, the \<open>int3\<close> bytes that software breakpoints put into guest memory, and the
  debug registers handed to KVM.  The interface \<open>keyed_store\<close> states what the stub relies on in a list.

  A \<open>struct breakpoint_t\<close> pointer is the position of the structure in its list: a found breakpoint is the
  first one with the address and the length, which is also the one that \<open>SLIST_REMOVE\<close> unlinks.
\<close>

unbundle bit_operations_syntax

datatype gdb_breakpoint_type =
    GDB_BREAKPOINT_SW | GDB_BREAKPOINT_HW | GDB_WATCHPOINT_WRITE | GDB_WATCHPOINT_READ | GDB_WATCHPOINT_ACCESS

record breakpoint =
  bp_type :: gdb_breakpoint_type
  bp_addr :: u64
  bp_len :: u64
  bp_refcount :: u32
  bp_saved_insn :: u8

record kvm_guest_debug =
  dbg_control :: u32
  dbg_debugreg :: "u64 list"

record debug_state =
  d_mem :: gmem
  d_sw :: "breakpoint list"
  d_hw :: "breakpoint list"
  d_nr_hw :: u32
  d_stepping :: bool
  d_kvm :: kvm_guest_debug

definition MAX_HW_BREAKPOINTS :: u32 where "MAX_HW_BREAKPOINTS = 4"
definition int3 :: u8 where "int3 = 0xcc"
definition KVM_GUESTDBG_ENABLE :: u32 where "KVM_GUESTDBG_ENABLE = 1"
definition KVM_GUESTDBG_SINGLESTEP :: u32 where "KVM_GUESTDBG_SINGLESTEP = 2"
definition KVM_GUESTDBG_USE_SW_BP :: u32 where "KVM_GUESTDBG_USE_SW_BP = 0x10000"
definition KVM_GUESTDBG_USE_HW_BP :: u32 where "KVM_GUESTDBG_USE_HW_BP = 0x20000"

section \<open>Lists\<close>

definition bp_key :: "breakpoint \<Rightarrow> u64 \<times> u64" where
  "bp_key bp = (bp_addr bp, bp_len bp)"

text \<open>\<open>SLIST_FOREACH\<close> with the test of \<open>bp_list_find\<close>; the update of the found element; \<open>SLIST_REMOVE\<close>.\<close>

definition slist_find :: "breakpoint list \<Rightarrow> u64 \<times> u64 \<Rightarrow> breakpoint option" where
  "slist_find bps k = List.find (\<lambda>bp. bp_key bp = k) bps"

primrec slist_update :: "(breakpoint \<Rightarrow> breakpoint) \<Rightarrow> breakpoint list \<Rightarrow> u64 \<times> u64 \<Rightarrow> breakpoint list" where
  "slist_update f [] k = []"
| "slist_update f (bp # bps) k = (if bp_key bp = k then f bp # bps else bp # slist_update f bps k)"

primrec slist_remove :: "breakpoint list \<Rightarrow> u64 \<times> u64 \<Rightarrow> breakpoint list" where
  "slist_remove [] k = []"
| "slist_remove (bp # bps) k = (if bp_key bp = k then bps else bp # slist_remove bps k)"

definition slist_insert_head :: "breakpoint list \<Rightarrow> breakpoint \<Rightarrow> breakpoint list" where
  "slist_insert_head bps bp = bp # bps"

definition bp_list :: "gdb_breakpoint_type \<Rightarrow> debug_state \<Rightarrow> breakpoint list" where
  "bp_list type st = (if type = GDB_BREAKPOINT_SW then d_sw st else d_hw st)"

definition set_bp_list :: "gdb_breakpoint_type \<Rightarrow> breakpoint list \<Rightarrow> debug_state \<Rightarrow> debug_state" where
  "set_bp_list type bps st = (if type = GDB_BREAKPOINT_SW then st\<lparr>d_sw := bps\<rparr> else st\<lparr>d_hw := bps\<rparr>)"

definition bp_list_find :: "gdb_breakpoint_type \<Rightarrow> u64 \<Rightarrow> u64 \<Rightarrow> debug_state \<Rightarrow> breakpoint option" where
  "bp_list_find type addr len st = slist_find (bp_list type st) (addr, len)"

text \<open>\<open>None\<close> is the null pointer; \<open>malloced\<close> tells whether \<open>malloc\<close> returned memory.\<close>

definition bp_list_insert ::
  "bool \<Rightarrow> gdb_breakpoint_type \<Rightarrow> u64 \<Rightarrow> u64 \<Rightarrow> debug_state \<Rightarrow> breakpoint option \<times> debug_state" where
  "bp_list_insert malloced type addr len st =
    (case bp_list_find type addr len st of
       Some bp \<Rightarrow>
         let inc = (\<lambda>bp. bp\<lparr>bp_refcount := bp_refcount bp + 1\<rparr>)
         in (Some (inc bp), set_bp_list type (slist_update inc (bp_list type st) (addr, len)) st)
     | None \<Rightarrow>
         if \<not> malloced then (None, st)
         else let bp = \<lparr>bp_type = type, bp_addr = addr, bp_len = len, bp_refcount = 1, bp_saved_insn = 0\<rparr>
              in if type = GDB_BREAKPOINT_SW then (Some bp, st\<lparr>d_sw := slist_insert_head (d_sw st) bp\<rparr>)
                 else if d_nr_hw st = MAX_HW_BREAKPOINTS then (None, st)
                 else (Some bp, st\<lparr>d_nr_hw := d_nr_hw st + 1, d_hw := slist_insert_head (d_hw st) bp\<rparr>))"

text \<open>The result tells whether the breakpoint was in the list (0 or -1).\<close>

definition bp_list_remove :: "gdb_breakpoint_type \<Rightarrow> u64 \<Rightarrow> u64 \<Rightarrow> debug_state \<Rightarrow> bool \<times> debug_state" where
  "bp_list_remove type addr len st =
    (case bp_list_find type addr len st of
       None \<Rightarrow> (False, st)
     | Some bp \<Rightarrow>
         let dec = (\<lambda>bp. bp\<lparr>bp_refcount := bp_refcount bp - 1\<rparr>);
             st = set_bp_list type (slist_update dec (bp_list type st) (addr, len)) st
         in if bp_refcount (dec bp) > 0 then (True, st)
            else let st = set_bp_list type (slist_remove (bp_list type st) (addr, len)) st
                 in (True, if type = GDB_BREAKPOINT_SW then st else st\<lparr>d_nr_hw := d_nr_hw st - 1\<rparr>))"

section \<open>Debug registers\<close>

definition type_code :: "gdb_breakpoint_type \<Rightarrow> u64" where
  "type_code type = (case type of GDB_BREAKPOINT_SW \<Rightarrow> 0 | GDB_BREAKPOINT_HW \<Rightarrow> 0 | GDB_WATCHPOINT_WRITE \<Rightarrow> 1
     | GDB_WATCHPOINT_READ \<Rightarrow> 2 | GDB_WATCHPOINT_ACCESS \<Rightarrow> 3)"

text \<open>\<open>len_code\<close>, whose entries other than 1, 2, 4 and 8 are 0.  The array ends at 8; longer lengths are out of its bounds.\<close>

definition len_code :: "u64 \<Rightarrow> u64" where
  "len_code len = (if len = 2 then 1 else if len = 4 then 3 else if len = 8 then 2 else 0)"

definition dr7_init :: u64 where "dr7_init = push_bit 9 1 OR push_bit 10 1"

fun hw_loop :: "nat \<Rightarrow> breakpoint list \<Rightarrow> u64 list \<Rightarrow> u64 list" where
  "hw_loop n [] regs = regs"
| "hw_loop n (bp # bps) regs =
    (let regs = regs[n := bp_addr bp];
         dr7 = regs ! 7 OR push_bit (n * 2) 2;
         dr7 = dr7 OR push_bit (16 + n * 4) (type_code (bp_type bp));
         dr7 = dr7 OR push_bit (18 + n * 4) (len_code (bp_len bp))
     in hw_loop (n + 1) bps (regs[7 := dr7]))"

definition uhyve_gdb_update_guest_debug :: "debug_state \<Rightarrow> debug_state" where
  "uhyve_gdb_update_guest_debug st =
    (let control = (if d_stepping st then KVM_GUESTDBG_ENABLE OR KVM_GUESTDBG_SINGLESTEP else 0);
         control = (if d_sw st \<noteq> [] then control OR (KVM_GUESTDBG_ENABLE OR KVM_GUESTDBG_USE_SW_BP) else control);
         regs = replicate 8 0;
         (control, regs) =
           (if d_hw st \<noteq> []
            then (control OR (KVM_GUESTDBG_ENABLE OR KVM_GUESTDBG_USE_HW_BP), hw_loop 0 (d_hw st) (regs[7 := dr7_init]))
            else (control, regs))
     in st\<lparr>d_kvm := \<lparr>dbg_control = control, dbg_debugreg = regs\<rparr>\<rparr>)"

section \<open>Operations\<close>

definition kvm_arch_insert_sw_breakpoint :: "u64 \<times> u64 \<Rightarrow> debug_state \<Rightarrow> debug_state" where
  "kvm_arch_insert_sw_breakpoint k st =
    st\<lparr>d_sw := slist_update (\<lambda>bp. bp\<lparr>bp_saved_insn := d_mem st (bp_addr bp)\<rparr>) (d_sw st) k,
       d_mem := (d_mem st)(fst k := int3)\<rparr>"

text \<open>\<open>None\<close>: the assertion that the instruction is \<open>int3\<close> fails.\<close>

definition kvm_arch_remove_sw_breakpoint :: "breakpoint \<Rightarrow> debug_state \<Rightarrow> debug_state option" where
  "kvm_arch_remove_sw_breakpoint bp st =
    (if d_mem st (bp_addr bp) = int3 then Some (st\<lparr>d_mem := (d_mem st)(bp_addr bp := bp_saved_insn bp)\<rparr>) else None)"

definition uhyve_gdb_add_breakpoint ::
  "bool \<Rightarrow> gdb_breakpoint_type \<Rightarrow> u64 \<Rightarrow> u64 \<Rightarrow> debug_state \<Rightarrow> bool \<times> debug_state" where
  "uhyve_gdb_add_breakpoint malloced type addr len st =
    (if bp_list_find type addr len st \<noteq> None then (True, st)
     else case bp_list_insert malloced type addr len st of
            (None, st) \<Rightarrow> (False, st)
          | (Some bp, st) \<Rightarrow>
              let st = (if type = GDB_BREAKPOINT_SW then kvm_arch_insert_sw_breakpoint (addr, len) st else st)
              in (True, uhyve_gdb_update_guest_debug st))"

definition uhyve_gdb_remove_breakpoint ::
  "gdb_breakpoint_type \<Rightarrow> u64 \<Rightarrow> u64 \<Rightarrow> debug_state \<Rightarrow> (bool \<times> debug_state) option" where
  "uhyve_gdb_remove_breakpoint type addr len st =
    (case (if type = GDB_BREAKPOINT_SW
           then case bp_list_find type addr len st of Some bp \<Rightarrow> kvm_arch_remove_sw_breakpoint bp st | None \<Rightarrow> Some st
           else Some st) of
       None \<Rightarrow> None
     | Some st \<Rightarrow>
         (case bp_list_remove type addr len st of
            (False, st) \<Rightarrow> Some (False, st)
          | (True, st) \<Rightarrow> Some (True, uhyve_gdb_update_guest_debug st)))"

definition uhyve_gdb_enable_ss :: "debug_state \<Rightarrow> debug_state" where
  "uhyve_gdb_enable_ss st = uhyve_gdb_update_guest_debug (st\<lparr>d_stepping := True\<rparr>)"

definition uhyve_gdb_disable_ss :: "debug_state \<Rightarrow> debug_state" where
  "uhyve_gdb_disable_ss st = uhyve_gdb_update_guest_debug (st\<lparr>d_stepping := False\<rparr>)"

section \<open>The interface of a breakpoint list\<close>

locale keyed_store =
  fixes lookup :: "'s \<Rightarrow> 'k \<Rightarrow> 'v option" and insert :: "'s \<Rightarrow> 'v \<Rightarrow> 's" and remove :: "'s \<Rightarrow> 'k \<Rightarrow> 's"
    and key :: "'v \<Rightarrow> 'k" and inv :: "'s \<Rightarrow> bool"
  assumes lookup_key: "lookup s k = Some v \<Longrightarrow> key v = k"
    and lookup_insert: "lookup (insert s v) k = (if k = key v then Some v else lookup s k)"
    and lookup_remove: "inv s \<Longrightarrow> lookup (remove s k) k' = (if k' = k then None else lookup s k')"
    and inv_insert: "inv s \<Longrightarrow> lookup s (key v) = None \<Longrightarrow> inv (insert s v)"
    and inv_remove: "inv s \<Longrightarrow> inv (remove s k)"
begin

lemma remove_insert:
  "inv s \<Longrightarrow> lookup s (key v) = None \<Longrightarrow> lookup (remove (insert s v) (key v)) k = lookup s k"
  by (simp add: lookup_remove inv_insert lookup_insert)

lemma insert_other: "lookup s k = Some w \<Longrightarrow> lookup s (key v) = None \<Longrightarrow> lookup (insert s v) k = Some w"
  by (auto simp: lookup_insert)

end

lemma slist_find_Nil: "slist_find [] k = None"
  by (simp add: slist_find_def)

lemma slist_find_Cons: "slist_find (bp # bps) k = (if bp_key bp = k then Some bp else slist_find bps k)"
  by (simp add: slist_find_def)

lemma slist_find_None: "slist_find bps k = None \<longleftrightarrow> k \<notin> bp_key ` set bps"
  by (induction bps) (auto simp: slist_find_Cons slist_find_def)

lemma slist_find_mem: "slist_find bps k = Some bp \<Longrightarrow> bp \<in> set bps \<and> bp_key bp = k"
  by (induction bps) (auto simp: slist_find_Cons slist_find_def split: if_splits)

lemma set_slist_remove: "set (slist_remove bps k) \<subseteq> set bps"
  by (induction bps) auto

lemma slist_remove_keys: "distinct (map bp_key bps) \<Longrightarrow>
   bp_key ` set (slist_remove bps k) = bp_key ` set bps - {k} \<and> distinct (map bp_key (slist_remove bps k))"
  by (induction bps) auto

interpretation slist: keyed_store slist_find slist_insert_head slist_remove bp_key "\<lambda>bps. distinct (map bp_key bps)"
proof
  fix bps k k' assume d: "distinct (map bp_key bps)"
  show "slist_find (slist_remove bps k) k' = (if k' = k then None else slist_find bps k')"
    using d by (induction bps) (auto simp: slist_find_Nil slist_find_Cons slist_find_None)
  show "distinct (map bp_key (slist_remove bps k))"
    using slist_remove_keys [OF d] by simp
next
  fix bps v assume "distinct (map bp_key bps)" and "slist_find bps (bp_key v) = None"
  then show "distinct (map bp_key (slist_insert_head bps v))"
    by (simp add: slist_insert_head_def slist_find_None)
qed (auto simp: slist_insert_head_def slist_find_Cons dest: slist_find_mem)

section \<open>The invariant\<close>

text \<open>
  No address and length twice in a list, software and hardware breakpoints in their own list, the
  counter is the length of the hardware list and at most 4, and all reference counts are 1.
\<close>

definition bp_inv :: "debug_state \<Rightarrow> bool" where
  "bp_inv st \<longleftrightarrow> distinct (map bp_key (d_sw st)) \<and> distinct (map bp_key (d_hw st)) \<and>
     length (d_hw st) \<le> 4 \<and> d_nr_hw st = word_of_nat (length (d_hw st)) \<and>
     (\<forall>bp \<in> set (d_sw st). bp_type bp = GDB_BREAKPOINT_SW \<and> bp_refcount bp = 1) \<and>
     (\<forall>bp \<in> set (d_hw st). bp_type bp \<noteq> GDB_BREAKPOINT_SW \<and> bp_refcount bp = 1)"

lemma update_sel [simp]:
  "d_sw (uhyve_gdb_update_guest_debug st) = d_sw st" "d_hw (uhyve_gdb_update_guest_debug st) = d_hw st"
  "d_nr_hw (uhyve_gdb_update_guest_debug st) = d_nr_hw st" "d_mem (uhyve_gdb_update_guest_debug st) = d_mem st"
  by (simp_all add: uhyve_gdb_update_guest_debug_def Let_def split_beta)

lemma bp_inv_update [simp]: "bp_inv (uhyve_gdb_update_guest_debug st) = bp_inv st"
  by (simp add: bp_inv_def)

lemma slist_update_keys: "(\<And>bp. bp_key (f bp) = bp_key bp) \<Longrightarrow> map bp_key (slist_update f bps k) = map bp_key bps"
  by (induction bps) auto

lemma slist_update_head: "bp_key bp = k \<Longrightarrow> slist_update f (bp # bps) k = f bp # bps"
  by simp

lemma slist_remove_update: "(\<And>bp. bp_key (f bp) = bp_key bp) \<Longrightarrow> slist_remove (slist_update f bps k) k = slist_remove bps k"
  by (induction bps) auto

lemma length_slist_remove: "slist_find bps k \<noteq> None \<Longrightarrow> Suc (length (slist_remove bps k)) = length bps"
  by (induction bps) (auto simp: slist_find_Cons slist_find_def split: if_splits)

text \<open>What adding a breakpoint that is not there does.\<close>

lemma add_new_sw:
  assumes "bp_list_find GDB_BREAKPOINT_SW addr len st = None"
  shows "uhyve_gdb_add_breakpoint True GDB_BREAKPOINT_SW addr len st =
    (True, uhyve_gdb_update_guest_debug (st\<lparr>d_sw := \<lparr>bp_type = GDB_BREAKPOINT_SW, bp_addr = addr, bp_len = len,
        bp_refcount = 1, bp_saved_insn = d_mem st addr\<rparr> # d_sw st, d_mem := (d_mem st)(addr := int3)\<rparr>))"
  using assms
  by (simp add: uhyve_gdb_add_breakpoint_def bp_list_insert_def slist_insert_head_def kvm_arch_insert_sw_breakpoint_def bp_key_def Let_def)

lemma add_new_hw:
  assumes "bp_list_find type addr len st = None" and "type \<noteq> GDB_BREAKPOINT_SW"
  shows "uhyve_gdb_add_breakpoint True type addr len st =
    (if d_nr_hw st = MAX_HW_BREAKPOINTS then (False, st)
     else (True, uhyve_gdb_update_guest_debug (st\<lparr>d_nr_hw := d_nr_hw st + 1, d_hw := \<lparr>bp_type = type, bp_addr = addr,
        bp_len = len, bp_refcount = 1, bp_saved_insn = 0\<rparr> # d_hw st\<rparr>)))"
  using assms
  by (simp add: uhyve_gdb_add_breakpoint_def bp_list_insert_def slist_insert_head_def Let_def)

lemma add_known:
  "bp_list_find type addr len st \<noteq> None \<Longrightarrow> uhyve_gdb_add_breakpoint m type addr len st = (True, st)"
  by (simp add: uhyve_gdb_add_breakpoint_def)

lemma nr_hw_max: "bp_inv st \<Longrightarrow> d_nr_hw st = MAX_HW_BREAKPOINTS \<longleftrightarrow> length (d_hw st) = 4"
  by (auto simp: bp_inv_def MAX_HW_BREAKPOINTS_def word_unat_eq_iff unat_of_nat)

lemma add_inv:
  assumes "bp_inv st"
  shows "bp_inv (snd (uhyve_gdb_add_breakpoint True type addr len st))"
proof (cases "bp_list_find type addr len st")
  case None
  then have n: "(addr, len) \<notin> bp_key ` set (bp_list type st)"
    by (simp add: bp_list_find_def slist_find_None)
  show ?thesis
  proof (cases "type = GDB_BREAKPOINT_SW")
    case True
    then show ?thesis
      using assms n None by (simp add: add_new_sw) (simp add: bp_inv_def bp_list_def bp_key_def)
  next
    case False
    then show ?thesis
      using assms n None nr_hw_max [OF assms]
      by (auto simp: add_new_hw) (auto simp: bp_inv_def bp_list_def bp_key_def)
  qed
next
  case (Some bp)
  then show ?thesis using assms by (simp add: add_known)
qed

lemma bp_list_remove_inv:
  assumes "bp_inv st" and "bp_list_find type addr len st = Some bp"
  shows "bp_list_remove type addr len st =
    (True, if type = GDB_BREAKPOINT_SW then st\<lparr>d_sw := slist_remove (d_sw st) (addr, len)\<rparr>
           else st\<lparr>d_hw := slist_remove (d_hw st) (addr, len), d_nr_hw := d_nr_hw st - 1\<rparr>)"
proof -
  have "bp \<in> set (bp_list type st)"
    using assms(2) by (auto simp: bp_list_find_def dest: slist_find_mem)
  then have "bp_refcount bp = 1"
    using assms(1) by (auto simp: bp_inv_def bp_list_def split: if_splits)
  then show ?thesis
    using assms(2)
    by (simp add: bp_list_remove_def bp_list_def set_bp_list_def Let_def slist_remove_update bp_key_def)
qed

lemma remove_known:
  assumes "bp_inv st" and "bp_list_find type addr len st = Some bp"
  shows "uhyve_gdb_remove_breakpoint type addr len st =
    (if type = GDB_BREAKPOINT_SW
     then if d_mem st addr = int3
          then Some (True, uhyve_gdb_update_guest_debug (st\<lparr>d_mem := (d_mem st)(addr := bp_saved_insn bp),
                 d_sw := slist_remove (d_sw st) (addr, len)\<rparr>))
          else None
     else Some (True, uhyve_gdb_update_guest_debug (st\<lparr>d_hw := slist_remove (d_hw st) (addr, len), d_nr_hw := d_nr_hw st - 1\<rparr>)))"
proof -
  have a: "bp_addr bp = addr"
    using assms(2) by (auto simp: bp_list_find_def bp_key_def dest!: slist_find_mem)
  show ?thesis
  proof (cases "type = GDB_BREAKPOINT_SW")
    case True
    let ?st = "st\<lparr>d_mem := (d_mem st)(addr := bp_saved_insn bp)\<rparr>"
    have i: "bp_inv ?st" and f: "bp_list_find type addr len ?st = Some bp"
      using assms True by (simp_all add: bp_inv_def bp_list_find_def bp_list_def)
    show ?thesis
      using True a assms(2) bp_list_remove_inv [OF i f]
      by (simp add: uhyve_gdb_remove_breakpoint_def kvm_arch_remove_sw_breakpoint_def)
  next
    case False
    then show ?thesis
      using bp_list_remove_inv [OF assms] by (simp add: uhyve_gdb_remove_breakpoint_def)
  qed
qed

lemma remove_unknown:
  "bp_list_find type addr len st = None \<Longrightarrow> uhyve_gdb_remove_breakpoint type addr len st = Some (False, st)"
  by (cases "type = GDB_BREAKPOINT_SW") (simp_all add: uhyve_gdb_remove_breakpoint_def bp_list_remove_def)

lemma remove_inv:
  assumes "bp_inv st" and "uhyve_gdb_remove_breakpoint type addr len st = Some (ok, st')"
  shows "bp_inv st'"
proof (cases "bp_list_find type addr len st")
  case None
  then show ?thesis using assms by (simp add: remove_unknown)
next
  case (Some bp)
  let ?k = "(addr, len)"
  have sub: "bp \<in> set (slist_remove bps ?k) \<Longrightarrow> bp \<in> set bps" for bp bps
    using set_slist_remove by blast
  show ?thesis
  proof (cases "type = GDB_BREAKPOINT_SW")
    case True
    then show ?thesis
      using assms Some slist_remove_keys [of "d_sw st" ?k]
      by (auto simp: remove_known split: if_splits) (auto simp: bp_inv_def dest: sub)
  next
    case False
    have "slist_find (d_hw st) ?k \<noteq> None"
      using Some False by (simp add: bp_list_find_def bp_list_def)
    note l = length_slist_remove [OF this]
    then have "(word_of_nat (length (d_hw st)) :: u32) - 1 = word_of_nat (length (slist_remove (d_hw st) ?k))"
      by (simp flip: l)
    then show ?thesis
      using assms Some False l slist_remove_keys [of "d_hw st" ?k]
      by (auto simp: remove_known) (auto simp: bp_inv_def dest: sub)
  qed
qed

section \<open>The guest's own memory\<close>

text \<open>Guest memory with the saved instructions put back, from the newest breakpoint to the oldest.\<close>

definition put_back :: "breakpoint \<Rightarrow> gmem \<Rightarrow> gmem" where
  "put_back bp m = m(bp_addr bp := bp_saved_insn bp)"

definition shadow :: "debug_state \<Rightarrow> gmem" where
  "shadow st = fold put_back (d_sw st) (d_mem st)"

lemma put_back_twist: "bp_addr b \<noteq> bp_addr c \<Longrightarrow> put_back b (put_back c m) = put_back c (put_back b m)"
  by (auto simp: put_back_def)

lemma fold_saved_remove:
  "distinct (map bp_addr bps) \<Longrightarrow> slist_find bps k = Some bp \<Longrightarrow>
   fold put_back (slist_remove bps k) (put_back bp m) = fold put_back bps m"
proof (induction bps arbitrary: m)
  case (Cons b bps)
  show ?case
  proof (cases "bp_key b = k")
    case True
    then show ?thesis using Cons.prems by (simp add: slist_find_Cons)
  next
    case False
    then have f: "slist_find bps k = Some bp"
      using Cons.prems(2) by (simp add: slist_find_Cons)
    then have "bp_addr bp \<in> bp_addr ` set bps"
      using slist_find_mem by blast
    then have "bp_addr b \<noteq> bp_addr bp"
      using Cons.prems(1) by auto
    then show ?thesis
      using False Cons.IH [OF _ f, of "put_back b m"] Cons.prems(1) by (simp add: put_back_twist)
  qed
qed (simp add: slist_find_def)

section \<open>The debug control register\<close>

lemma bit_push_2: "k < 63 \<Longrightarrow> bit (push_bit k (2 :: u64)) m \<longleftrightarrow> m = k + 1"
proof -
  assume "k < 63"
  moreover have "push_bit k (2 :: u64) = push_bit (k + 1) 1"
    by (metis add.commute mult.right_neutral power_one_right push_bit_eq_mult push_bit_of_1 push_bit_push_bit)
  ultimately show ?thesis
    using bit_push_1 [of "k + 1" m] by simp
qed

lemma code_bits: "bit (type_code t) m \<Longrightarrow> m < 2" "bit (len_code l) m \<Longrightarrow> m < 2"
proof -
  have small: "bit x m \<Longrightarrow> m < 2" if "x < 2 ^ 2" for x :: u64
    using that bit_small [of x 2] by blast
  show "bit (type_code t) m \<Longrightarrow> m < 2"
    by (rule small) (simp_all add: type_code_def split: gdb_breakpoint_type.splits)
  show "bit (len_code l) m \<Longrightarrow> m < 2"
    by (rule small) (simp_all add: len_code_def)
qed

text \<open>The bits that breakpoint number \<open>n\<close> sets in DR7.\<close>

definition dr7_bit :: "nat \<Rightarrow> breakpoint \<Rightarrow> nat \<Rightarrow> bool" where
  "dr7_bit n bp m \<longleftrightarrow> m = n * 2 + 1 \<or> (16 + n * 4 \<le> m \<and> bit (type_code (bp_type bp)) (m - (16 + n * 4))) \<or>
     (18 + n * 4 \<le> m \<and> bit (len_code (bp_len bp)) (m - (18 + n * 4)))"

lemma dr7_bit_upper: "dr7_bit n bp m \<Longrightarrow> m = 2 * n + 1 \<or> 16 + 4 * n \<le> m \<and> m < 20 + 4 * n"
  by (auto simp: dr7_bit_def dest: code_bits)

lemma hw_loop_regs:
  assumes "n + length bps \<le> 4" and "length regs = 8"
  shows "length (hw_loop n bps regs) = 8 \<and>
    (\<forall>i < 7. hw_loop n bps regs ! i = (if n \<le> i \<and> i < n + length bps then bp_addr (bps ! (i - n)) else regs ! i)) \<and>
    (\<forall>m < 64. bit (hw_loop n bps regs ! 7) m \<longleftrightarrow> bit (regs ! 7) m \<or> (\<exists>i < length bps. dr7_bit (n + i) (bps ! i) m))"
  using assms
proof (induction bps arbitrary: n regs)
  case (Cons bp bps)
  define dr7 where "dr7 = ((regs ! 7 OR push_bit (n * 2) 2) OR push_bit (16 + n * 4) (type_code (bp_type bp))) OR
      push_bit (18 + n * 4) (len_code (bp_len bp))"
  let ?r = "regs[n := bp_addr bp, 7 := dr7]"
  have step: "hw_loop n (bp # bps) regs = hw_loop (n + 1) bps ?r"
    using Cons.prems by (simp add: dr7_def Let_def)
  have "n + 1 + length bps \<le> 4" "length ?r = 8"
    using Cons.prems by auto
  note IH = Cons.IH [OF this]
  have bits: "bit dr7 m \<longleftrightarrow> bit (regs ! 7) m \<or> dr7_bit n bp m" if "m < 64" for m
    using that Cons.prems(1) bit_push_2 [of "n * 2" m]
    by (simp only: dr7_def dr7_bit_def bit_or_iff bit_push_bit_iff) auto
  have "hw_loop (n + 1) bps ?r ! i = (if n \<le> i \<and> i < n + length (bp # bps) then bp_addr ((bp # bps) ! (i - n)) else regs ! i)" if "i < 7" for i
  proof (cases "n < i")
    case True
    then obtain j where "i = Suc (n + j)" by (metis less_iff_Suc_add)
    then show ?thesis using IH that Cons.prems by simp
  next
    case False
    then show ?thesis using IH that Cons.prems by (cases "i = n") auto
  qed
  moreover have "bit (hw_loop (n + 1) bps ?r ! 7) m \<longleftrightarrow> bit (regs ! 7) m \<or> (\<exists>i < length (bp # bps). dr7_bit (n + i) ((bp # bps) ! i) m)" if "m < 64" for m
  proof -
    have "(\<exists>i < length (bp # bps). dr7_bit (n + i) ((bp # bps) ! i) m) \<longleftrightarrow>
        dr7_bit n bp m \<or> (\<exists>i < length bps. dr7_bit (n + 1 + i) (bps ! i) m)"
      by (auto simp: less_Suc_eq_0_disj)
    then show ?thesis
      using IH that Cons.prems(2) bits [OF that] by auto
  qed
  ultimately show ?case
    using IH unfolding step by blast
qed auto

section \<open>Properties\<close>

text \<open>
  C32.  Adding and removing breakpoints of every type keeps the lists well formed: no duplicates, at most four
  hardware breakpoints, a counter that matches, reference counts of 1.
\<close>

theorem breakpoint_ops_inv:
  assumes "bp_inv st"
  shows "bp_inv (snd (uhyve_gdb_add_breakpoint True type addr len st)) \<and>
    (\<forall>ok st'. uhyve_gdb_remove_breakpoint type addr len st = Some (ok, st') \<longrightarrow> bp_inv st') \<and>
    bp_inv (uhyve_gdb_enable_ss st) \<and> bp_inv (uhyve_gdb_disable_ss st)"
proof -
  have "bp_inv (st\<lparr>d_stepping := b\<rparr>)" for b
    using assms by (simp add: bp_inv_def)
  then show ?thesis
    using add_inv [OF assms] remove_inv [OF assms] by (auto simp: uhyve_gdb_enable_ss_def uhyve_gdb_disable_ss_def)
qed

definition no_breakpoints :: "gmem \<Rightarrow> debug_state" where
  "no_breakpoints mem = \<lparr>d_mem = mem, d_sw = [], d_hw = [], d_nr_hw = 0, d_stepping = False,
     d_kvm = \<lparr>dbg_control = 0, dbg_debugreg = replicate 8 0\<rparr>\<rparr>"

lemma no_breakpoints_inv: "bp_inv (no_breakpoints mem)"
  by (simp add: bp_inv_def no_breakpoints_def)

theorem breakpoint_ops_inv_witness:
  "bp_inv (snd (uhyve_gdb_add_breakpoint True GDB_BREAKPOINT_SW 0x1000 1 (no_breakpoints (\<lambda>_. 0x90))))"
  using breakpoint_ops_inv [OF no_breakpoints_inv] by blast

text \<open>
  C33.  Software breakpoints never damage the guest's program: after adding one, and after removing one whose
  address no other breakpoint has, the memory with the saved instructions put back is what it was.  In
  particular it is the guest's memory once no breakpoint is left.
\<close>

theorem breakpoints_keep_program:
  assumes "bp_inv st"
  shows "shadow (snd (uhyve_gdb_add_breakpoint True type addr len st)) = shadow st \<and>
    (distinct (map bp_addr (d_sw st)) \<longrightarrow>
      (\<forall>ok st'. uhyve_gdb_remove_breakpoint type addr len st = Some (ok, st') \<longrightarrow> shadow st' = shadow st)) \<and>
    (d_sw st = [] \<longrightarrow> shadow st = d_mem st)"
proof -
  have a: "shadow (snd (uhyve_gdb_add_breakpoint True type addr len st)) = shadow st"
  proof (cases "bp_list_find type addr len st")
    case None
    then show ?thesis
      by (cases "type = GDB_BREAKPOINT_SW") (simp_all add: add_new_sw add_new_hw shadow_def put_back_def [of "breakpoint.make _ _ _ _ _", unfolded breakpoint.make_def])
  next
    case (Some bp)
    then show ?thesis by (simp add: add_known)
  qed
  have r: "shadow st' = shadow st"
    if "distinct (map bp_addr (d_sw st))" "uhyve_gdb_remove_breakpoint type addr len st = Some (ok, st')" for ok st'
  proof (cases "bp_list_find type addr len st")
    case None
    then show ?thesis using that by (simp add: remove_unknown)
  next
    case (Some bp)
    show ?thesis
    proof (cases "type = GDB_BREAKPOINT_SW")
      case True
      then have f: "slist_find (d_sw st) (addr, len) = Some bp"
        using Some by (simp add: bp_list_find_def bp_list_def)
      then have "bp_addr bp = addr"
        by (auto simp: bp_key_def dest: slist_find_mem)
      then show ?thesis
        using that(2) True fold_saved_remove [OF that(1) f, of "d_mem st"] unfolding remove_known [OF assms Some]
        by (auto simp: shadow_def put_back_def [of bp] split: if_splits)
    next
      case False
      then show ?thesis
        using that by (auto simp: remove_known [OF assms Some] shadow_def)
    qed
  qed
  show ?thesis using a r by (auto simp: shadow_def)
qed

theorem breakpoints_keep_program_witness:
  "d_mem (snd (uhyve_gdb_add_breakpoint True GDB_BREAKPOINT_SW 0x1000 1 (no_breakpoints (\<lambda>_. 0x90)))) 0x1000 = int3 \<and>
   shadow (snd (uhyve_gdb_add_breakpoint True GDB_BREAKPOINT_SW 0x1000 1 (no_breakpoints (\<lambda>_. 0x90)))) 0x1000 = 0x90"
proof -
  have "bp_list_find GDB_BREAKPOINT_SW 0x1000 1 (no_breakpoints (\<lambda>_. 0x90)) = None"
    by (simp add: bp_list_find_def bp_list_def slist_find_def no_breakpoints_def)
  then have "d_mem (snd (uhyve_gdb_add_breakpoint True GDB_BREAKPOINT_SW 0x1000 1 (no_breakpoints (\<lambda>_. 0x90)))) 0x1000 = int3"
    by (simp add: add_new_sw)
  moreover have "shadow (no_breakpoints (\<lambda>_. 0x90)) 0x1000 = 0x90"
    by (simp add: shadow_def no_breakpoints_def)
  ultimately show ?thesis
    using breakpoints_keep_program [OF no_breakpoints_inv] by metis
qed

text \<open>
  With up to four hardware breakpoints, debug register \<open>i\<close> holds the address of breakpoint \<open>i\<close>, and in DR7 its
  global enable bit is set, its condition and length fields are the codes of its type and length,
  and the enable bits of the unused registers are clear.
\<close>

theorem debug_registers:
  assumes "length (d_hw st) \<le> 4" and "d_hw st \<noteq> []"
  defines "regs \<equiv> dbg_debugreg (d_kvm (uhyve_gdb_update_guest_debug st))"
  shows "(\<forall>i < length (d_hw st). regs ! i = bp_addr (d_hw st ! i) \<and> bit (regs ! 7) (2 * i + 1) \<and>
      take_bit 2 (drop_bit (16 + 4 * i) (regs ! 7)) = type_code (bp_type (d_hw st ! i)) \<and>
      take_bit 2 (drop_bit (18 + 4 * i) (regs ! 7)) = len_code (bp_len (d_hw st ! i))) \<and>
    (\<forall>i. length (d_hw st) \<le> i \<and> i < 4 \<longrightarrow> \<not> bit (regs ! 7) (2 * i) \<and> \<not> bit (regs ! 7) (2 * i + 1))"
proof -
  let ?hw = "d_hw st" and ?r0 = "(replicate 8 0)[7 := dr7_init]"
  have regs: "regs = hw_loop 0 ?hw ?r0"
    using assms(2) by (simp add: regs_def uhyve_gdb_update_guest_debug_def Let_def)
  have H: "(\<forall>i < 7. regs ! i = (if 0 \<le> i \<and> i < 0 + length ?hw then bp_addr (?hw ! (i - 0)) else ?r0 ! i))"
    "(\<forall>m < 64. bit (regs ! 7) m \<longleftrightarrow> bit (?r0 ! 7) m \<or> (\<exists>i < length ?hw. dr7_bit (0 + i) (?hw ! i) m))"
    using hw_loop_regs [of 0 ?hw ?r0] assms(1) unfolding regs by auto
  have init: "bit dr7_init m \<longleftrightarrow> m = 9 \<or> m = 10" for m
  proof -
    have "bit (push_bit 9 (1 :: u64)) m = (m = 9)" "bit (push_bit 10 (1 :: u64)) m = (m = 10)"
      by (rule bit_push_1, simp)+
    then show ?thesis
      by (simp only: dr7_init_def bit_or_iff)
  qed
  have b: "bit (regs ! 7) m \<longleftrightarrow> m = 9 \<or> m = 10 \<or> (\<exists>i < length ?hw. dr7_bit i (?hw ! i) m)" if "m < 64" for m
    using H(2) that init by simp
  have own: "bit (regs ! 7) m \<longleftrightarrow> dr7_bit i (?hw ! i) m" if "i < length ?hw" "16 + 4 * i \<le> m" "m < 20 + 4 * i" for i m
  proof -
    have "dr7_bit j (?hw ! j) m \<Longrightarrow> j < length ?hw \<Longrightarrow> j = i" for j
      using dr7_bit_upper [of j "?hw ! j" m] that assms(1) by auto
    then show ?thesis
      using b [of m] that assms(1) by auto
  qed
  have "take_bit 2 (drop_bit (16 + 4 * i) (regs ! 7)) = type_code (bp_type (?hw ! i))" if "i < length ?hw" for i
  proof (rule bit_eqI)
    fix m assume "possible_bit TYPE(u64) m"
    have "m < 2 \<Longrightarrow> dr7_bit i (?hw ! i) (16 + 4 * i + m) \<longleftrightarrow> bit (type_code (bp_type (?hw ! i))) m"
      using that assms(1) by (auto simp: dr7_bit_def mult.commute)
    then show "bit (take_bit 2 (drop_bit (16 + 4 * i) (regs ! 7))) m = bit (type_code (bp_type (?hw ! i))) m"
      using own [OF that, of "16 + 4 * i + m"] code_bits(1) [of "bp_type (?hw ! i)" m] by (auto simp: bit_take_bit_iff bit_drop_bit_eq)
  qed
  moreover have "take_bit 2 (drop_bit (18 + 4 * i) (regs ! 7)) = len_code (bp_len (?hw ! i))" if "i < length ?hw" for i
  proof (rule bit_eqI)
    fix m assume "possible_bit TYPE(u64) m"
    have "m < 2 \<Longrightarrow> dr7_bit i (?hw ! i) (18 + 4 * i + m) \<longleftrightarrow> bit (len_code (bp_len (?hw ! i))) m"
      using that assms(1) code_bits(1) [of "bp_type (?hw ! i)" "2 + m"] by (auto simp: dr7_bit_def mult.commute)
    then show "bit (take_bit 2 (drop_bit (18 + 4 * i) (regs ! 7))) m = bit (len_code (bp_len (?hw ! i))) m"
      using own [OF that, of "18 + 4 * i + m"] code_bits(2) [of "bp_len (?hw ! i)" m] by (auto simp: bit_take_bit_iff bit_drop_bit_eq)
  qed
  moreover have "regs ! i = bp_addr (?hw ! i) \<and> bit (regs ! 7) (2 * i + 1)" if "i < length ?hw" for i
    using H(1) b [of "2 * i + 1"] that assms(1) by (auto simp: dr7_bit_def)
  moreover have "\<not> bit (regs ! 7) (2 * i) \<and> \<not> bit (regs ! 7) (2 * i + 1)" if "length ?hw \<le> i" "i < 4" for i
  proof -
    have "\<not> dr7_bit j (?hw ! j) m" if "j < length ?hw" "m = 2 * i \<or> m = 2 * i + 1" for j m
      using dr7_bit_upper [of j "?hw ! j" m] that \<open>length ?hw \<le> i\<close> \<open>i < 4\<close> by auto
    moreover have "2 * i \<noteq> 9" "2 * i \<noteq> 10" "2 * i + 1 \<noteq> 9" "2 * i + 1 \<noteq> 10"
      using that by presburger+
    ultimately show ?thesis
      using b [of "2 * i"] b [of "2 * i + 1"] that by auto
  qed
  ultimately show ?thesis by blast
qed

theorem debug_registers_witness:
  "dbg_debugreg (d_kvm (snd (uhyve_gdb_add_breakpoint True GDB_WATCHPOINT_WRITE 0x1000 4 (no_breakpoints (\<lambda>_. 0))))) ! 0 = 0x1000"
proof -
  let ?bp = "\<lparr>bp_type = GDB_WATCHPOINT_WRITE, bp_addr = 0x1000, bp_len = 4, bp_refcount = 1, bp_saved_insn = 0\<rparr>"
  let ?st = "(no_breakpoints (\<lambda>_. 0))\<lparr>d_nr_hw := 1, d_hw := [?bp]\<rparr>"
  have "snd (uhyve_gdb_add_breakpoint True GDB_WATCHPOINT_WRITE 0x1000 4 (no_breakpoints (\<lambda>_. 0))) = uhyve_gdb_update_guest_debug ?st"
    by (subst add_new_hw) (simp_all add: bp_list_find_def bp_list_def slist_find_def no_breakpoints_def MAX_HW_BREAKPOINTS_def)
  then show ?thesis
    using debug_registers [of ?st] by simp
qed

text \<open>
  A watchpoint at the address and length of a hardware breakpoint is reported as set, but nothing is set: the
  search in the hardware list does not compare the types.
\<close>

theorem watchpoint_not_set:
  assumes "bp_list_find GDB_BREAKPOINT_HW addr len st = Some bp"
  shows "uhyve_gdb_add_breakpoint True GDB_WATCHPOINT_WRITE addr len st = (True, st)"
  using assms by (intro add_known) (simp add: bp_list_find_def bp_list_def)

theorem watchpoint_not_set_witness:
  "uhyve_gdb_add_breakpoint True GDB_WATCHPOINT_WRITE 0x1000 1
     (snd (uhyve_gdb_add_breakpoint True GDB_BREAKPOINT_HW 0x1000 1 (no_breakpoints (\<lambda>_. 0)))) =
   (True, snd (uhyve_gdb_add_breakpoint True GDB_BREAKPOINT_HW 0x1000 1 (no_breakpoints (\<lambda>_. 0))))"
proof -
  have "bp_list_find GDB_BREAKPOINT_HW 0x1000 1 (snd (uhyve_gdb_add_breakpoint True GDB_BREAKPOINT_HW 0x1000 1 (no_breakpoints (\<lambda>_. 0)))) =
      Some \<lparr>bp_type = GDB_BREAKPOINT_HW, bp_addr = 0x1000, bp_len = 1, bp_refcount = 1, bp_saved_insn = 0\<rparr>"
    by (subst add_new_hw)
       (simp_all add: bp_list_find_def bp_list_def slist_find_def no_breakpoints_def MAX_HW_BREAKPOINTS_def bp_key_def)
  then show ?thesis by (rule watchpoint_not_set)
qed

end
