(* ===== verification/Gdb_Stub.thy ===== *)
theory Gdb_Stub
  imports C_Text Gdb_Breakpoints Cpu_X86
begin

text \<open>
  The debugger stub proper (\<open>src/uhyve-gdb.c\<close>, x86-64): the register block exchanged with GDB
  (\<open>uhyve_gdb_read_registers\<close>, \<open>uhyve_gdb_write_registers\<close>), the parsing of the command packets and the command
  loop \<open>gdb_handle_exception\<close>.  The static array \<open>registers\<close> is a memory of its own; the translation that KVM does
  for \<open>KVM_TRANSLATE\<close> is the parameter \<open>translate\<close>.
\<close>

unbundle bit_operations_syntax

section \<open>Registers\<close>

text \<open>The offsets of \<open>struct uhyve_gdb_regs\<close>, whose size is 248.\<close>

definition GREGS_SIZE :: nat where "GREGS_SIZE = 248"

definition sel32 :: "kvm_segment \<Rightarrow> u32" where "sel32 seg = ucast (seg_selector seg)"

definition uhyve_gdb_read_registers :: "vcpu \<Rightarrow> gmem \<Rightarrow> nat \<Rightarrow> (gmem \<times> nat) option" where
  "uhyve_gdb_read_registers v registers len =
    (if len < GREGS_SIZE then None
     else let k = v_regs v; s = v_sregs v;
              g = registers;
              g = store64 g 0 (r_rax k); g = store64 g 8 (r_rbx k); g = store64 g 16 (r_rcx k); g = store64 g 24 (r_rdx k);
              g = store64 g 32 (r_rsi k); g = store64 g 40 (r_rdi k); g = store64 g 48 (r_rbp k); g = store64 g 56 (r_rsp k);
              g = store64 g 64 (r_r8 k); g = store64 g 72 (r_r9 k); g = store64 g 80 (r_r10 k); g = store64 g 88 (r_r11 k);
              g = store64 g 128 (r_rip k); g = store32 g 136 (ucast (r_rflags k));
              g = store32 g 140 (sel32 (sr_cs s)); g = store32 g 144 (sel32 (sr_ss s)); g = store32 g 148 (sel32 (sr_ds s));
              g = store32 g 152 (sel32 (sr_es s)); g = store32 g 156 (sel32 (sr_fs s)); g = store32 g 160 (sel32 (sr_gs s))
          in Some (g, GREGS_SIZE))"

definition set_selector :: "u32 \<Rightarrow> kvm_segment \<Rightarrow> kvm_segment" where
  "set_selector sel seg = seg\<lparr>seg_selector := ucast sel\<rparr>"

definition uhyve_gdb_write_registers :: "vcpu \<Rightarrow> gmem \<Rightarrow> nat \<Rightarrow> vcpu option" where
  "uhyve_gdb_write_registers v registers len =
    (if len < GREGS_SIZE then None
     else let k = v_regs v; s = v_sregs v; g = registers;
              k = k\<lparr>r_rax := load64 g 0, r_rbx := load64 g 8, r_rcx := load64 g 16, r_rdx := load64 g 24,
                    r_rsi := load64 g 32, r_rdi := load64 g 40, r_rbp := load64 g 48, r_rsp := load64 g 56,
                    r_r8 := load64 g 64, r_r9 := load64 g 72, r_r10 := load64 g 80, r_r11 := load64 g 88,
                    r_rip := load64 g 128, r_rflags := ucast (load32 g 136)\<rparr>;
              s = s\<lparr>sr_cs := set_selector (load32 g 140) (sr_cs s), sr_ss := set_selector (load32 g 144) (sr_ss s),
                    sr_ds := set_selector (load32 g 148) (sr_ds s), sr_es := set_selector (load32 g 152) (sr_es s),
                    sr_fs := set_selector (load32 g 156) (sr_fs s), sr_gs := set_selector (load32 g 160) (sr_gs s)\<rparr>
          in Some (v\<lparr>v_regs := k, v_sregs := s\<rparr>))"

section \<open>Parsing\<close>

text \<open>\<open>"m%lx,%zx"\<close>, \<open>"M%lx,%zx:%s"\<close> and \<open>"%x,%lx,%zx"\<close> behind the command character.\<close>

definition scan_addr_len :: "bytes \<Rightarrow> (u64 \<times> u64 \<times> bytes) option" where
  "scan_addr_len s =
    Option.bind (scan_hex s) (\<lambda>(addr, s). Option.bind (scan_char 0x2c s) (\<lambda>s.
      Option.bind (scan_hex s) (\<lambda>(len, s). Some (addr, len, s))))"

definition scan_addr_len_data :: "bytes \<Rightarrow> (u64 \<times> u64 \<times> bytes) option" where
  "scan_addr_len_data s =
    Option.bind (scan_addr_len s) (\<lambda>(addr, len, s). Option.bind (scan_char 0x3a s) (\<lambda>s.
      Option.bind (scan_str s) (\<lambda>d. Some (addr, len, d))))"

definition scan_type_addr_len :: "bytes \<Rightarrow> (u64 \<times> u64 \<times> u64) option" where
  "scan_type_addr_len s =
    Option.bind (scan_hex s) (\<lambda>(t, s). Option.bind (scan_char 0x2c s) (\<lambda>s.
      Option.bind (scan_addr_len s) (\<lambda>(addr, len, _). Some (t, addr, len))))"

text \<open>The enumeration value of a breakpoint type; \<open>None\<close> violates \<open>assert(type < GDB_BREAKPOINT_MAX)\<close>.\<close>

definition bp_type_of :: "u32 \<Rightarrow> gdb_breakpoint_type option" where
  "bp_type_of t = (if t = 0 then Some GDB_BREAKPOINT_SW else if t = 1 then Some GDB_BREAKPOINT_HW
     else if t = 2 then Some GDB_WATCHPOINT_WRITE else if t = 3 then Some GDB_WATCHPOINT_READ
     else if t = 4 then Some GDB_WATCHPOINT_ACCESS else None)"

section \<open>Commands\<close>

record stub =
  s_gdb :: gdb
  s_dbg :: debug_state
  s_vcpu :: vcpu
  s_registers :: gmem
  s_thread_counter :: u64

datatype cmd_result = Resume stub | NextCmd stub | StubBlock stub | StubAbort

text \<open>Go on in state \<open>st\<close> after a packet was sent.\<close>

definition after_send :: "(stub \<Rightarrow> cmd_result) \<Rightarrow> stub \<Rightarrow> send_result \<Rightarrow> cmd_result" where
  "after_send k st r = (case r of Sent g \<Rightarrow> k (st\<lparr>s_gdb := g\<rparr>) | SendFail g \<Rightarrow> k (st\<lparr>s_gdb := g\<rparr>)
     | SendBlock g \<Rightarrow> StubBlock (st\<lparr>s_gdb := g\<rparr>) | SendAbort \<Rightarrow> StubAbort)"

definition reply_error :: "stub \<Rightarrow> cmd_result" where
  "reply_error st = after_send NextCmd st (send_error_msg (s_gdb st))"
definition reply_ok :: "stub \<Rightarrow> cmd_result" where
  "reply_ok st = after_send NextCmd st (send_okay_msg (s_gdb st))"
definition reply_unsupported :: "stub \<Rightarrow> cmd_result" where
  "reply_unsupported st = after_send NextCmd st (send_not_supported_msg (s_gdb st))"

definition cmd_step :: "stub \<Rightarrow> bytes \<Rightarrow> cmd_result" where
  "cmd_step st args = (if scan_hex args \<noteq> None then reply_unsupported st
     else Resume (st\<lparr>s_dbg := uhyve_gdb_enable_ss (s_dbg st)\<rparr>))"

definition cmd_continue :: "stub \<Rightarrow> bytes \<Rightarrow> cmd_result" where
  "cmd_continue st args = (if scan_hex args \<noteq> None then reply_unsupported st
     else Resume (st\<lparr>s_dbg := uhyve_gdb_disable_ss (s_dbg st)\<rparr>))"

text \<open>\<open>uhyve_gdb_guest_virt_to_phys\<close> always returns 0, so the error branches behind it are dead.\<close>

definition cmd_read_mem :: "(u64 \<Rightarrow> u64) \<Rightarrow> stub \<Rightarrow> bytes \<Rightarrow> cmd_result" where
  "cmd_read_mem translate st args =
    (case scan_addr_len args of None \<Rightarrow> reply_error st
     | Some (addr, len, _) \<Rightarrow>
         after_send NextCmd st (send_packet (s_gdb st) (mem2hex (load_bytes (d_mem (s_dbg st)) (translate addr) (unat len)))))"

definition cmd_write_mem :: "(u64 \<Rightarrow> u64) \<Rightarrow> stub \<Rightarrow> bytes \<Rightarrow> cmd_result" where
  "cmd_write_mem translate st args =
    (case scan_addr_len_data args of None \<Rightarrow> reply_error st
     | Some (addr, len, obuf) \<Rightarrow>
         (case hex2mem obuf (unat len) of None \<Rightarrow> StubAbort
          | Some bs \<Rightarrow> reply_ok (st\<lparr>s_dbg := (s_dbg st)\<lparr>d_mem := store_bytes (d_mem (s_dbg st)) (translate addr) bs\<rparr>\<rparr>)))"

definition cmd_read_regs :: "stub \<Rightarrow> cmd_result" where
  "cmd_read_regs st =
    (case uhyve_gdb_read_registers (s_vcpu st) (s_registers st) BUFMAX of None \<Rightarrow> reply_error st
     | Some (regs, len) \<Rightarrow>
         after_send NextCmd (st\<lparr>s_registers := regs\<rparr>) (send_packet (s_gdb st) (mem2hex (load_bytes regs 0 len))))"

definition cmd_write_regs :: "stub \<Rightarrow> bytes \<Rightarrow> cmd_result" where
  "cmd_write_regs st args =
    (case uhyve_gdb_read_registers (s_vcpu st) (s_registers st) BUFMAX of None \<Rightarrow> reply_error st
     | Some (regs, len) \<Rightarrow>
         (case hex2mem args len of None \<Rightarrow> StubAbort
          | Some bs \<Rightarrow>
              let regs = store_bytes regs 0 bs; st = st\<lparr>s_registers := regs\<rparr>
              in (case uhyve_gdb_write_registers (s_vcpu st) regs len of None \<Rightarrow> reply_error st
                  | Some v \<Rightarrow> reply_ok (st\<lparr>s_vcpu := v\<rparr>))))"

definition cmd_breakpoint :: "(u64 \<Rightarrow> u64) \<Rightarrow> bool \<Rightarrow> stub \<Rightarrow> bytes \<Rightarrow> cmd_result" where
  "cmd_breakpoint translate inserting st args =
    (case scan_type_addr_len args of None \<Rightarrow> reply_error st
     | Some (t, addr, len) \<Rightarrow>
         (case bp_type_of (ucast t) of None \<Rightarrow> StubAbort
          | Some type \<Rightarrow>
              (case (if inserting then Some (uhyve_gdb_add_breakpoint True type (translate addr) len (s_dbg st))
                     else uhyve_gdb_remove_breakpoint type (translate addr) len (s_dbg st)) of
                 None \<Rightarrow> StubAbort
               | Some (ok, dbg) \<Rightarrow> (if ok then reply_ok else reply_error) (st\<lparr>s_dbg := dbg\<rparr>))))"

definition cmd_query :: "u32 \<Rightarrow> stub \<Rightarrow> bytes \<Rightarrow> cmd_result" where
  "cmd_query ncores st packet =
    (let (thread_counter, r) = gdb_handle_query ncores (s_thread_counter st) (s_gdb st) packet
     in after_send NextCmd (st\<lparr>s_thread_counter := thread_counter\<rparr>) r)"

text \<open>The \<open>switch (command)\<close>; an empty packet has the command 0.\<close>

definition gdb_command :: "(u64 \<Rightarrow> u64) \<Rightarrow> u32 \<Rightarrow> nat \<Rightarrow> stub \<Rightarrow> bytes \<Rightarrow> cmd_result" where
  "gdb_command translate ncores sigval st packet =
    (let command = (case packet of [] \<Rightarrow> 0 | c # _ \<Rightarrow> c); args = tl packet
     in if command = 0x73 then cmd_step st args
        else if command = 0x63 then cmd_continue st args
        else if command = 0x6d then cmd_read_mem translate st args
        else if command = 0x4d then cmd_write_mem translate st args
        else if command = 0x67 then cmd_read_regs st
        else if command = 0x47 then cmd_write_regs st args
        else if command = 0x3f then after_send NextCmd st (send_response (s_gdb st) 0x53 sigval True)
        else if command = 0x5a then cmd_breakpoint translate True st args
        else if command = 0x7a then cmd_breakpoint translate False st args
        else if command = 0x6b then reply_ok st
        else if command = 0x71 then cmd_query ncores st packet
        else if command = 0x44 then after_send Resume st (send_okay_msg (s_gdb st))
        else reply_unsupported st)"

section \<open>The command loop\<close>

definition stub_input :: "stub \<Rightarrow> nat" where "stub_input st = length (g_in (s_gdb st))"

lemma after_send_in:
  "after_send NextCmd st (send_packet (s_gdb st) p) = NextCmd st' \<Longrightarrow> stub_input st' \<le> stub_input st"
  by (auto simp: after_send_def stub_input_def split: send_result.splits intro: send_packet_in)

lemma after_send_in': "g = s_gdb st \<Longrightarrow> after_send NextCmd st (send_packet g p) = NextCmd st' \<Longrightarrow> stub_input st' \<le> stub_input st"
  using after_send_in by blast

lemma reply_in:
  "reply_error st = NextCmd st' \<Longrightarrow> stub_input st' \<le> stub_input st"
  "reply_ok st = NextCmd st' \<Longrightarrow> stub_input st' \<le> stub_input st"
  "reply_unsupported st = NextCmd st' \<Longrightarrow> stub_input st' \<le> stub_input st"
  by (simp_all add: reply_error_def reply_ok_def reply_unsupported_def send_error_msg_def send_okay_msg_def
      send_not_supported_msg_def after_send_in)

lemma stub_input_upd [simp]: "stub_input (st\<lparr>s_dbg := d\<rparr>) = stub_input st" "stub_input (st\<lparr>s_vcpu := v\<rparr>) = stub_input st"
  "stub_input (st\<lparr>s_registers := r\<rparr>) = stub_input st" "stub_input (st\<lparr>s_thread_counter := t\<rparr>) = stub_input st"
  by (simp_all add: stub_input_def)

lemma cmd_query_in: "cmd_query ncores st p = NextCmd st' \<Longrightarrow> stub_input st' \<le> stub_input st"
proof -
  assume a: "cmd_query ncores st p = NextCmd st'"
  obtain t r where q: "gdb_handle_query ncores (s_thread_counter st) (s_gdb st) p = (t, r)" by fastforce
  then have "(\<exists>obuf. r = send_packet (s_gdb st) obuf) \<or> r = Sent (s_gdb st)"
    by (auto simp: gdb_handle_query_def Let_def send_not_supported_msg_def split: if_splits)
  then show ?thesis
    using a q after_send_in' [of "s_gdb st" "st\<lparr>s_thread_counter := t\<rparr>"]
    by (auto simp: cmd_query_def after_send_def [of _ _ "Sent _"] stub_input_def)
qed

lemma cmd_mem_in:
  "cmd_read_mem tr st args = NextCmd st' \<Longrightarrow> stub_input st' \<le> stub_input st"
  "cmd_write_mem tr st args = NextCmd st' \<Longrightarrow> stub_input st' \<le> stub_input st"
  by (auto simp: cmd_read_mem_def cmd_write_mem_def split: option.splits prod.splits dest: reply_in after_send_in)

lemma cmd_regs_in:
  "cmd_read_regs st = NextCmd st' \<Longrightarrow> stub_input st' \<le> stub_input st"
  "cmd_write_regs st args = NextCmd st' \<Longrightarrow> stub_input st' \<le> stub_input st"
  by (auto simp: cmd_read_regs_def cmd_write_regs_def Let_def split: option.splits prod.splits
      dest!: reply_in after_send_in' [rotated])

lemma cmd_breakpoint_in: "cmd_breakpoint tr ins st args = NextCmd st' \<Longrightarrow> stub_input st' \<le> stub_input st"
  by (auto simp: cmd_breakpoint_def split: option.splits prod.splits if_splits dest!: reply_in)

lemma cmd_run_in:
  "cmd_step st args = NextCmd st' \<Longrightarrow> stub_input st' \<le> stub_input st"
  "cmd_continue st args = NextCmd st' \<Longrightarrow> stub_input st' \<le> stub_input st"
  by (auto simp: cmd_step_def cmd_continue_def split: if_splits dest: reply_in)

lemma gdb_command_in:
  "gdb_command tr ncores sigval st p = NextCmd st' \<Longrightarrow> stub_input st' \<le> stub_input st"
proof -
  have "after_send NextCmd st (send_response (s_gdb st) c sigval True) = NextCmd st' \<Longrightarrow> stub_input st' \<le> stub_input st" for c
    by (simp add: send_response_def Let_def after_send_in)
  moreover have "after_send Resume st r \<noteq> NextCmd st'" for r
    by (simp add: after_send_def split: send_result.splits)
  moreover assume "gdb_command tr ncores sigval st p = NextCmd st'"
  ultimately show ?thesis
    by (auto simp: gdb_command_def Let_def split: if_splits
        dest: reply_in cmd_query_in cmd_mem_in cmd_regs_in cmd_breakpoint_in cmd_run_in)
qed

text \<open>
  The \<open>for (;;)\<close> of \<open>gdb_handle_exception\<close>.  \<open>StubAbort\<close> covers \<open>errx\<close> when the connection is lost.
\<close>

function gdb_loop :: "(u64 \<Rightarrow> u64) \<Rightarrow> u32 \<Rightarrow> nat \<Rightarrow> stub \<Rightarrow> cmd_result" where
  "gdb_loop translate ncores sigval st =
    (case recv_packet (s_gdb st) of
       NoPacket g \<Rightarrow> StubAbort
     | RecvBlock g \<Rightarrow> StubBlock (st\<lparr>s_gdb := g\<rparr>)
     | Aborted \<Rightarrow> StubAbort
     | Packet packet g \<Rightarrow>
         (case gdb_command translate ncores sigval (st\<lparr>s_gdb := g\<rparr>) packet of
            NextCmd st' \<Rightarrow> gdb_loop translate ncores sigval st'
          | res \<Rightarrow> res))"
  by pat_completeness auto
termination
proof (relation "measure (\<lambda>(_, _, _, st). stub_input st)", goal_cases)
  case (2 translate ncores sigval st packet g st')
  then have "stub_input st' \<le> length (g_in g)" and "length (g_in g) < stub_input st"
    by (auto dest: gdb_command_in recv_packet_in simp: stub_input_def)
  then show ?case by simp
qed simp

declare gdb_loop.simps [simp del]

definition gdb_handle_exception :: "(u64 \<Rightarrow> u64) \<Rightarrow> u32 \<Rightarrow> nat \<Rightarrow> stub \<Rightarrow> cmd_result" where
  "gdb_handle_exception translate ncores sigval st =
    after_send (gdb_loop translate ncores sigval) st (send_response (s_gdb st) 0x53 sigval True)"

definition uhyve_gdb_handle_term :: "stub \<Rightarrow> cmd_result" where
  "uhyve_gdb_handle_term st = after_send Resume st (send_response (s_gdb st) 0x57 0 True)"

section \<open>Lemmas\<close>

lemma mem2hex_plain: "list_all is_hex (mem2hex bs)"
proof -
  have "k < 16 \<Longrightarrow> is_hex (hexchars ! k)" for k
    by (simp add: is_hex_def hex_hexchars)
  then show ?thesis
    by (induction bs) (simp_all add: mem2hex_def hex_digits_def nibbles)
qed

lemma not_hex_comma: "\<not> is_hex 0x2c" "\<not> is_hex 0x3a"
  by (simp_all add: is_hex_def hex_def)

lemma scan_addr_len_str:
  assumes "rest = [] \<or> \<not> is_hex (hd rest) \<and> hd rest \<noteq> 0x78 \<and> hd rest \<noteq> 0x58" and "n < 2 ^ 64"
  shows "scan_addr_len (hex_str (unat addr) @ [0x2c] @ hex_str n @ rest) = Some (addr, word_of_nat n, rest)"
  using assms unat_less_exp [of addr]
  by (simp add: scan_addr_len_def scan_hex_str not_hex_comma scan_char_def)

section \<open>Properties\<close>

text \<open>
  The register block that \<open>uhyve_gdb_read_registers\<close> fills from a CPU, written to any CPU by
  \<open>uhyve_gdb_write_registers\<close>, transfers the general registers up to r11, the instruction pointer, the
  low half of the flags and the segment selectors; r12 to r15 keep the values of the target.
\<close>

theorem gdb_registers_roundtrip:
  assumes "uhyve_gdb_read_registers v regs BUFMAX = Some (g, len)"
  shows "uhyve_gdb_write_registers w g len = Some (w\<lparr>
    v_regs := (v_regs v)\<lparr>r_r12 := r_r12 (v_regs w), r_r13 := r_r13 (v_regs w), r_r14 := r_r14 (v_regs w),
        r_r15 := r_r15 (v_regs w), r_rflags := take_bit 32 (r_rflags (v_regs v))\<rparr>,
    v_sregs := (v_sregs w)\<lparr>sr_cs := (sr_cs (v_sregs w))\<lparr>seg_selector := seg_selector (sr_cs (v_sregs v))\<rparr>,
        sr_ss := (sr_ss (v_sregs w))\<lparr>seg_selector := seg_selector (sr_ss (v_sregs v))\<rparr>,
        sr_ds := (sr_ds (v_sregs w))\<lparr>seg_selector := seg_selector (sr_ds (v_sregs v))\<rparr>,
        sr_es := (sr_es (v_sregs w))\<lparr>seg_selector := seg_selector (sr_es (v_sregs v))\<rparr>,
        sr_fs := (sr_fs (v_sregs w))\<lparr>seg_selector := seg_selector (sr_fs (v_sregs v))\<rparr>,
        sr_gs := (sr_gs (v_sregs w))\<lparr>seg_selector := seg_selector (sr_gs (v_sregs v))\<rparr>\<rparr>\<rparr>)"
proof -
  have f: "ucast (ucast x :: u32) = take_bit 32 x" for x :: u64
    by (rule bit_eqI) (auto simp: bit_simps)
  have "ucast (ucast x :: u32) = x" for x :: u16
    by (rule bit_eqI) (auto simp: bit_simps)
  then have s: "set_selector (sel32 a) b = b\<lparr>seg_selector := seg_selector a\<rparr>" for a b
    by (simp add: set_selector_def sel32_def)
  obtain kr where kr: "v_regs v = kr" by simp
  show ?thesis
    using assms unfolding uhyve_gdb_read_registers_def uhyve_gdb_write_registers_def kr
    by (cases kr) (auto simp: Let_def BUFMAX_def GREGS_SIZE_def s f
        load64_store64_other load64_store32_other load32_store64_other load32_store32_other disj_num)
qed

theorem gdb_registers_roundtrip_witness:
  "\<exists>g. uhyve_gdb_read_registers (zero_vcpu\<lparr>v_regs := zero_regs\<lparr>r_rax := 7, r_r12 := 9\<rparr>\<rparr>) (\<lambda>_. 0) BUFMAX = Some (g, 248) \<and>
     (\<exists>w. uhyve_gdb_write_registers zero_vcpu g 248 = Some w \<and> r_rax (v_regs w) = 7 \<and> r_r12 (v_regs w) = 0)"
proof -
  obtain g where g: "uhyve_gdb_read_registers (zero_vcpu\<lparr>v_regs := zero_regs\<lparr>r_rax := 7, r_r12 := 9\<rparr>\<rparr>) (\<lambda>_. 0) BUFMAX = Some (g, 248)"
    by (simp add: uhyve_gdb_read_registers_def Let_def BUFMAX_def GREGS_SIZE_def)
  then show ?thesis
    using gdb_registers_roundtrip [OF g, of zero_vcpu] by (simp add: zero_vcpu_def zero_regs_def)
qed

text \<open>
  What GDB is told of r12 to r15 does not depend on the CPU: the bytes are those that the last packet left in
  the register buffer.
\<close>

theorem gdb_r12_r15_not_read:
  assumes "uhyve_gdb_read_registers v regs BUFMAX = Some (g, len)" and "96 \<le> unat a" and "unat a < 128"
  shows "g a = regs a"
  using assms
  by (auto simp: uhyve_gdb_read_registers_def Let_def BUFMAX_def GREGS_SIZE_def store64_outside store32_outside in_run_nat)

theorem gdb_r12_r15_not_read_witness:
  "\<exists>g. uhyve_gdb_read_registers (zero_vcpu\<lparr>v_regs := zero_regs\<lparr>r_r12 := 0x1234\<rparr>\<rparr>) (\<lambda>_. 0) BUFMAX = Some (g, 248) \<and> g 96 = 0"
proof -
  obtain g where g: "uhyve_gdb_read_registers (zero_vcpu\<lparr>v_regs := zero_regs\<lparr>r_r12 := 0x1234\<rparr>\<rparr>) (\<lambda>_. 0) BUFMAX = Some (g, 248)"
    by (simp add: uhyve_gdb_read_registers_def Let_def BUFMAX_def GREGS_SIZE_def)
  then show ?thesis
    using gdb_r12_r15_not_read [OF g, of 96] by simp
qed


definition zero_stub :: stub where
  "zero_stub = \<lparr>s_gdb = fresh_gdb [], s_dbg = no_breakpoints (\<lambda>_. 0), s_vcpu = zero_vcpu, s_registers = (\<lambda>_. 0), s_thread_counter = 0\<rparr>"


end
