(* ===== verification/Gdb_Init.thy ===== *)
theory Gdb_Init
  imports Gdb_Stub
begin

text \<open>
  The start of the debugger stub, \<open>wait_for_connect\<close>, \<open>gdb_stub_start\<close> and \<open>uhyve_gdb_init\<close> of \<open>src/uhyve-gdb.c\<close>.
\<close>

text \<open>What the operating system answers: the results of the calls, -1 for an error, and whether the protocol \<open>tcp\<close> is known.\<close>

record gdb_host =
  gh_mprotect :: int
  gh_socket :: int
  gh_reuseaddr :: int
  gh_bind :: int
  gh_listen :: int
  gh_accept :: int
  gh_getproto :: bool
  gh_nodelay :: int

definition GDB_SIGNAL_FIRST :: nat where "GDB_SIGNAL_FIRST = 0"

text \<open>The connected socket and the descriptors that are open then; \<open>None\<close>: \<open>err\<close> ends the program.\<close>

definition wait_for_connect :: "gdb_host \<Rightarrow> (int \<times> int list) option" where
  "wait_for_connect gh =
    (let listen_socket_fd = gh_socket gh
     in if listen_socket_fd = -1 then None
        else if gh_reuseaddr gh = -1 then None
        else if gh_bind gh = -1 then None
        else if gh_listen gh = -1 then None
        else let socket_fd = gh_accept gh
             in if socket_fd = -1 then None
                else let fds = remove1 listen_socket_fd [listen_socket_fd, socket_fd]
                     in if \<not> gh_getproto gh then None
                        else if gh_nodelay gh = -1 then None
                        else Some (socket_fd, fds))"

text \<open>
  \<open>st\<close> is the state of the stub on the new connection.  The handler for the end of the process, \<open>uhyve_gdb_handle_term\<close>, is registered
  before the debugger connects.
\<close>

definition gdb_stub_start :: "gdb_host \<Rightarrow> (u64 \<Rightarrow> u64) \<Rightarrow> u32 \<Rightarrow> stub \<Rightarrow> (int \<times> int list \<times> cmd_result) option" where
  "gdb_stub_start gh translate ncores st =
     map_option (\<lambda>(fd, fds). (fd, fds, gdb_handle_exception translate ncores GDB_SIGNAL_FIRST st)) (wait_for_connect gh)"

definition uhyve_gdb_init :: "gdb_host \<Rightarrow> (u64 \<Rightarrow> u64) \<Rightarrow> u32 \<Rightarrow> stub \<Rightarrow> (int \<times> int list \<times> cmd_result) option" where
  "uhyve_gdb_init gh translate ncores st = (if gh_mprotect gh = -1 then None else gdb_stub_start gh translate ncores st)"

text \<open>A start that succeeds leaves one descriptor, the connection, and enters the command loop with the signal 0.\<close>

lemma uhyve_gdb_init_connected:
  assumes "uhyve_gdb_init gh translate ncores st = Some (fd, fds, r)"
  shows "fd = gh_accept gh \<and> fd \<noteq> -1 \<and> fds = [fd] \<and> r = gdb_handle_exception translate ncores 0 st"
  using assms
  by (auto simp: uhyve_gdb_init_def gdb_stub_start_def wait_for_connect_def GDB_SIGNAL_FIRST_def Let_def split: if_splits)

lemma uhyve_gdb_init_succeeds:
  "uhyve_gdb_init gh translate ncores st \<noteq> None \<longleftrightarrow>
     -1 \<notin> {gh_mprotect gh, gh_socket gh, gh_reuseaddr gh, gh_bind gh, gh_listen gh, gh_accept gh, gh_nodelay gh} \<and> gh_getproto gh"
  by (auto simp: uhyve_gdb_init_def gdb_stub_start_def wait_for_connect_def Let_def)

end
