(* ===== verification/Net_Device.thy ===== *)
theory Net_Device
  imports Gdb_Packet
begin

text \<open>
  The network device: the shared ring buffers of \<open>src/uhyve-net.h\<close> with the two threads of \<open>src/uhyve.c\<close> that move
  packets between them and the tap device (\<open>recieve_packets\<close>, \<open>transfer_packets\<close>).  The configuration of the interface is the
  theory \<open>Net_Config\<close>.

  A queue has two ends.  On the receive queue the hypervisor is the producer, on the transmit queue the consumer;
  the other end is the guest's.  The interface \<open>bounded_queue\<close> states what both ends rely on.
\<close>

unbundle bit_operations_syntax

section \<open>The shared queue\<close>

definition UHYVE_NET_MTU :: nat where "UHYVE_NET_MTU = 1500"
definition UHYVE_QUEUE_SIZE :: u64 where "UHYVE_QUEUE_SIZE = 8"
definition QUEUE_DATA :: nat where "QUEUE_DATA = UHYVE_NET_MTU + 34"

record queue_inner =
  qi_len :: u16
  qi_data :: bytes

record shared_queue =
  q_read :: u64
  q_written :: u64
  q_inner :: "queue_inner list"

definition q_idx :: "u64 \<Rightarrow> nat" where
  "q_idx counter = unat (counter mod UHYVE_QUEUE_SIZE)"

definition distance :: "shared_queue \<Rightarrow> u64" where
  "distance q = q_written q - q_read q"

text \<open>The host addresses of the two queues.\<close>

definition SHAREDQUEUE_START :: u64 where "SHAREDQUEUE_START = 0x80000"
definition SHAREDQUEUE_CEIL :: "u64 \<Rightarrow> u64" where "SHAREDQUEUE_CEIL x = (x + 0x3f) AND NOT 0x3f"
definition sizeof_shared_queue :: u64 where "sizeof_shared_queue = 12416"
definition tx_queue_addr :: u64 where "tx_queue_addr = SHAREDQUEUE_START + SHAREDQUEUE_CEIL sizeof_shared_queue"

section \<open>Receive\<close>

text \<open>The two stores of \<open>recieve_packets\<close> into the slot, and the increment that publishes it.\<close>

definition fill_slot :: "nat \<Rightarrow> bytes \<Rightarrow> queue_inner \<Rightarrow> queue_inner" where
  "fill_slot n bs inner = inner\<lparr>qi_data := bs @ drop (length bs) (qi_data inner), qi_len := word_of_nat n\<rparr>"

definition rx_fill :: "bytes \<Rightarrow> shared_queue \<Rightarrow> shared_queue" where
  "rx_fill bs q = (let idx = q_idx (q_written q)
     in q\<lparr>q_inner := (q_inner q)[idx := fill_slot (length bs) bs (q_inner q ! idx)]\<rparr>)"

definition rx_publish :: "shared_queue \<Rightarrow> shared_queue" where
  "rx_publish q = q\<lparr>q_written := q_written q + 1\<rparr>"

text \<open>
  One turn of the loop of \<open>recieve_packets\<close>.  \<open>rd\<close> is the result of \<open>read(netfd, ..., UHYVE_NET_MTU)\<close>, \<open>None\<close> for -1; \<open>events\<close>
  counts the writes to the event descriptor.  With a full queue the thread yields.
\<close>

definition recieve_packets :: "bytes option \<Rightarrow> shared_queue \<times> nat \<Rightarrow> shared_queue \<times> nat" where
  "recieve_packets rd = (\<lambda>(q, events).
     if distance q < UHYVE_QUEUE_SIZE
     then case rd of
            Some bs \<Rightarrow> if bs \<noteq> [] then (rx_publish (rx_fill bs q), events + 1) else (q, events)
          | None \<Rightarrow> (q, events)
     else (q, events))"

section \<open>Transmit\<close>

text \<open>
  \<open>wr\<close> is \<open>write(netfd, ...)\<close>: the number of bytes taken, at most 0 for a failure.  \<open>None\<close>: the loop has not ended
  after \<open>fuel\<close> calls; it does not end as long as \<open>write\<close> fails.
\<close>

fun tx_loop :: "('os \<Rightarrow> bytes \<Rightarrow> int \<times> 'os) \<Rightarrow> nat \<Rightarrow> bytes \<Rightarrow> nat \<Rightarrow> nat \<Rightarrow> 'os \<Rightarrow> 'os option" where
  "tx_loop wr fuel data i len os =
    (if \<not> i < len then Some os
     else case fuel of 0 \<Rightarrow> None
      | Suc fuel' \<Rightarrow>
        (let (ret, os) = wr os (take (len - i) (drop i data))
         in tx_loop wr fuel' data (if ret > 0 then i + nat ret else i) len os))"

declare tx_loop.simps [simp del]

text \<open>One turn of \<open>transfer_packets\<close> after \<open>sem_wait\<close>; \<open>tx_sem\<close> is the semaphore, and the thread blocks (\<open>None\<close>) on 0.\<close>

definition transfer_packets ::
  "('os \<Rightarrow> bytes \<Rightarrow> int \<times> 'os) \<Rightarrow> nat \<Rightarrow> shared_queue \<times> nat \<times> 'os \<Rightarrow> (shared_queue \<times> nat \<times> 'os) option" where
  "transfer_packets wr fuel = (\<lambda>(q, tx_sem, os).
    if tx_sem = 0 then None
    else let tx_sem = tx_sem - 1
         in if distance q > 0
            then let inner = q_inner q ! q_idx (q_read q); len = unat (qi_len inner)
                 in map_option (\<lambda>os. (q\<lparr>q_read := q_read q + 1\<rparr>, tx_sem, os))
                      (if UHYVE_NET_MTU \<le> len then Some os else tx_loop wr fuel (qi_data inner) 0 len os)
            else Some (q, tx_sem, os))"

section \<open>The interface of a bounded queue\<close>

locale bounded_queue =
  fixes inv :: "'q \<Rightarrow> bool" and contents :: "'q \<Rightarrow> 'a list" and cap :: nat
    and put :: "'a \<Rightarrow> 'q \<Rightarrow> 'q" and get :: "'q \<Rightarrow> 'a \<times> 'q" and item_ok :: "'a \<Rightarrow> bool"
  assumes bounded: "inv q \<Longrightarrow> length (contents q) \<le> cap"
    and put_inv: "inv q \<Longrightarrow> length (contents q) < cap \<Longrightarrow> item_ok x \<Longrightarrow> inv (put x q)"
    and put_contents: "inv q \<Longrightarrow> length (contents q) < cap \<Longrightarrow> item_ok x \<Longrightarrow> contents (put x q) = contents q @ [x]"
    and get_inv: "inv q \<Longrightarrow> contents q \<noteq> [] \<Longrightarrow> inv (snd (get q))"
    and get_item: "inv q \<Longrightarrow> contents q \<noteq> [] \<Longrightarrow> fst (get q) = hd (contents q)"
    and get_contents: "inv q \<Longrightarrow> contents q \<noteq> [] \<Longrightarrow> contents (snd (get q)) = tl (contents q)"
begin

text \<open>Items put one after the other come out in the same order.\<close>

fun put_all :: "'a list \<Rightarrow> 'q \<Rightarrow> 'q" where
  "put_all [] q = q"
| "put_all (x # xs) q = put_all xs (put x q)"

fun get_n :: "nat \<Rightarrow> 'q \<Rightarrow> 'a list \<times> 'q" where
  "get_n 0 q = ([], q)"
| "get_n (Suc n) q = (let (x, q) = get q; (xs, q) = get_n n q in (x # xs, q))"

lemma put_all_contents:
  "inv q \<Longrightarrow> list_all item_ok xs \<Longrightarrow> length (contents q) + length xs \<le> cap \<Longrightarrow>
     inv (put_all xs q) \<and> contents (put_all xs q) = contents q @ xs"
proof (induction xs arbitrary: q)
  case (Cons x xs)
  then have "inv (put x q)" "contents (put x q) = contents q @ [x]"
    using put_inv [of q x] put_contents [of q x] by auto
  with Cons show ?case by simp
qed simp

lemma get_n_contents:
  "inv q \<Longrightarrow> n \<le> length (contents q) \<Longrightarrow> fst (get_n n q) = take n (contents q) \<and> contents (snd (get_n n q)) = drop n (contents q)"
proof (induction n arbitrary: q)
  case (Suc n)
  then have ne: "contents q \<noteq> []" by auto
  have t: "contents (snd (get q)) = tl (contents q)" "inv (snd (get q))" "fst (get q) = hd (contents q)"
    using Suc.prems(1) ne get_contents get_inv get_item by auto
  then have "n \<le> length (contents (snd (get q)))"
    using Suc.prems(2) by simp
  with Suc.IH [OF t(2) this] t ne show ?case
    by (cases "contents q") (auto simp: split_beta Let_def)
qed simp

lemma fifo:
  "inv q \<Longrightarrow> contents q = [] \<Longrightarrow> list_all item_ok xs \<Longrightarrow> length xs \<le> cap \<Longrightarrow> fst (get_n (length xs) (put_all xs q)) = xs"
  using put_all_contents [of q xs] get_n_contents [of "put_all xs q" "length xs"] by simp

end

section \<open>The ring buffer is a bounded queue\<close>

definition packet_of :: "queue_inner \<Rightarrow> bytes" where
  "packet_of inner = take (unat (qi_len inner)) (qi_data inner)"

definition q_inv :: "shared_queue \<Rightarrow> bool" where
  "q_inv q \<longleftrightarrow> distance q \<le> UHYVE_QUEUE_SIZE \<and> length (q_inner q) = 8 \<and>
     list_all (\<lambda>inner. length (qi_data inner) = QUEUE_DATA) (q_inner q)"

definition q_contents :: "shared_queue \<Rightarrow> bytes list" where
  "q_contents q = map (\<lambda>i. packet_of (q_inner q ! q_idx (q_read q + word_of_nat i))) [0..<unat (distance q)]"

definition rx_put :: "bytes \<Rightarrow> shared_queue \<Rightarrow> shared_queue" where
  "rx_put bs q = rx_publish (rx_fill bs q)"

definition tx_get :: "shared_queue \<Rightarrow> bytes \<times> shared_queue" where
  "tx_get q = (packet_of (q_inner q ! q_idx (q_read q)), q\<lparr>q_read := q_read q + 1\<rparr>)"

definition frame_ok :: "bytes \<Rightarrow> bool" where
  "frame_ok bs \<longleftrightarrow> bs \<noteq> [] \<and> length bs \<le> UHYVE_NET_MTU"

lemma q_idx_mod: "q_idx c = unat c mod 8"
  by (simp add: q_idx_def UHYVE_QUEUE_SIZE_def unat_mod)

lemma q_idx_less: "q_idx c < 8"
  by (simp add: q_idx_mod)

lemma q_idx_add: "q_idx (c + word_of_nat i) = (q_idx c + i) mod 8"
proof -
  have m: "n mod 2 ^ 64 mod 8 = n mod (8::nat)" for n
  proof -
    have "(8::nat) dvd 2 ^ 64" by (rule dvdI [of _ _ "2 ^ 61"]) simp
    then show ?thesis by (rule mod_mod_cancel)
  qed
  have "unat (c + word_of_nat i) = (unat c + i mod 2 ^ 64) mod 2 ^ 64"
    by (simp add: unat_word_ariths unat_of_nat)
  then have "q_idx (c + word_of_nat i) = (unat c + i mod 2 ^ 64) mod 8"
    by (simp only: q_idx_mod m)
  also have "\<dots> = (unat c mod 8 + i mod 2 ^ 64 mod 8) mod 8"
    by (simp only: mod_add_eq)
  also have "\<dots> = (q_idx c + i) mod 8"
    by (simp only: m q_idx_mod mod_add_right_eq)
  finally show ?thesis .
qed

lemma idx_distinct: "i < j \<Longrightarrow> j < 8 \<Longrightarrow> (a + i) mod 8 \<noteq> (a + j) mod (8::nat)"
proof
  assume ij: "i < j" "j < 8" and "(a + i) mod 8 = (a + j) mod 8"
  then have "8 dvd (a + j) - (a + i)"
    by (metis add_le_mono1 add.commute less_imp_le mod_eq_dvd_iff_nat)
  with ij show False by (auto dest: dvd_imp_le)
qed

lemma q_idx_written: "q_idx (q_written q) = (q_idx (q_read q) + unat (distance q)) mod 8"
proof -
  have "q_written q = q_read q + word_of_nat (unat (distance q))"
    by (simp add: distance_def)
  then show ?thesis by (simp only: q_idx_add)
qed

lemma rx_fill_sel: "distance (rx_fill bs q) = distance q" "q_read (rx_fill bs q) = q_read q" "q_written (rx_fill bs q) = q_written q"
  by (simp_all add: rx_fill_def distance_def Let_def)

lemma rx_fill_slot:
  "length (q_inner q) = 8 \<Longrightarrow> j < 8 \<Longrightarrow> q_inner (rx_fill bs q) ! j =
     (if j = q_idx (q_written q) then fill_slot (length bs) bs (q_inner q ! j) else q_inner q ! j)"
  by (auto simp: rx_fill_def Let_def)

lemma rx_fill_hidden:
  assumes "q_inv q" and "distance q < UHYVE_QUEUE_SIZE"
  shows "q_contents (rx_fill bs q) = q_contents q"
  unfolding q_contents_def
proof (rule map_cong)
  show "[0..<unat (distance (rx_fill bs q))] = [0..<unat (distance q)]"
    by (simp add: rx_fill_sel)
  fix i assume "i \<in> set [0..<unat (distance q)]"
  then have i: "i < unat (distance q)" by simp
  have d: "unat (distance q) < 8"
    using assms(2) by (simp add: UHYVE_QUEUE_SIZE_def word_less_nat_alt)
  have l: "length (q_inner q) = 8"
    using assms(1) by (simp add: q_inv_def)
  have "q_idx (q_read q + word_of_nat i) \<noteq> q_idx (q_written q)"
    unfolding q_idx_add q_idx_written using i d by (rule idx_distinct)
  then show "packet_of (q_inner (rx_fill bs q) ! q_idx (q_read (rx_fill bs q) + word_of_nat i)) =
      packet_of (q_inner q ! q_idx (q_read q + word_of_nat i))"
    using l q_idx_less by (simp add: rx_fill_sel rx_fill_slot)
qed

lemma fill_slot_packet: "frame_ok bs \<Longrightarrow> packet_of (fill_slot (length bs) bs inner) = bs"
  by (simp add: packet_of_def fill_slot_def frame_ok_def UHYVE_NET_MTU_def unat_of_nat)

lemma rx_put_distance:
  "distance q < UHYVE_QUEUE_SIZE \<Longrightarrow> unat (distance (rx_put bs q)) = Suc (unat (distance q))"
proof -
  assume "distance q < UHYVE_QUEUE_SIZE"
  then have "unat (distance q) < 8"
    by (simp add: UHYVE_QUEUE_SIZE_def word_less_nat_alt)
  moreover have "distance (rx_put bs q) = distance q + 1"
    by (simp add: rx_put_def rx_publish_def distance_def rx_fill_sel)
  ultimately show ?thesis
    by (simp add: unat_word_ariths)
qed

lemma rx_put_contents:
  assumes "q_inv q" and "distance q < UHYVE_QUEUE_SIZE" and "frame_ok bs"
  shows "q_contents (rx_put bs q) = q_contents q @ [bs]"
proof -
  have l: "length (q_inner q) = 8"
    using assms(1) by (simp add: q_inv_def)
  have "q_contents (rx_put bs q) = q_contents (rx_fill bs q) @
      [packet_of (q_inner (rx_fill bs q) ! q_idx (q_read q + word_of_nat (unat (distance q))))]"
    unfolding q_contents_def rx_put_distance [OF assms(2)]
    by (simp add: rx_put_def rx_publish_def rx_fill_sel)
  also have "q_idx (q_read q + word_of_nat (unat (distance q))) = q_idx (q_written q)"
    by (simp add: distance_def)
  also have "packet_of (q_inner (rx_fill bs q) ! q_idx (q_written q)) = bs"
    using l q_idx_less assms(3) by (simp add: rx_fill_slot fill_slot_packet)
  finally show ?thesis
    using rx_fill_hidden [OF assms(1,2)] by simp
qed

lemma rx_put_inv:
  assumes "q_inv q" and "distance q < UHYVE_QUEUE_SIZE" and "frame_ok bs"
  shows "q_inv (rx_put bs q)"
proof -
  have "distance (rx_put bs q) \<le> UHYVE_QUEUE_SIZE"
    using assms(2) rx_put_distance [OF assms(2), of bs]
    by (simp add: UHYVE_QUEUE_SIZE_def word_le_nat_alt word_less_nat_alt)
  then show ?thesis
    using assms(1,3) q_idx_less [of "q_written q"]
    by (auto simp: q_inv_def rx_put_def rx_publish_def rx_fill_def Let_def fill_slot_def list_all_length
        nth_list_update frame_ok_def QUEUE_DATA_def)
qed

lemma q_contents_length: "length (q_contents q) = unat (distance q)"
  by (simp add: q_contents_def)

lemma q_full: "length (q_contents q) < 8 \<longleftrightarrow> distance q < UHYVE_QUEUE_SIZE"
  by (simp add: q_contents_length UHYVE_QUEUE_SIZE_def word_less_nat_alt)

lemma tx_get_distance:
  assumes "q_contents q \<noteq> []"
  shows "unat (distance (snd (tx_get q))) = unat (distance q) - 1"
proof -
  have "distance q \<noteq> 0"
    using assms by (auto simp: q_contents_def)
  then have "unat (distance q - 1) = unat (distance q) - 1"
    by (rule unat_minus_one)
  then show ?thesis
    by (simp add: tx_get_def distance_def algebra_simps)
qed

interpretation ring: bounded_queue q_inv q_contents 8 rx_put tx_get frame_ok
proof
  fix q assume "q_inv q"
  then show "length (q_contents q) \<le> 8"
    by (simp add: q_contents_length q_inv_def UHYVE_QUEUE_SIZE_def word_le_nat_alt)
next
  fix q bs assume "q_inv q" "length (q_contents q) < 8" "frame_ok bs"
  then show "q_inv (rx_put bs q)" "q_contents (rx_put bs q) = q_contents q @ [bs]"
    by (simp_all add: q_full rx_put_inv rx_put_contents)
next
  fix q assume i: "q_inv q" and ne: "q_contents q \<noteq> []"
  then have d: "0 < unat (distance q)"
    by (simp add: q_contents_def)
  note td = tx_get_distance [OF ne]
  show "q_inv (snd (tx_get q))"
    using i td by (auto simp: q_inv_def tx_get_def word_le_nat_alt UHYVE_QUEUE_SIZE_def)
  have u: "[0..<unat (distance q)] = 0 # map Suc [0..<unat (distance q) - 1]"
    using d by (simp add: upt_conv_Cons map_Suc_upt)
  show "fst (tx_get q) = hd (q_contents q)"
    unfolding q_contents_def u by (simp add: tx_get_def)
  show "q_contents (snd (tx_get q)) = tl (q_contents q)"
    unfolding q_contents_def td u by (simp add: tx_get_def add.assoc)
qed

text \<open>POSIX: a \<open>write\<close> that succeeds takes a non-empty prefix of non-empty data.\<close>

definition tap_contract :: "('os \<Rightarrow> bytes \<Rightarrow> int \<times> 'os) \<Rightarrow> ('os \<Rightarrow> bytes) \<Rightarrow> bool" where
  "tap_contract wr out \<longleftrightarrow> (\<forall>os bs. bs \<noteq> [] \<longrightarrow> (let (ret, os') = wr os bs
     in 0 < ret \<and> nat ret \<le> length bs \<and> out os' = out os @ take (nat ret) bs))"

lemma tx_loop_sends:
  assumes "tap_contract wr out" and "len \<le> length data" and "len - i \<le> fuel" and "i \<le> len"
  shows "\<exists>os'. tx_loop wr fuel data i len os = Some os' \<and> out os' = out os @ take (len - i) (drop i data)"
  using assms(3,4)
proof (induction fuel arbitrary: i os)
  case 0
  then show ?case by (simp add: tx_loop.simps)
next
  case (Suc fuel)
  show ?case
  proof (cases "i < len")
    case False
    then show ?thesis by (simp add: tx_loop.simps)
  next
    case True
    let ?bs = "take (len - i) (drop i data)"
    obtain ret os1 where w: "wr os ?bs = (ret, os1)" by fastforce
    have "?bs \<noteq> []" using True assms(2) by simp
    then have r: "0 < ret" "nat ret \<le> length ?bs" "out os1 = out os @ take (nat ret) ?bs"
      using assms(1) [unfolded tap_contract_def, rule_format, of ?bs os] w by auto
    then have n: "i + nat ret \<le> len" "0 < nat ret"
      using True assms(2) by auto
    have step: "tx_loop wr (Suc fuel) data i len os = tx_loop wr fuel data (i + nat ret) len os1"
      using True w r(1) by (simp add: tx_loop.simps [of _ "Suc fuel"])
    have "len - (i + nat ret) \<le> fuel"
      using Suc.prems(1) n(2) by linarith
    from Suc.IH [OF this n(1)] obtain os' where o: "tx_loop wr fuel data (i + nat ret) len os1 = Some os'"
      "out os' = out os1 @ take (len - (i + nat ret)) (drop (i + nat ret) data)" by blast
    have "take (nat ret) ?bs @ drop (nat ret) ?bs = ?bs"
      by (rule append_take_drop_id)
    moreover have "drop (nat ret) ?bs = take (len - (i + nat ret)) (drop (i + nat ret) data)"
      by (simp add: drop_take add.commute)
    ultimately have "out os @ ?bs = out os1 @ take (len - (i + nat ret)) (drop (i + nat ret) data)"
      unfolding r(3) by (simp only: append.assoc)
    then show ?thesis
      using step o by simp
  qed
qed

text \<open>Take \<open>n\<close> packets from a queue, one after the other.\<close>

fun drain :: "nat \<Rightarrow> shared_queue \<Rightarrow> bytes list" where
  "drain 0 q = []"
| "drain (Suc n) q = fst (tx_get q) # drain n (snd (tx_get q))"

lemma drain_get_n: "drain n q = fst (ring.get_n n q)"
  by (induction n arbitrary: q) (simp_all add: Let_def split_beta)

lemma fold_put_all: "fold rx_put frames q = ring.put_all frames q"
  by (induction frames arbitrary: q) simp_all

section \<open>Properties\<close>

text \<open>
  C28.  The ring buffer is a first-in-first-out queue of eight packets, also when the 64-bit counters wrap: packets that
  \<open>recieve_packets\<close> stores into an empty queue are read in the same order and unchanged.
\<close>

theorem ring_fifo:
  assumes "q_inv q" and "distance q = 0" and "list_all frame_ok frames" and "length frames \<le> 8"
  shows "drain (length frames) (fold rx_put frames q) = frames"
  unfolding drain_get_n fold_put_all
  using assms by (intro ring.fifo) (simp_all add: q_contents_def)

definition empty_queue :: "u64 \<Rightarrow> shared_queue" where
  "empty_queue c = \<lparr>q_read = c, q_written = c, q_inner = replicate 8 \<lparr>qi_len = 0, qi_data = replicate QUEUE_DATA 0\<rparr>\<rparr>"

lemma empty_queue_inv: "q_inv (empty_queue c) \<and> distance (empty_queue c) = 0"
  by (simp add: q_inv_def empty_queue_def distance_def UHYVE_QUEUE_SIZE_def list_all_iff)

theorem ring_fifo_witness:
  "drain 2 (fold rx_put [[1, 2], [3]] (empty_queue (-1))) = [[1, 2], [3]]"
  using ring_fifo [of "empty_queue (-1)" "[[1, 2], [3]]"] empty_queue_inv [of "-1"]
  by (simp add: frame_ok_def UHYVE_NET_MTU_def numeral_2_eq_2 del: drain.simps)

text \<open>
  C29.  One turn of \<open>recieve_packets\<close> implements the queue's enqueue: a non-empty frame from the tap device is appended
  and signalled once when there is room, nothing changes otherwise; and storing the frame into its slot, before
  the counter is incremented, changes nothing the guest can see.
\<close>

theorem recieve_packets_refines:
  assumes "q_inv q" and "\<forall>bs. rd = Some bs \<longrightarrow> length bs \<le> UHYVE_NET_MTU" and "recieve_packets rd (q, ev) = (q', ev')"
  shows "q_inv q' \<and>
    (q_contents q', ev') = (case rd of
        Some bs \<Rightarrow> if bs \<noteq> [] \<and> length (q_contents q) < 8 then (q_contents q @ [bs], ev + 1) else (q_contents q, ev)
      | None \<Rightarrow> (q_contents q, ev)) \<and>
    (length (q_contents q) < 8 \<longrightarrow> (\<forall>bs. q_contents (rx_fill bs q) = q_contents q))"
  using assms rx_put_inv [OF assms(1)] rx_put_contents [OF assms(1)] rx_fill_hidden [OF assms(1)]
  by (auto simp: recieve_packets_def q_full rx_put_def frame_ok_def split: option.splits if_splits)

theorem recieve_packets_refines_witness:
  "\<exists>q'. recieve_packets (Some [1, 2]) (empty_queue 0, 0) = (q', 1) \<and> q_contents q' = [[1, 2]]"
proof -
  obtain q' ev' where e: "recieve_packets (Some [1, 2]) (empty_queue 0, 0) = (q', ev')" by fastforce
  have "q_contents (empty_queue 0) = []"
    using empty_queue_inv [of 0] by (simp add: q_contents_def)
  with recieve_packets_refines [OF _ _ e] empty_queue_inv [of 0] e show ?thesis
    by (simp add: UHYVE_NET_MTU_def)
qed

text \<open>
  C30.  One turn of \<open>transfer_packets\<close> implements the queue's dequeue: the oldest packet leaves the queue, and when it is
  shorter than the MTU exactly its bytes are written to the tap device, however many bytes each \<open>write\<close> takes;
  a packet of the MTU or longer is dropped.
\<close>

theorem transfer_packets_refines:
  assumes "q_inv q" and "q_contents q = p # ps" and "0 < tx_sem" and "tap_contract wr out" and "length p \<le> fuel"
  shows "\<exists>q' os'. transfer_packets wr fuel (q, tx_sem, os) = Some (q', tx_sem - 1, os') \<and> q_inv q' \<and>
    q_contents q' = ps \<and> out os' = (if length p < UHYVE_NET_MTU then out os @ p else out os)"
proof -
  let ?inner = "q_inner q ! q_idx (q_read q)" and ?q = "q\<lparr>q_read := q_read q + 1\<rparr>"
  have ne: "q_contents q \<noteq> []" using assms(2) by simp
  have p: "p = packet_of ?inner"
    using ring.get_item [OF assms(1) ne] assms(2) by (simp add: tx_get_def)
  have q': "q_inv ?q" "q_contents ?q = ps"
    using ring.get_inv [OF assms(1) ne] ring.get_contents [OF assms(1) ne] assms(2) by (simp_all add: tx_get_def)
  have "length (qi_data ?inner) = QUEUE_DATA"
    using assms(1) q_idx_less by (simp add: q_inv_def list_all_length)
  then have len: "UHYVE_NET_MTU \<le> unat (qi_len ?inner) \<longleftrightarrow> UHYVE_NET_MTU \<le> length p"
    and le: "length p < UHYVE_NET_MTU \<Longrightarrow> unat (qi_len ?inner) \<le> length (qi_data ?inner)"
    by (auto simp: p packet_of_def QUEUE_DATA_def)
  have d: "distance q > 0"
    using ne by (auto simp: q_contents_def word_less_nat_alt)
  show ?thesis
  proof (cases "length p < UHYVE_NET_MTU")
    case True
    note l = le [OF this]
    then have "length p = unat (qi_len ?inner)" by (simp add: p packet_of_def)
    then obtain os' where "tx_loop wr fuel (qi_data ?inner) 0 (unat (qi_len ?inner)) os = Some os'" "out os' = out os @ p"
      using tx_loop_sends [OF assms(4) l, of 0 fuel os] assms(5) by (auto simp: p packet_of_def)
    then show ?thesis
      using True len d assms(3) q' by (simp add: transfer_packets_def Let_def)
  next
    case False
    then show ?thesis
      using len d assms(3) q' by (simp add: transfer_packets_def Let_def)
  qed
qed

theorem transfer_packets_refines_witness:
  "\<exists>q' os'. transfer_packets (\<lambda>os bs. (1, os @ take 1 bs)) 2 (rx_put [1, 2] (empty_queue 0), 1, []) = Some (q', 0, os') \<and>
     q_contents q' = [] \<and> os' = [1, 2]"
proof -
  have c: "q_contents (empty_queue 0) = []"
    using empty_queue_inv [of 0] by (simp add: q_contents_def)
  have d: "distance (empty_queue 0) < UHYVE_QUEUE_SIZE" "frame_ok [1, 2]"
    using empty_queue_inv [of 0] by (simp_all add: UHYVE_QUEUE_SIZE_def frame_ok_def UHYVE_NET_MTU_def)
  have t: "tap_contract (\<lambda>os bs. (1, os @ take 1 bs)) (\<lambda>os. os)"
    by (auto simp: tap_contract_def Suc_leI)
  from transfer_packets_refines [OF rx_put_inv [of "empty_queue 0" "[1, 2]"], of "[1, 2]" "[]" 1, OF _ d _ _ t, of 2 "[]"]
    rx_put_contents [OF _ d] c empty_queue_inv [of 0]
  show ?thesis by (auto simp: UHYVE_NET_MTU_def)
qed

end
