(* ===== verification/Chk_Protocol.thy ===== *)
theory Chk_Protocol
  imports Restart
begin

text \<open>
  How the vCPU threads write a checkpoint together: \<open>timer_handler\<close> in the thread that gets the timer signal,
  \<open>sigusr_handler\<close> in the others, synchronised by \<open>barrier\<close>, which is initialised for \<open>ncores\<close> threads.

  A state has the place of every thread and the signals that are pending.  A step is one thread moving or a barrier opening,
  which happens when all its threads have arrived.  Between its steps in the protocol a thread runs the guest and changes memory and its
  CPU state in any way.  The model has one alarm at a time: the interval of the timer is longer than a checkpoint takes.

  \<open>p_snap\<close> and \<open>p_dump\<close> are history variables: the machine when the first barrier opened, and the clock, the memory and the file of the
  dump.
\<close>

datatype place = Running | Bar1 | Saving | Bar2 | Config

record 'v proto =
  p_vm :: "'v chk_vm"
  p_at :: "u32 \<Rightarrow> place"
  p_pending :: "u32 \<Rightarrow> bool"
  p_leader :: "u32 option"
  p_snap :: "'v chk_vm"
  p_dump :: "(bytes \<times> gmem \<times> bytes) option"

abbreviation p_globals :: "'v proto \<Rightarrow> globals" where "p_globals s \<equiv> cv_globals (p_vm s)"
abbreviation p_no :: "'v proto \<Rightarrow> u32" where "p_no s \<equiv> g_no_checkpoint (p_globals s)"

definition all_at :: "u32 \<Rightarrow> 'v proto \<Rightarrow> place \<Rightarrow> bool" where
  "all_at n s pl \<longleftrightarrow> (\<forall>t < n. p_at s t = pl)"

section \<open>The steps\<close>

text \<open>Guest code of a thread.\<close>

definition guest_step :: "u32 \<Rightarrow> gmem \<Rightarrow> 'v \<Rightarrow> 'v proto \<Rightarrow> 'v proto" where
  "guest_step t mem v s = s\<lparr>p_vm := (p_vm s)\<lparr>cv_mem := mem, cv_cpus := (cv_cpus (p_vm s))(t := v)\<rparr>\<rparr>"

text \<open>\<open>timer_handler\<close> up to its first barrier: signal the other threads.\<close>

definition alarm :: "u32 \<Rightarrow> u32 \<Rightarrow> 'v proto \<Rightarrow> 'v proto" where
  "alarm n t s = s\<lparr>p_leader := Some t, p_pending := (\<lambda>i. i < n \<and> i \<noteq> t), p_at := (p_at s)(t := Bar1)\<rparr>"

text \<open>\<open>sigusr_handler\<close> up to its first barrier.\<close>

definition take_signal :: "u32 \<Rightarrow> 'v proto \<Rightarrow> 'v proto" where
  "take_signal t s = s\<lparr>p_pending := (p_pending s)(t := False), p_at := (p_at s)(t := Bar1)\<rparr>"

definition open_first :: "u32 \<Rightarrow> 'v proto \<Rightarrow> 'v proto" where
  "open_first n s = s\<lparr>p_at := (\<lambda>t. if t < n then Saving else p_at s t), p_snap := p_vm s, p_dump := None\<rparr>"

text \<open>\<open>write_cpu_state\<close> of \<open>sigusr_handler\<close>.\<close>

definition save_cpu :: "('v \<Rightarrow> bytes) \<Rightarrow> u32 \<Rightarrow> 'v proto \<Rightarrow> 'v proto" where
  "save_cpu enc t s = s\<lparr>p_vm := (p_vm s)\<lparr>cv_files := write_cpu_state enc (p_no s) t (cv_cpus (p_vm s) t) (cv_files (p_vm s))\<rparr>,
     p_at := (p_at s)(t := Bar2)\<rparr>"

text \<open>\<open>timer_handler\<close> between its barriers: the CPU state, the clock and the memory.\<close>

definition save_mem :: "('v \<Rightarrow> bytes) \<Rightarrow> bytes \<Rightarrow> gmem \<Rightarrow> bytes \<Rightarrow> u32 \<Rightarrow> 'v proto \<Rightarrow> 'v proto" where
  "save_mem enc clock mem f t s =
    (let s = save_cpu enc t s
     in s\<lparr>p_vm := (p_vm s)\<lparr>cv_mem := mem, cv_files := (cv_files (p_vm s))(mem_fname (p_no s) \<mapsto> f)\<rparr>, p_dump := Some (clock, mem, f)\<rparr>)"

text \<open>The second barrier: the other threads return from their handler.\<close>

definition open_second :: "u32 \<Rightarrow> u32 \<Rightarrow> 'v proto \<Rightarrow> 'v proto" where
  "open_second n l s = s\<lparr>p_at := (\<lambda>t. if t < n then (if t = l then Config else Running) else p_at s t)\<rparr>"

text \<open>The rest of \<open>timer_handler\<close>: the configuration file and the checkpoint number.\<close>

definition write_config :: "u32 \<Rightarrow> 'v proto \<Rightarrow> 'v proto" where
  "write_config t s = s\<lparr>p_vm := (p_vm s)\<lparr>cv_files := (cv_files (p_vm s))(config_fname \<mapsto> print_config (p_globals s)),
       cv_globals := (p_globals s)\<lparr>g_no_checkpoint := p_no s + 1\<rparr>\<rparr>,
     p_at := (p_at s)(t := Running), p_leader := None\<rparr>"

lemmas step_defs = guest_step_def alarm_def take_signal_def open_first_def save_cpu_def save_mem_def open_second_def write_config_def

text \<open>
  The steps of the protocol, and with those of the guest the steps of the system.  \<open>n\<close> is \<open>ncores\<close>; \<open>ok\<close> tells whether \<open>fwrite\<close>
  succeeds (when it fails, the program ends).
\<close>

inductive chk_step :: "('v \<Rightarrow> bytes) \<Rightarrow> (bytes \<Rightarrow> bytes \<Rightarrow> bool) \<Rightarrow> u32 \<Rightarrow> 'v proto \<Rightarrow> 'v proto \<Rightarrow> bool"
  for enc ok n where
  signal: "t < n \<Longrightarrow> p_at s t = Running \<Longrightarrow> p_pending s t \<Longrightarrow> chk_step enc ok n s (take_signal t s)"
| first: "all_at n s Bar1 \<Longrightarrow> p_leader s \<noteq> None \<Longrightarrow> chk_step enc ok n s (open_first n s)"
| cpu: "t < n \<Longrightarrow> p_at s t = Saving \<Longrightarrow> p_leader s \<noteq> Some t \<Longrightarrow> chk_step enc ok n s (save_cpu enc t s)"
| mem: "p_leader s = Some t \<Longrightarrow> p_at s t = Saving \<Longrightarrow>
    write_chk_mem ok (g_full_checkpoint (p_globals s)) (p_no s) clock (cv_mem (p_vm s)) = (m, Some f) \<Longrightarrow>
    chk_step enc ok n s (save_mem enc clock m f t s)"
| second: "all_at n s Bar2 \<Longrightarrow> p_leader s = Some t \<Longrightarrow> chk_step enc ok n s (open_second n t s)"
| config: "p_leader s = Some t \<Longrightarrow> p_at s t = Config \<Longrightarrow> chk_step enc ok n s (write_config t s)"

inductive sys_step :: "('v \<Rightarrow> bytes) \<Rightarrow> (bytes \<Rightarrow> bytes \<Rightarrow> bool) \<Rightarrow> u32 \<Rightarrow> 'v proto \<Rightarrow> 'v proto \<Rightarrow> bool"
  for enc ok n where
  guest: "t < n \<Longrightarrow> p_at s t = Running \<Longrightarrow> sys_step enc ok n s (guest_step t m v s)"
| timer: "t < n \<Longrightarrow> p_at s t = Running \<Longrightarrow> p_leader s = None \<Longrightarrow> sys_step enc ok n s (alarm n t s)"
| protocol: "chk_step enc ok n s s' \<Longrightarrow> sys_step enc ok n s s'"

definition proto_init :: "'v chk_vm \<Rightarrow> 'v proto" where
  "proto_init cv = \<lparr>p_vm = cv, p_at = \<lambda>_. Running, p_pending = \<lambda>_. False, p_leader = None, p_snap = cv, p_dump = None\<rparr>"

inductive reachable :: "('v \<Rightarrow> bytes) \<Rightarrow> (bytes \<Rightarrow> bytes \<Rightarrow> bool) \<Rightarrow> 'v chk_vm \<Rightarrow> 'v proto \<Rightarrow> bool"
  for enc ok cv where
  start: "reachable enc ok cv (proto_init cv)"
| step: "reachable enc ok cv s \<Longrightarrow> sys_step enc ok (g_ncores (cv_globals cv)) s s' \<Longrightarrow> reachable enc ok cv s'"

section \<open>The invariant\<close>

text \<open>The files while they are being written: those of the threads that have passed \<open>Saving\<close>.\<close>

definition saved_files :: "('v \<Rightarrow> bytes) \<Rightarrow> u32 \<Rightarrow> (u32 \<Rightarrow> bool) \<Rightarrow> 'v chk_vm \<Rightarrow> bytes option \<Rightarrow> files \<Rightarrow> bool" where
  "saved_files enc n done cv f files \<longleftrightarrow> (let no = g_no_checkpoint (cv_globals cv) in
     (\<forall>t < n. done t \<longrightarrow> files (core_fname no t) = Some (enc (cv_cpus cv t))) \<and>
     (f \<noteq> None \<longrightarrow> files (mem_fname no) = f) \<and>
     (\<forall>name. (\<forall>t < n. done t \<longrightarrow> name \<noteq> core_fname no t) \<and> (f \<noteq> None \<longrightarrow> name \<noteq> mem_fname no) \<longrightarrow> files name = cv_files cv name))"

definition waiting_inv :: "u32 \<Rightarrow> u32 \<Rightarrow> 'v proto \<Rightarrow> bool" where
  "waiting_inv n l s \<longleftrightarrow> p_at s l = Bar1 \<and> \<not> p_pending s l \<and>
     (\<forall>t < n. t \<noteq> l \<longrightarrow> p_at s t = Running \<and> p_pending s t \<or> p_at s t = Bar1 \<and> \<not> p_pending s t)"

definition dump_ok :: "(bytes \<Rightarrow> bytes \<Rightarrow> bool) \<Rightarrow> 'v chk_vm \<Rightarrow> bytes \<times> gmem \<times> bytes \<Rightarrow> bool" where
  "dump_ok ok cv d \<longleftrightarrow> (case d of (clock, m, f) \<Rightarrow>
     write_chk_mem ok (g_full_checkpoint (cv_globals cv)) (g_no_checkpoint (cv_globals cv)) clock (cv_mem cv) = (m, Some f))"

definition saving_inv :: "('v \<Rightarrow> bytes) \<Rightarrow> (bytes \<Rightarrow> bytes \<Rightarrow> bool) \<Rightarrow> u32 \<Rightarrow> u32 \<Rightarrow> 'v proto \<Rightarrow> bool" where
  "saving_inv enc ok n l s \<longleftrightarrow> (\<forall>t < n. p_at s t \<in> {Saving, Bar2} \<and> \<not> p_pending s t) \<and>
     p_globals s = cv_globals (p_snap s) \<and> cv_cpus (p_vm s) = cv_cpus (p_snap s) \<and>
     saved_files enc n (\<lambda>t. p_at s t = Bar2) (p_snap s) (map_option (\<lambda>(_, _, f). f) (p_dump s)) (cv_files (p_vm s)) \<and>
     (if p_at s l = Saving then p_dump s = None \<and> cv_mem (p_vm s) = cv_mem (p_snap s)
      else \<exists>d. p_dump s = Some d \<and> dump_ok ok (p_snap s) d)"

definition closing_inv :: "('v \<Rightarrow> bytes) \<Rightarrow> (bytes \<Rightarrow> bytes \<Rightarrow> bool) \<Rightarrow> u32 \<Rightarrow> u32 \<Rightarrow> 'v proto \<Rightarrow> bool" where
  "closing_inv enc ok n l s \<longleftrightarrow> p_at s l = Config \<and> (\<forall>t < n. \<not> p_pending s t \<and> (t \<noteq> l \<longrightarrow> p_at s t = Running)) \<and>
     p_globals s = cv_globals (p_snap s) \<and>
     (\<exists>d. dump_ok ok (p_snap s) d \<and> saved_files enc n (\<lambda>_. True) (p_snap s) (Some (snd (snd d))) (cv_files (p_vm s)))"

definition proto_inv :: "('v \<Rightarrow> bytes) \<Rightarrow> (bytes \<Rightarrow> bytes \<Rightarrow> bool) \<Rightarrow> u32 \<Rightarrow> 'v proto \<Rightarrow> bool" where
  "proto_inv enc ok n s \<longleftrightarrow> g_ncores (p_globals s) = n \<and> (case p_leader s of
       None \<Rightarrow> \<forall>t < n. p_at s t = Running \<and> \<not> p_pending s t
     | Some l \<Rightarrow> l < n \<and> (waiting_inv n l s \<or> saving_inv enc ok n l s \<or> closing_inv enc ok n l s))"

lemma saved_files_cpu:
  assumes "saved_files enc n done cv f files" and "t < n"
  shows "saved_files enc n (done(t := True)) cv f (write_cpu_state enc (g_no_checkpoint (cv_globals cv)) t (cv_cpus cv t) files)"
  using assms by (auto simp: saved_files_def Let_def write_cpu_state_def core_fname_inject mem_core_fname)

lemmas core_mem_fname = mem_core_fname [symmetric]

lemma saved_files_mem:
  assumes "saved_files enc n done cv None files"
  shows "saved_files enc n done cv (Some f) (files(mem_fname (g_no_checkpoint (cv_globals cv)) \<mapsto> f))"
  using assms by (auto simp: saved_files_def Let_def mem_core_fname core_mem_fname)

lemma saved_files_cong: "(\<And>t. t < n \<Longrightarrow> done t = done' t) \<Longrightarrow> saved_files enc n done cv f files = saved_files enc n done' cv f files"
proof -
  assume eq: "\<And>t. t < n \<Longrightarrow> done t = done' t"
  have "(\<forall>t < n. done t \<longrightarrow> P t) = (\<forall>t < n. done' t \<longrightarrow> P t)" for P
    using eq by simp
  then show ?thesis
    by (simp only: saved_files_def)
qed

lemma saved_files_start: "saved_files enc n (\<lambda>_. False) cv None (cv_files cv)"
  by (simp add: saved_files_def)

subsection \<open>Every step keeps it\<close>

lemma inv_guest:
  assumes "proto_inv enc ok n s" and "t < n" and "p_at s t = Running"
  shows "proto_inv enc ok n (guest_step t m v s)"
proof (cases "p_leader s")
  case (Some l)
  have "\<not> saving_inv enc ok n l s"
    using assms(2,3) by (auto simp: saving_inv_def)
  then show ?thesis
    using assms Some by (auto simp: proto_inv_def guest_step_def waiting_inv_def closing_inv_def)
qed (use assms in \<open>simp add: proto_inv_def guest_step_def\<close>)

lemma inv_alarm:
  assumes "proto_inv enc ok n s" and "t < n" and "p_at s t = Running" and "p_leader s = None"
  shows "proto_inv enc ok n (alarm n t s)"
  using assms by (auto simp: proto_inv_def alarm_def waiting_inv_def)

lemma inv_signal:
  assumes "proto_inv enc ok n s" and "t < n" and "p_at s t = Running" and "p_pending s t"
  shows "proto_inv enc ok n (take_signal t s)"
proof -
  obtain l where l: "p_leader s = Some l" "l < n" "waiting_inv n l s"
    using assms by (auto simp: proto_inv_def saving_inv_def closing_inv_def split: option.splits)
  then have "t \<noteq> l" using assms(3) by (auto simp: waiting_inv_def)
  with l assms show ?thesis
    by (auto simp: proto_inv_def take_signal_def waiting_inv_def)
qed

lemma inv_first:
  assumes "proto_inv enc ok n s" and "all_at n s Bar1" and "p_leader s = Some l"
  shows "proto_inv enc ok n (open_first n s)"
proof -
  have l: "l < n" using assms by (simp add: proto_inv_def)
  have b: "\<And>t. t < n \<Longrightarrow> p_at s t = Bar1" using assms(2) by (simp add: all_at_def)
  then have w: "waiting_inv n l s"
    using assms l by (fastforce simp: proto_inv_def saving_inv_def closing_inv_def)
  have "saved_files enc n (\<lambda>t. (if t < n then Saving else p_at s t) = Bar2) (p_vm s) None (cv_files (p_vm s))"
    by (rule saved_files_cong [THEN iffD1, OF _ saved_files_start]) simp
  then have "saving_inv enc ok n l (open_first n s)"
    using w b l by (auto simp: saving_inv_def open_first_def waiting_inv_def)
  then show ?thesis
    using assms l by (simp add: proto_inv_def open_first_def)
qed

lemma saving_case:
  assumes "proto_inv enc ok n s" and "p_leader s = Some l" and "t < n" and "p_at s t = Saving \<or> p_at s t = Bar2"
  shows "saving_inv enc ok n l s"
  using assms by (auto simp: proto_inv_def waiting_inv_def closing_inv_def)

lemma inv_cpu:
  assumes "proto_inv enc ok n s" and "t < n" and "p_at s t = Saving" and "p_leader s \<noteq> Some t"
  shows "proto_inv enc ok n (save_cpu enc t s)"
proof -
  obtain l where l: "p_leader s = Some l" "l < n" "l \<noteq> t"
    using assms by (auto simp: proto_inv_def split: option.splits)
  have sv: "saving_inv enc ok n l s"
    using saving_case [OF assms(1) l(1) assms(2)] assms(3) by simp
  let ?f = "map_option (\<lambda>(_, _, f). f) (p_dump s)"
  have "saved_files enc n ((\<lambda>t. p_at s t = Bar2)(t := True)) (p_snap s) ?f
      (write_cpu_state enc (p_no s) t (cv_cpus (p_vm s) t) (cv_files (p_vm s)))"
    using saved_files_cpu [of enc n "\<lambda>t. p_at s t = Bar2" "p_snap s" ?f, OF _ assms(2)] sv by (simp add: saving_inv_def)
  then have "saved_files enc n (\<lambda>i. ((p_at s)(t := Bar2)) i = Bar2) (p_snap s) ?f
      (write_cpu_state enc (p_no s) t (cv_cpus (p_vm s) t) (cv_files (p_vm s)))"
    by (rule saved_files_cong [THEN iffD1, rotated]) simp
  then have "saving_inv enc ok n l (save_cpu enc t s)"
    using sv l assms(2,3) by (auto simp: saving_inv_def save_cpu_def)
  then show ?thesis
    using assms(1) l by (simp add: proto_inv_def save_cpu_def)
qed

lemma inv_mem:
  assumes "proto_inv enc ok n s" and "p_leader s = Some t" and "p_at s t = Saving"
    and "write_chk_mem ok (g_full_checkpoint (p_globals s)) (p_no s) clock (cv_mem (p_vm s)) = (m, Some f)"
  shows "proto_inv enc ok n (save_mem enc clock m f t s)"
proof -
  have t: "t < n" using assms by (simp add: proto_inv_def)
  have sv: "saving_inv enc ok n t s"
    using saving_case [OF assms(1,2) t] assms(3) by simp
  have at: "\<forall>t < n. p_at s t \<in> {Saving, Bar2} \<and> \<not> p_pending s t" and g: "p_globals s = cv_globals (p_snap s)"
    and c: "cv_cpus (p_vm s) = cv_cpus (p_snap s)" and d: "p_dump s = None" and mm: "cv_mem (p_vm s) = cv_mem (p_snap s)"
    using sv assms(3) by (simp_all add: saving_inv_def)
  have "saved_files enc n (\<lambda>t. p_at s t = Bar2) (p_snap s) (map_option (\<lambda>(_, _, f). f) (p_dump s)) (cv_files (p_vm s))"
    using sv by (simp only: saving_inv_def)
  then have fs: "saved_files enc n (\<lambda>t. p_at s t = Bar2) (p_snap s) None (cv_files (p_vm s))"
    by (simp add: d)
  let ?fs = "write_cpu_state enc (g_no_checkpoint (cv_globals (p_snap s))) t (cv_cpus (p_snap s) t) (cv_files (p_vm s))"
  have "saved_files enc n ((\<lambda>t. p_at s t = Bar2)(t := True)) (p_snap s) (Some f)
      (?fs(mem_fname (g_no_checkpoint (cv_globals (p_snap s))) \<mapsto> f))"
    by (intro saved_files_mem saved_files_cpu fs t)
  then have "saved_files enc n (\<lambda>i. ((p_at s)(t := Bar2)) i = Bar2) (p_snap s) (Some f)
      (?fs(mem_fname (g_no_checkpoint (cv_globals (p_snap s))) \<mapsto> f))"
    by (rule saved_files_cong [THEN iffD1, rotated]) simp
  moreover have "dump_ok ok (p_snap s) (clock, m, f)"
    using assms(4) by (simp add: dump_ok_def g mm)
  ultimately have "saving_inv enc ok n t (save_mem enc clock m f t s)"
    using at g c by (simp add: saving_inv_def save_mem_def save_cpu_def Let_def)
  then show ?thesis
    using assms(1,2) by (simp add: proto_inv_def save_mem_def save_cpu_def Let_def)
qed

lemma inv_second:
  assumes "proto_inv enc ok n s" and "all_at n s Bar2" and "p_leader s = Some l"
  shows "proto_inv enc ok n (open_second n l s)"
proof -
  have l: "l < n" using assms by (simp add: proto_inv_def)
  have b: "\<And>t. t < n \<Longrightarrow> p_at s t = Bar2" using assms(2) by (simp add: all_at_def)
  have sv: "saving_inv enc ok n l s"
    using saving_case [OF assms(1,3) l] b [OF l] by simp
  then obtain clock m f where d: "p_dump s = Some (clock, m, f)" "dump_ok ok (p_snap s) (clock, m, f)"
    using b [OF l] by (auto simp: saving_inv_def)
  have "saved_files enc n (\<lambda>t. p_at s t = Bar2) (p_snap s) (Some f) (cv_files (p_vm s))"
    using sv d(1) by (simp add: saving_inv_def)
  then have "saved_files enc n (\<lambda>_. True) (p_snap s) (Some f) (cv_files (p_vm s))"
    by (rule saved_files_cong [THEN iffD1, rotated]) (simp add: b)
  then have "\<exists>d. dump_ok ok (p_snap s) d \<and> saved_files enc n (\<lambda>_. True) (p_snap s) (Some (snd (snd d))) (cv_files (p_vm s))"
    using d(2) by (intro exI [of _ "(clock, m, f)"]) simp
  then have "closing_inv enc ok n l (open_second n l s)"
    using sv l by (simp add: closing_inv_def open_second_def saving_inv_def)
  then show ?thesis
    using assms(1,3) l by (simp add: proto_inv_def open_second_def)
qed

lemma closing_case:
  assumes "proto_inv enc ok n s" and "p_leader s = Some t" and "p_at s t = Config"
  shows "closing_inv enc ok n t s"
  using assms by (auto simp: proto_inv_def waiting_inv_def saving_inv_def)

lemma inv_config:
  assumes "proto_inv enc ok n s" and "p_leader s = Some t" and "p_at s t = Config"
  shows "proto_inv enc ok n (write_config t s)"
  using closing_case [OF assms] assms by (auto simp: proto_inv_def write_config_def closing_inv_def)

lemma chk_step_inv: "chk_step enc ok n s s' \<Longrightarrow> proto_inv enc ok n s \<Longrightarrow> proto_inv enc ok n s'"
  by (induction rule: chk_step.induct) (auto intro: inv_signal inv_first inv_cpu inv_mem inv_second inv_config)

lemma sys_step_inv: "sys_step enc ok n s s' \<Longrightarrow> proto_inv enc ok n s \<Longrightarrow> proto_inv enc ok n s'"
  by (induction rule: sys_step.induct) (auto intro: inv_guest inv_alarm chk_step_inv)

lemma reachable_inv: "reachable enc ok cv s \<Longrightarrow> proto_inv enc ok (g_ncores (cv_globals cv)) s"
proof (induction rule: reachable.induct)
  case start
  then show ?case by (simp add: proto_inv_def proto_init_def)
next
  case (step s s')
  then show ?case by (blast intro: sys_step_inv)
qed

section \<open>Refinement of the sequential handler\<close>

lemma nat_of_thread: "t < n \<Longrightarrow> unat t < unat n \<and> word_of_nat (unat t) = (t :: u32)"
  by (simp add: word_less_nat_alt)

lemma saved_files_unique:
  assumes "saved_files enc n (\<lambda>_. True) cv (Some f) files" and "no = g_no_checkpoint (cv_globals cv)"
  shows "files = (write_cpu_states enc no (unat n) (cv_cpus cv) (cv_files cv))(mem_fname no \<mapsto> f)"
proof
  fix name
  let ?w = "write_cpu_states enc no (unat n) (cv_cpus cv) (cv_files cv)"
  have n32: "unat n \<le> 2 ^ 32" using unat_less_exp [of n] by simp
  show "files name = (?w(mem_fname no \<mapsto> f)) name"
  proof (cases "\<exists>t < n. name = core_fname no t")
    case True
    then obtain t where t: "t < n" "name = core_fname no t" by blast
    then have "?w name = Some (enc (cv_cpus cv t))"
      using write_cpu_states_core [OF _ n32, of "unat t" enc no "cv_cpus cv" "cv_files cv"] nat_of_thread [OF t(1)] by simp
    moreover have "files name = Some (enc (cv_cpus cv t))"
      using assms t by (auto simp: saved_files_def Let_def)
    ultimately show ?thesis
      using t(2) core_mem_fname by simp
  next
    case False
    have "?w name = cv_files cv name"
    proof -
      have "write_cpu_states enc no k (cv_cpus cv) (cv_files cv) name = cv_files cv name" if "k \<le> unat n" for k
        using that
      proof (induction k)
        case (Suc k)
        have "unat (word_of_nat k :: u32) = k"
          using Suc.prems n32 by (simp add: unat_of_nat)
        then have "(word_of_nat k :: u32) < n"
          using Suc.prems by (simp add: word_less_nat_alt)
        then have "name \<noteq> core_fname no (word_of_nat k)"
          using False by blast
        with Suc show ?case
          by (simp add: write_cpu_states_def write_cpu_state_def)
      qed (simp add: write_cpu_states_def)
      then show ?thesis by simp
    qed
    then show ?thesis
      using False assms by (auto simp: saved_files_def Let_def)
  qed
qed

section \<open>Progress\<close>

text \<open>What a thread still has to do, and a bound of the steps of the protocol that are to come.\<close>

fun work :: "place \<Rightarrow> nat" where
  "work Running = 4" | "work Bar1 = 3" | "work Saving = 2" | "work Bar2 = 1" | "work Config = 0"

definition steps_left :: "u32 \<Rightarrow> 'v proto \<Rightarrow> nat" where
  "steps_left n s = (case p_leader s of
       None \<Rightarrow> 0
     | Some l \<Rightarrow> if p_at s l = Config then 1 else 1 + (\<Sum>t \<in> {t. t < n}. work (p_at s t)))"

lemma work_update:
  "t < n \<Longrightarrow> work v < work (at t) \<Longrightarrow> (\<Sum>i \<in> {i :: u32. i < n}. work ((at(t := v)) i)) < (\<Sum>i \<in> {i. i < n}. work (at i))"
  by (rule sum_strict_mono_ex1) auto

lemma work_all:
  "l < n \<Longrightarrow> (\<And>t. t < n \<Longrightarrow> work (at' t) < work (at t)) \<Longrightarrow>
     (\<Sum>i \<in> {i :: u32. i < n}. work (at' i)) < (\<Sum>i \<in> {i. i < n}. work (at i))"
  by (rule sum_strict_mono) auto

lemma steps_left_decreases:
  assumes "chk_step enc ok n s s'" and "proto_inv enc ok n s"
  shows "steps_left n s' < steps_left n s"
  using assms
proof (induction rule: chk_step.induct)
  case (signal t s)
  then obtain l where l: "p_leader s = Some l" "waiting_inv n l s"
    by (auto simp: proto_inv_def saving_inv_def closing_inv_def split: option.splits)
  with signal have "l \<noteq> t" "p_at s l \<noteq> Config" by (auto simp: waiting_inv_def)
  with l signal work_update [of t n Bar1 "p_at s"] show ?case
    by (simp add: steps_left_def take_signal_def)
next
  case (first s)
  then obtain l where l: "p_leader s = Some l" "l < n" by (auto simp: proto_inv_def)
  have "(\<Sum>i \<in> {i. i < n}. work (if i < n then Saving else p_at s i)) < (\<Sum>i \<in> {i. i < n}. work (p_at s i))"
    using first l by (intro work_all [of l]) (auto simp: all_at_def)
  then show ?case
    using l first by (simp add: steps_left_def open_first_def all_at_def)
next
  case (cpu t s)
  then obtain l where l: "p_leader s = Some l" "l \<noteq> t" by (auto simp: proto_inv_def split: option.splits)
  have "saving_inv enc ok n l s"
    using saving_case [OF cpu(4) l(1) cpu(1)] cpu(2) by simp
  then have "p_at s l \<noteq> Config"
    using l cpu(4) by (auto simp: saving_inv_def proto_inv_def)
  then show ?case
    using l cpu work_update [of t n Bar2 "p_at s"] by (simp add: steps_left_def save_cpu_def)
next
  case (mem s t clock m f)
  then have "t < n" by (simp add: proto_inv_def)
  then show ?case
    using mem work_update [of t n Bar2 "p_at s"] by (simp add: steps_left_def save_mem_def save_cpu_def Let_def)
next
  case (second s t)
  then have t: "t < n" "p_at s t = Bar2" by (auto simp: proto_inv_def all_at_def)
  then have "0 < (\<Sum>i \<in> {i. i < n}. work (p_at s i))"
    by (intro sum_pos2 [of _ t]) auto
  then show ?case
    using second t by (simp add: steps_left_def open_second_def)
next
  case (config s t)
  then show ?case by (simp add: steps_left_def write_config_def)
qed

lemma protocol_enabled:
  assumes "proto_inv enc (\<lambda>_ _. True) n s" and "p_leader s \<noteq> None"
  shows "\<exists>s'. chk_step enc (\<lambda>_ _. True) n s s'"
proof -
  obtain l where l: "p_leader s = Some l" "l < n"
    and inv3: "waiting_inv n l s \<or> saving_inv enc (\<lambda>_ _. True) n l s \<or> closing_inv enc (\<lambda>_ _. True) n l s"
    using assms by (auto simp: proto_inv_def)
  from inv3 consider (waiting) "waiting_inv n l s" | (saving) "saving_inv enc (\<lambda>_ _. True) n l s" | (closing) "closing_inv enc (\<lambda>_ _. True) n l s"
    by blast
  then show ?thesis
  proof cases
    case waiting
    show ?thesis
    proof (cases "all_at n s Bar1")
      case True
      then show ?thesis using chk_step.first l(1) by blast
    next
      case False
      then obtain t where "t < n" "p_at s t \<noteq> Bar1" by (auto simp: all_at_def)
      with waiting have "p_at s t = Running" "p_pending s t" by (auto simp: waiting_inv_def)
      with \<open>t < n\<close> show ?thesis using chk_step.signal by blast
    qed
  next
    case saving
    show ?thesis
    proof (cases "all_at n s Bar2")
      case True
      then show ?thesis using chk_step.second l(1) by blast
    next
      case False
      then obtain t where t: "t < n" "p_at s t \<noteq> Bar2" by (auto simp: all_at_def)
      with saving have at: "p_at s t = Saving" by (auto simp: saving_inv_def)
      obtain m f where "write_chk_mem (\<lambda>_ _. True) (g_full_checkpoint (p_globals s)) (p_no s) [] (cv_mem (p_vm s)) = (m, Some f)"
        using write_never_fails by blast
      then show ?thesis
        using t(1) at l(1) chk_step.cpu [of t n s] chk_step.mem [of s t] by (cases "t = l") blast+
    qed
  next
    case closing
    then show ?thesis using chk_step.config [of s l] l(1) by (auto simp: closing_inv_def)
  qed
qed

lemma steps_left_mono:
  assumes "sys_step enc ok n s s'" and "proto_inv enc ok n s" and "p_leader s \<noteq> None"
  shows "steps_left n s' \<le> steps_left n s"
  using assms
proof (induction rule: sys_step.induct)
  case (guest t s m v)
  then show ?case by (auto simp: steps_left_def guest_step_def)
next
  case (protocol s s')
  then show ?case using steps_left_decreases less_imp_le by blast
qed simp

section \<open>A run\<close>

text \<open>One vCPU writes a checkpoint.\<close>

definition one_core :: "u64 chk_vm" where
  "one_core = \<lparr>cv_globals = default_globals, cv_mem = quad 7, cv_cpus = \<lambda>_. 42, cv_files = \<lambda>_. None\<rparr>"

definition one_dump :: "gmem \<times> bytes option" where
  "one_dump = write_chk_mem (\<lambda>_ _. True) False 0 (replicate 48 0) (quad 7)"

definition run1 :: "u64 proto" where "run1 = alarm 1 0 (proto_init one_core)"
definition run2 :: "u64 proto" where "run2 = open_first 1 run1"
definition run3 :: "u64 proto" where "run3 = save_mem enc64 (replicate 48 0) (fst one_dump) (the (snd one_dump)) 0 run2"
definition run4 :: "u64 proto" where "run4 = open_second 1 0 run3"
definition run5 :: "u64 proto" where "run5 = write_config 0 run4"

lemmas run_defs = run1_def run2_def run3_def run4_def run5_def step_defs proto_init_def one_core_def default_globals_def Let_def

lemma less_one [simp]: "(t :: u32) < 1 \<longleftrightarrow> t = 0"
  by (simp add: word_less_1)

lemma run_steps:
  "sys_step enc64 (\<lambda>_ _. True) 1 (proto_init one_core) run1"
  "chk_step enc64 (\<lambda>_ _. True) 1 run1 run2"
  "chk_step enc64 (\<lambda>_ _. True) 1 run2 run3"
  "chk_step enc64 (\<lambda>_ _. True) 1 run3 run4"
  "chk_step enc64 (\<lambda>_ _. True) 1 run4 run5"
proof -
  show "sys_step enc64 (\<lambda>_ _. True) 1 (proto_init one_core) run1"
    unfolding run1_def by (rule sys_step.timer) (simp_all add: proto_init_def)
  show "chk_step enc64 (\<lambda>_ _. True) 1 run1 run2"
    unfolding run2_def by (rule chk_step.first) (simp_all add: run_defs all_at_def)
  show "chk_step enc64 (\<lambda>_ _. True) 1 run2 run3"
  proof -
    obtain m f where d: "write_chk_mem (\<lambda>_ _. True) False 0 (replicate 48 0) (quad 7) = (m, Some f)"
      using write_never_fails by blast
    then have "fst one_dump = m" "the (snd one_dump) = f" by (simp_all add: one_dump_def)
    then show ?thesis
      unfolding run3_def using d by (intro chk_step.mem) (simp_all add: run_defs)
  qed
  show "chk_step enc64 (\<lambda>_ _. True) 1 run3 run4"
    unfolding run4_def by (rule chk_step.second) (simp_all add: run_defs all_at_def)
  show "chk_step enc64 (\<lambda>_ _. True) 1 run4 run5"
    unfolding run5_def by (rule chk_step.config) (simp_all add: run_defs)
qed

lemma run_reachable: "reachable enc64 (\<lambda>_ _. True) one_core s" if "s \<in> {run1, run2, run3, run4, run5}"
proof -
  have n: "g_ncores (cv_globals one_core) = 1" by (simp add: one_core_def default_globals_def)
  note go = reachable.step [where cv = one_core, unfolded n]
  have 1: "reachable enc64 (\<lambda>_ _. True) one_core run1" by (rule go [OF reachable.start run_steps(1)])
  have 2: "reachable enc64 (\<lambda>_ _. True) one_core run2" by (rule go [OF 1 sys_step.protocol [OF run_steps(2)]])
  have 3: "reachable enc64 (\<lambda>_ _. True) one_core run3" by (rule go [OF 2 sys_step.protocol [OF run_steps(3)]])
  have 4: "reachable enc64 (\<lambda>_ _. True) one_core run4" by (rule go [OF 3 sys_step.protocol [OF run_steps(4)]])
  have 5: "reachable enc64 (\<lambda>_ _. True) one_core run5" by (rule go [OF 4 sys_step.protocol [OF run_steps(5)]])
  show ?thesis using that 1 2 3 4 5 by auto
qed

lemma run_leaders: "p_leader run4 = Some 0" "p_leader run5 = None" "p_at run2 0 = Saving" "g_ncores (cv_globals one_core) = 1"
  by (simp_all add: run_defs)

section \<open>Properties\<close>

text \<open>
  C7.  The handlers of the vCPU threads, in whatever order they run, together do what the sequential \<open>timer_handler\<close> does at one
  instant: when the thread of the timer has finished, the files and the checkpoint number are those that \<open>timer_handler\<close> gives on the memory
  and CPU states at the moment the first barrier opened.
\<close>

theorem checkpoint_protocol_refines:
  assumes "reachable enc ok cv s" and "sys_step enc ok (g_ncores (cv_globals cv)) s s'" and "p_leader s \<noteq> None" and "p_leader s' = None"
  shows "\<exists>clock cv'. timer_handler enc ok clock (p_snap s) = Some cv' \<and> cv_files (p_vm s') = cv_files cv' \<and>
    cv_globals (p_vm s') = cv_globals cv'"
proof -
  let ?n = "g_ncores (cv_globals cv)"
  have pi: "proto_inv enc ok ?n s" using reachable_inv [OF assms(1)] .
  have "\<exists>t. p_leader s = Some t \<and> p_at s t = Config \<and> s' = write_config t s"
    using assms(2-4) by (cases rule: sys_step.cases) (auto elim!: chk_step.cases simp: step_defs Let_def)
  then obtain t where t: "p_leader s = Some t" "p_at s t = Config" "s' = write_config t s" by blast
  obtain clock m f where g: "p_globals s = cv_globals (p_snap s)" and d: "dump_ok ok (p_snap s) (clock, m, f)"
    and fs: "saved_files enc ?n (\<lambda>_. True) (p_snap s) (Some f) (cv_files (p_vm s))"
    using closing_case [OF pi t(1,2)] by (auto simp: closing_inv_def)
  have n: "g_ncores (cv_globals (p_snap s)) = ?n" using pi g by (simp add: proto_inv_def)
  let ?no = "g_no_checkpoint (cv_globals (p_snap s))"
  have "cv_files (p_vm s) = (write_cpu_states enc ?no (unat ?n) (cv_cpus (p_snap s)) (cv_files (p_snap s)))(mem_fname ?no \<mapsto> f)"
    by (rule saved_files_unique [OF fs refl])
  then show ?thesis
    using d g n t(3) by (intro exI [of _ clock]) (simp add: timer_handler_def dump_ok_def write_config_def Let_def)
qed

theorem checkpoint_protocol_refines_witness:
  "\<exists>clock cv'. timer_handler enc64 (\<lambda>_ _. True) clock (p_snap run4) = Some cv' \<and> cv_files (p_vm run5) = cv_files cv' \<and>
     cv_globals (p_vm run5) = cv_globals cv'"
proof -
  have "sys_step enc64 (\<lambda>_ _. True) (g_ncores (cv_globals one_core)) run4 run5"
    unfolding run_leaders by (rule sys_step.protocol [OF run_steps(5)])
  then show ?thesis
    using checkpoint_protocol_refines [OF run_reachable [of run4], of run5] by (simp add: run_leaders)
qed

text \<open>
  C8.  While any thread saves its state or the memory, no vCPU runs guest code, so what is saved does not change.
\<close>

theorem no_guest_while_saving:
  assumes "reachable enc ok cv s" and "t < g_ncores (cv_globals cv)" and "p_at s t = Saving" and "u < g_ncores (cv_globals cv)"
  shows "p_at s u \<noteq> Running \<and> cv_cpus (p_vm s) u = cv_cpus (p_snap s) u"
proof -
  have pi: "proto_inv enc ok (g_ncores (cv_globals cv)) s" using reachable_inv [OF assms(1)] .
  obtain l where l: "p_leader s = Some l"
    using pi assms(2,3) by (auto simp: proto_inv_def split: option.splits)
  have "saving_inv enc ok (g_ncores (cv_globals cv)) l s"
    using saving_case [OF pi l assms(2)] assms(3) by simp
  then show ?thesis using assms(4) by (auto simp: saving_inv_def)
qed

theorem no_guest_while_saving_witness: "p_at run2 0 \<noteq> Running \<and> cv_cpus (p_vm run2) 0 = cv_cpus (p_snap run2) 0"
  by (rule no_guest_while_saving [OF run_reachable, where t = 0]) (simp_all add: run_leaders)

text \<open>
  C9.  A checkpoint always completes: in an execution in which \<open>fwrite\<close> does not fail and an enabled protocol step is not put off
  forever, whatever the guest code in between, there is again and again a moment when no checkpoint is in progress.
\<close>

theorem checkpoint_completes:
  fixes f :: "nat \<Rightarrow> 'v proto"
  assumes "reachable enc (\<lambda>_ _. True) cv (f 0)" and "\<forall>i. sys_step enc (\<lambda>_ _. True) (g_ncores (cv_globals cv)) (f i) (f (Suc i))"
    and "\<forall>i. (\<exists>s'. chk_step enc (\<lambda>_ _. True) (g_ncores (cv_globals cv)) (f i) s') \<longrightarrow>
      (\<exists>j \<ge> i. chk_step enc (\<lambda>_ _. True) (g_ncores (cv_globals cv)) (f j) (f (Suc j)))"
  shows "\<exists>j \<ge> i. p_leader (f j) = None"
proof -
  let ?n = "g_ncores (cv_globals cv)" and ?ok = "\<lambda>_ _. True"
  have pi: "proto_inv enc ?ok ?n (f k)" for k
  proof -
    have "reachable enc ?ok cv (f k)"
      using assms(1,2) by (induction k) (auto intro: reachable.step)
    then show ?thesis by (rule reachable_inv)
  qed
  show ?thesis
  proof (induction "steps_left ?n (f i)" arbitrary: i rule: less_induct)
    case less
    show ?case
    proof (rule ccontr)
      assume no: "\<not> (\<exists>j \<ge> i. p_leader (f j) = None)"
      have busy: "p_leader (f k) \<noteq> None" if "i \<le> k" for k
      proof
        assume "p_leader (f k) = None"
        with that have "\<exists>j \<ge> i. p_leader (f j) = None" by (intro exI [of _ k] conjI)
        with no show False by contradiction
      qed
      obtain j where j: "i \<le> j" "chk_step enc ?ok ?n (f j) (f (Suc j))"
        using protocol_enabled [OF pi busy [of i]] assms(3) by blast
      have "steps_left ?n (f k) \<le> steps_left ?n (f i)" if "i \<le> k" for k
        using that
      proof (induction k rule: dec_induct)
        case (step k)
        then show ?case
          using steps_left_mono [OF assms(2) [rule_format] pi busy, of k] by simp
      qed simp
      then have "steps_left ?n (f (Suc j)) < steps_left ?n (f i)"
        using steps_left_decreases [OF j(2) pi] j(1) by (meson less_le_trans)
      from less.hyps [OF this] obtain k where "Suc j \<le> k" "p_leader (f k) = None" by blast
      with busy [of k] j(1) show False by simp
    qed
  qed
qed

definition one_run :: "nat \<Rightarrow> u64 proto" where
  "one_run i = [run1, run2, run3, run4, run5] ! min i 4"

theorem checkpoint_completes_witness: "\<exists>j \<ge> 0. p_leader (one_run j) = None"
proof (rule checkpoint_completes [where cv = one_core and enc = enc64])
  have idle: "guest_step 0 (cv_mem (p_vm run5)) (cv_cpus (p_vm run5) 0) run5 = run5"
    by (simp add: guest_step_def)
  have s5: "sys_step enc64 (\<lambda>_ _. True) 1 run5 run5"
  proof -
    have "sys_step enc64 (\<lambda>_ _. True) 1 run5 (guest_step 0 (cv_mem (p_vm run5)) (cv_cpus (p_vm run5) 0) run5)"
      by (rule sys_step.guest) (simp_all add: run_defs)
    then show ?thesis by (simp add: idle)
  qed
  have steps: "i < 4 \<Longrightarrow> chk_step enc64 (\<lambda>_ _. True) 1 (one_run i) (one_run (Suc i))" for i
    using run_steps(2-5) by (auto simp: one_run_def numeral_eq_Suc less_Suc_eq)
  have rest: "4 \<le> i \<Longrightarrow> one_run i = run5" for i
    by (simp add: one_run_def min_def numeral_eq_Suc)
  show "reachable enc64 (\<lambda>_ _. True) one_core (one_run 0)"
    by (rule run_reachable) (simp add: one_run_def)
  show "\<forall>i. sys_step enc64 (\<lambda>_ _. True) (g_ncores (cv_globals one_core)) (one_run i) (one_run (Suc i))"
  proof
    fix i show "sys_step enc64 (\<lambda>_ _. True) (g_ncores (cv_globals one_core)) (one_run i) (one_run (Suc i))"
      unfolding run_leaders using steps [of i] s5 rest [of i] rest [of "Suc i"] sys_step.protocol by (cases "i < 4") auto
  qed
  show "\<forall>i. (\<exists>s'. chk_step enc64 (\<lambda>_ _. True) (g_ncores (cv_globals one_core)) (one_run i) s') \<longrightarrow>
      (\<exists>j \<ge> i. chk_step enc64 (\<lambda>_ _. True) (g_ncores (cv_globals one_core)) (one_run j) (one_run (Suc j)))"
  proof (intro allI impI)
    fix i assume e: "\<exists>s'. chk_step enc64 (\<lambda>_ _. True) (g_ncores (cv_globals one_core)) (one_run i) s'"
    have "\<not> (\<exists>s'. chk_step enc64 (\<lambda>_ _. True) 1 run5 s')"
      by (auto elim!: chk_step.cases simp: run_defs all_at_def)
    then have "i < 4" using e rest [of i] unfolding run_leaders by (cases "i < 4") auto
    with steps show "\<exists>j \<ge> i. chk_step enc64 (\<lambda>_ _. True) (g_ncores (cv_globals one_core)) (one_run j) (one_run (Suc j))"
      unfolding run_leaders by blast
  qed
qed

end
