(* ===== verification/Thread_Sync.thy ===== *)
theory Thread_Sync
  imports Chk_Protocol
begin

text \<open>
  Two more places where the vCPU threads synchronise: the start of \<open>vcpu_loop\<close> after a restart, and the end of a migration,
  \<open>vcpu_thread_mig_handler\<close> of \<open>src/uhyve.c\<close> with the barrier part of \<open>migration_handler\<close>.  As in the theory \<open>Chk_Protocol\<close>,
  a barrier opens when all its threads have arrived.
\<close>

section \<open>Restoring the CPU states\<close>

datatype start_place = AtBarrier | Reading | Counting | Looping | Ended

record 'v start =
  r_at :: "u32 \<Rightarrow> start_place"
  r_no :: u32
  r_cpus :: "u32 \<Rightarrow> 'v option"

definition open_start :: "u32 \<Rightarrow> 'v start \<Rightarrow> 'v start" where
  "open_start n s = s\<lparr>r_at := (\<lambda>t. if t < n then Reading else r_at s t)\<rparr>"

text \<open>\<open>restore_cpu_state(read_cpu_state())\<close> in a thread; only the first vCPU goes on to count the checkpoints.\<close>

definition restore_step :: "(bytes \<Rightarrow> 'v) \<Rightarrow> nat \<Rightarrow> files \<Rightarrow> u32 \<Rightarrow> 'v start \<Rightarrow> 'v start" where
  "restore_step dec sz files t s = (case read_cpu_state dec sz (r_no s) t files of
       None \<Rightarrow> s\<lparr>r_at := (r_at s)(t := Ended)\<rparr>
     | Some v \<Rightarrow> s\<lparr>r_at := (r_at s)(t := if t = 0 then Counting else Looping), r_cpus := (r_cpus s)(t := Some v)\<rparr>)"

definition count_step :: "'v start \<Rightarrow> 'v start" where
  "count_step s = s\<lparr>r_no := r_no s + 1, r_at := (r_at s)(0 := Looping)\<rparr>"

inductive start_step :: "(bytes \<Rightarrow> 'v) \<Rightarrow> nat \<Rightarrow> files \<Rightarrow> u32 \<Rightarrow> 'v start \<Rightarrow> 'v start \<Rightarrow> bool"
  for dec sz files n where
  opens: "\<forall>t < n. r_at s t = AtBarrier \<Longrightarrow> start_step dec sz files n s (open_start n s)"
| restores: "t < n \<Longrightarrow> r_at s t = Reading \<Longrightarrow> start_step dec sz files n s (restore_step dec sz files t s)"
| counts: "0 < n \<Longrightarrow> r_at s 0 = Counting \<Longrightarrow> start_step dec sz files n s (count_step s)"

definition start_init :: "u32 \<Rightarrow> 'v start" where
  "start_init no = \<lparr>r_at = \<lambda>_. AtBarrier, r_no = no, r_cpus = \<lambda>_. None\<rparr>"

inductive starts :: "(bytes \<Rightarrow> 'v) \<Rightarrow> nat \<Rightarrow> files \<Rightarrow> u32 \<Rightarrow> u32 \<Rightarrow> 'v start \<Rightarrow> bool"
  for dec sz files n no where
  begins: "starts dec sz files n no (start_init no)"
| goes: "starts dec sz files n no s \<Longrightarrow> start_step dec sz files n s s' \<Longrightarrow> starts dec sz files n no s'"

text \<open>
  What a vCPU got is from the right checkpoint, as long as the first vCPU has not counted.
\<close>

definition start_inv :: "(bytes \<Rightarrow> 'v) \<Rightarrow> nat \<Rightarrow> files \<Rightarrow> u32 \<Rightarrow> 'v start \<Rightarrow> bool" where
  "start_inv dec sz files no s \<longleftrightarrow> (r_at s 0 = Looping \<or> r_no s = no) \<and> (r_at s 0 = Looping \<longrightarrow> r_no s = no + 1) \<and>
     (\<forall>t v. r_cpus s t = Some v \<longrightarrow> read_cpu_state dec sz no t files = Some v \<or> read_cpu_state dec sz (no + 1) t files = Some v)"

lemma start_step_inv:
  assumes "start_step dec sz files n s s'" and "start_inv dec sz files no s"
  shows "start_inv dec sz files no s'"
  using assms
proof (induction rule: start_step.induct)
  case (opens s)
  then show ?case by (auto simp: start_inv_def open_start_def)
next
  case (restores t s)
  then show ?case by (auto simp: start_inv_def restore_step_def split: option.splits)
next
  case (counts s)
  then show ?case by (auto simp: start_inv_def count_step_def)
qed

lemma starts_inv: "starts dec sz files n no s \<Longrightarrow> start_inv dec sz files no s"
proof (induction rule: starts.induct)
  case begins
  then show ?case by (simp add: start_inv_def start_init_def)
next
  case (goes s s')
  then show ?case by (blast intro: start_step_inv)
qed

section \<open>Stopping for a migration\<close>

datatype mig_place = Guest | AtBar | SavingState | AtMigBar | Held

datatype mig_thread = Precopy | AwaitStop | Sending

record 'v stopping =
  m_at :: "u32 \<Rightarrow> mig_place"
  m_signalled :: "u32 \<Rightarrow> bool"
  m_thread :: mig_thread
  m_mem :: gmem
  m_cpus :: "u32 \<Rightarrow> 'v"
  m_states :: "u32 \<Rightarrow> 'v option"

text \<open>\<open>migration_handler\<close> after the pre-copy phase: allocate the states, signal the vCPU threads, wait.\<close>

definition request_stop :: "u32 \<Rightarrow> 'v stopping \<Rightarrow> 'v stopping" where
  "request_stop n s = s\<lparr>m_thread := AwaitStop, m_states := (\<lambda>_. None), m_signalled := (\<lambda>t. t < n)\<rparr>"

text \<open>\<open>vcpu_thread_mig_handler\<close>: to the barrier, save the state, to \<open>migration_barrier\<close>.\<close>

definition enter_handler :: "u32 \<Rightarrow> 'v stopping \<Rightarrow> 'v stopping" where
  "enter_handler t s = s\<lparr>m_at := (m_at s)(t := AtBar), m_signalled := (m_signalled s)(t := False)\<rparr>"

definition open_bar :: "u32 \<Rightarrow> 'v stopping \<Rightarrow> 'v stopping" where
  "open_bar n s = s\<lparr>m_at := (\<lambda>t. if t < n then SavingState else m_at s t)\<rparr>"

definition save_state :: "u32 \<Rightarrow> 'v stopping \<Rightarrow> 'v stopping" where
  "save_state t s = s\<lparr>m_states := (m_states s)(t := Some (m_cpus s t)), m_at := (m_at s)(t := AtMigBar)\<rparr>"

definition open_mig_bar :: "u32 \<Rightarrow> 'v stopping \<Rightarrow> 'v stopping" where
  "open_mig_bar n s = s\<lparr>m_at := (\<lambda>t. if t < n then Held else m_at s t), m_thread := Sending\<rparr>"

lemmas stop_defs = request_stop_def enter_handler_def open_bar_def save_state_def open_mig_bar_def

inductive stop_step :: "u32 \<Rightarrow> 'v stopping \<Rightarrow> 'v stopping \<Rightarrow> bool" for n where
  runs: "t < n \<Longrightarrow> m_at s t = Guest \<Longrightarrow> stop_step n s (s\<lparr>m_mem := m, m_cpus := (m_cpus s)(t := v)\<rparr>)"
| requests: "m_thread s = Precopy \<Longrightarrow> stop_step n s (request_stop n s)"
| enters: "t < n \<Longrightarrow> m_at s t = Guest \<Longrightarrow> m_signalled s t \<Longrightarrow> stop_step n s (enter_handler t s)"
| opens_bar: "0 < n \<Longrightarrow> \<forall>t < n. m_at s t = AtBar \<Longrightarrow> stop_step n s (open_bar n s)"
| saves_state: "t < n \<Longrightarrow> m_at s t = SavingState \<Longrightarrow> stop_step n s (save_state t s)"
| opens_mig_bar: "\<forall>t < n. m_at s t = AtMigBar \<Longrightarrow> m_thread s = AwaitStop \<Longrightarrow> stop_step n s (open_mig_bar n s)"

definition stop_init :: "gmem \<Rightarrow> (u32 \<Rightarrow> 'v) \<Rightarrow> 'v stopping" where
  "stop_init mem cpus = \<lparr>m_at = \<lambda>_. Guest, m_signalled = \<lambda>_. False, m_thread = Precopy, m_mem = mem, m_cpus = cpus, m_states = \<lambda>_. None\<rparr>"

inductive stops :: "u32 \<Rightarrow> gmem \<Rightarrow> (u32 \<Rightarrow> 'v) \<Rightarrow> 'v stopping \<Rightarrow> bool" for n mem cpus where
  stops_init: "stops n mem cpus (stop_init mem cpus)"
| stops_step: "stops n mem cpus s \<Longrightarrow> stop_step n s s' \<Longrightarrow> stops n mem cpus s'"

text \<open>
  The vCPUs are all on their way to the barrier, all between the barriers, or all held.
\<close>

definition stop_inv :: "u32 \<Rightarrow> 'v stopping \<Rightarrow> bool" where
  "stop_inv n s \<longleftrightarrow> (case m_thread s of
       Precopy \<Rightarrow> \<forall>t < n. m_at s t = Guest \<and> \<not> m_signalled s t
     | AwaitStop \<Rightarrow> (\<forall>t < n. m_at s t = Guest \<and> m_signalled s t \<or> m_at s t = AtBar) \<or>
         (\<forall>t < n. m_at s t = SavingState \<or> m_at s t = AtMigBar \<and> m_states s t = Some (m_cpus s t))
     | Sending \<Rightarrow> \<forall>t < n. m_at s t = Held \<and> m_states s t = Some (m_cpus s t))"

lemma stop_step_inv:
  assumes "stop_step n s s'" and "stop_inv n s"
  shows "stop_inv n s'"
  using assms
proof (induction rule: stop_step.induct)
  case (runs t s m v)
  then show ?case by (cases "m_thread s") (fastforce simp: stop_inv_def)+
next
  case (requests s)
  then show ?case by (auto simp: stop_inv_def request_stop_def)
next
  case (enters t s)
  then show ?case by (cases "m_thread s") (fastforce simp: stop_inv_def enter_handler_def)+
next
  case (opens_bar s)
  then have "m_thread s = AwaitStop"
    by (cases "m_thread s") (fastforce simp: stop_inv_def)+
  then show ?case by (simp add: stop_inv_def open_bar_def)
next
  case (saves_state t s)
  then have "m_thread s = AwaitStop"
    by (cases "m_thread s") (fastforce simp: stop_inv_def)+
  with saves_state show ?case by (auto simp: stop_inv_def save_state_def)
next
  case (opens_mig_bar s)
  then show ?case by (auto simp: stop_inv_def open_mig_bar_def)
qed

lemma stops_inv: "stops n mem cpus s \<Longrightarrow> stop_inv n s"
proof (induction rule: stops.induct)
  case stops_init
  then show ?case by (simp add: stop_inv_def stop_init_def)
next
  case (stops_step s s')
  then show ?case by (blast intro: stop_step_inv)
qed

section \<open>Properties\<close>


lemma one_vcpu_stops:
  fixes s0 :: "u64 stopping"
  defines "s0 \<equiv> stop_init (\<lambda>_. 0) (\<lambda>_. 42)"
  shows "stops 1 (\<lambda>_. 0) (\<lambda>_. 42) (open_mig_bar 1 (save_state 0 (open_bar 1 (enter_handler 0 (request_stop 1 s0)))))"
proof -
  let ?s1 = "request_stop 1 s0" let ?s2 = "enter_handler 0 ?s1" let ?s3 = "open_bar 1 ?s2" let ?s4 = "save_state 0 ?s3"
  have 0: "stops 1 (\<lambda>_. 0) (\<lambda>_. 42) s0" unfolding s0_def by (rule stops_init)
  have 1: "stops 1 (\<lambda>_. 0) (\<lambda>_. 42) ?s1"
    by (rule stops_step [OF 0], rule requests) (simp add: s0_def stop_init_def)
  have 2: "stops 1 (\<lambda>_. 0) (\<lambda>_. 42) ?s2"
    by (rule stops_step [OF 1], rule enters) (simp_all add: s0_def stop_init_def request_stop_def)
  have 3: "stops 1 (\<lambda>_. 0) (\<lambda>_. 42) ?s3"
    by (rule stops_step [OF 2], rule opens_bar) (simp_all add: enter_handler_def)
  have 4: "stops 1 (\<lambda>_. 0) (\<lambda>_. 42) ?s4"
    by (rule stops_step [OF 3], rule saves_state) (simp_all add: open_bar_def)
  show ?thesis
    by (rule stops_step [OF 4], rule opens_mig_bar) (simp_all add: save_state_def open_bar_def enter_handler_def request_stop_def)
qed


text \<open>
  C40.  A race at a restart with more than one vCPU: the first vCPU counts \<open>no_checkpoint\<close> up without waiting for the others, so another
  vCPU can look for its state in the files of the next checkpoint, which do not exist, and the program ends.
\<close>

theorem restart_race:
  fixes dec :: "bytes \<Rightarrow> 'v"
  assumes "1 < n" and "read_cpu_state dec sz no 0 files = Some v" and "files (core_fname (no + 1) 1) = None"
  shows "\<exists>s. starts dec sz files n no s \<and> r_at s 1 = Ended"
proof -
  let ?s0 = "start_init no :: 'v start" let ?s1 = "open_start n ?s0" let ?s2 = "restore_step dec sz files 0 ?s1"
  let ?s3 = "count_step ?s2" let ?s4 = "restore_step dec sz files 1 ?s3"
  have n: "0 < n" using assms(1) by (metis less_trans word_neq_0_conv word_less_1)
  have r2: "?s2 = ?s1\<lparr>r_at := (r_at ?s1)(0 := Counting), r_cpus := (r_cpus ?s1)(0 := Some v)\<rparr>"
    using assms(2) by (simp add: restore_step_def open_start_def start_init_def)
  have 1: "starts dec sz files n no ?s1"
    by (rule goes [OF begins], rule opens) (simp add: start_init_def)
  have 2: "starts dec sz files n no ?s2"
    by (rule goes [OF 1], rule restores) (simp_all add: n open_start_def)
  have 3: "starts dec sz files n no ?s3"
    by (rule goes [OF 2], rule counts) (simp_all add: n r2)
  have s3: "r_at ?s3 1 = Reading" "r_no ?s3 = no + 1"
    unfolding r2 using assms(1) by (simp_all add: count_step_def open_start_def start_init_def)
  have 4: "starts dec sz files n no ?s4"
    by (rule goes [OF 3], rule restores) (simp_all only: assms(1) s3)
  have "r_at ?s4 1 = Ended"
    using assms(3) s3(2) by (simp add: restore_step_def [of _ _ _ 1] read_cpu_state_def)
  with 4 show ?thesis by blast
qed

definition two_core_files :: files where
  "two_core_files = [core_fname 3 0 \<mapsto> enc64 7, core_fname 3 1 \<mapsto> enc64 8]"

theorem restart_race_witness: "\<exists>s. starts dec64 8 two_core_files 2 3 s \<and> r_at s 1 = Ended"
proof (rule restart_race)
  show "read_cpu_state dec64 8 3 0 two_core_files = Some 7"
    by (simp add: read_cpu_state_def two_core_files_def core_fname_inject fread1_def c64.length_enc c64.dec_enc)
  show "two_core_files (core_fname (3 + 1) 1) = None"
    by (simp add: two_core_files_def core_fname_inject)
qed simp

end
