(* ===== verification/Main_Proxy.thy ===== *)
theory Main_Proxy
  imports Hypercalls Migration_Channel
begin

text \<open>
  The system call proxy of \<open>src/main.c\<close>: \<open>handle_syscalls\<close> reads requests of a HermitCore guest from a socket, calls the
  operating system and sends the results back, until the guest sends \<open>__HERMIT_exit\<close>.

  The socket is the record \<open>sock\<close> of the theory \<open>Migration_Channel\<close>, whose calls move any part of the data, and the operating system
  the record \<open>posix\<close> of the theory \<open>Hypercalls\<close>.  The loops may run forever (\<open>None\<close>).
\<close>

section \<open>The system calls\<close>

definition HERMIT_exit :: u32 where "HERMIT_exit = 0"
definition HERMIT_write :: u32 where "HERMIT_write = 1"
definition HERMIT_open :: u32 where "HERMIT_open = 2"
definition HERMIT_close :: u32 where "HERMIT_close = 3"
definition HERMIT_read :: u32 where "HERMIT_read = 4"
definition HERMIT_lseek :: u32 where "HERMIT_lseek = 5"

lemmas hermit_numbers = HERMIT_exit_def HERMIT_write_def HERMIT_open_def HERMIT_close_def HERMIT_read_def HERMIT_lseek_def

text \<open>The loops around \<open>read\<close> and \<open>write\<close> on the socket; \<open>None\<close> in the result and \<open>False\<close> are \<open>goto out\<close>.\<close>

partial_function (option) read_all :: "nat \<Rightarrow> bytes \<Rightarrow> sock \<Rightarrow> (bytes option \<times> sock) option" where
  "read_all n buf s =
    (if length buf < n
     then (case sock_recv s (n - length buf) of
             (sret, bs, s) \<Rightarrow> if sret < 0 then Some (None, s) else read_all n (buf @ bs) s)
     else Some (Some buf, s))"

partial_function (option) write_all :: "bytes \<Rightarrow> nat \<Rightarrow> sock \<Rightarrow> (bool \<times> sock) option" where
  "write_all buf j s =
    (if j < length buf
     then (case sock_send s (drop j buf) of
             (sret, s) \<Rightarrow> if sret < 0 then Some (False, s) else write_all buf (j + nat sret) s)
     else Some (True, s))"

text \<open>The loop of \<open>__HERMIT_write\<close> for the standard descriptors.\<close>

partial_function (option) write_std :: "'os posix \<Rightarrow> u32 \<Rightarrow> bytes \<Rightarrow> nat \<Rightarrow> 'os \<Rightarrow> (bool \<times> 'os) option" where
  "write_std px fd buf j os =
    (if j < length buf
     then (case px_write px os fd (drop j buf) of
             (sret, os) \<Rightarrow> if sint sret < 0 then Some (False, os) else write_std px fd buf (j + unat sret) os)
     else Some (True, os))"

text \<open>
  The state: the socket, whether it is closed and has \<open>TCP_NODELAY\<close> set, and the operating system.  Besides it the handlers depend on
  whether \<open>malloc\<close> succeeds and on what the heap holds behind a buffer, which \<open>open\<close> reads when a name is not terminated.
\<close>

record 'os proxy =
  px_sock :: sock
  px_closed :: bool
  px_nodelay :: bool
  px_os :: 'os

record 'os proxy_env =
  pe_posix :: "'os posix"
  pe_malloc :: "u64 \<Rightarrow> bool"
  pe_beyond :: bytes

text \<open>How \<open>handle_syscalls\<close> ends: at the label \<open>out\<close>, with the message on memory, or by \<open>exit\<close>.\<close>

datatype proxy_end = CommError | NoMemory | Exit u32

datatype 'os step = Next "'os proxy" | Ends proxy_end "'os proxy"

definition recv_then :: "nat \<Rightarrow> 'os proxy \<Rightarrow> (bytes \<Rightarrow> 'os proxy \<Rightarrow> 'os step option) \<Rightarrow> 'os step option" where
  "recv_then n p k = Option.bind (read_all n [] (px_sock p)) (\<lambda>(r, s).
     case r of None \<Rightarrow> Some (Ends CommError (p\<lparr>px_sock := s\<rparr>)) | Some bs \<Rightarrow> k bs (p\<lparr>px_sock := s\<rparr>))"

definition send_then :: "bytes \<Rightarrow> 'os proxy \<Rightarrow> ('os proxy \<Rightarrow> 'os step option) \<Rightarrow> 'os step option" where
  "send_then bs p k = Option.bind (write_all bs 0 (px_sock p)) (\<lambda>(ok, s).
     if ok then k (p\<lparr>px_sock := s\<rparr>) else Some (Ends CommError (p\<lparr>px_sock := s\<rparr>)))"

definition sys_exit :: "'os proxy \<Rightarrow> 'os step option" where
  "sys_exit p = recv_then 4 p (\<lambda>arg p. Some (Ends (Exit (dec32 arg)) (p\<lparr>px_closed := True\<rparr>)))"

definition sys_write :: "'os proxy_env \<Rightarrow> 'os proxy \<Rightarrow> 'os step option" where
  "sys_write e p =
    recv_then 4 p (\<lambda>fd p. recv_then 8 p (\<lambda>len p.
    if \<not> pe_malloc e (dec64 len) then Some (Ends NoMemory p)
    else recv_then (unat (dec64 len)) p (\<lambda>buff p.
      if sint (dec32 fd) > 2
      then let (sret, os) = px_write (pe_posix e) (px_os p) (dec32 fd) buff
           in send_then (enc64 sret) (p\<lparr>px_os := os\<rparr>) (\<lambda>p. Some (Next p))
      else Option.bind (write_std (pe_posix e) (dec32 fd) buff 0 (px_os p)) (\<lambda>(ok, os).
             Some (if ok then Next (p\<lparr>px_os := os\<rparr>) else Ends CommError (p\<lparr>px_os := os\<rparr>))))))"

definition sys_open :: "'os proxy_env \<Rightarrow> 'os proxy \<Rightarrow> 'os step option" where
  "sys_open e p =
    recv_then 8 p (\<lambda>len p.
    if \<not> pe_malloc e (dec64 len) then Some (Ends CommError p)
    else recv_then (unat (dec64 len)) p (\<lambda>fname p. recv_then 4 p (\<lambda>flags p. recv_then 4 p (\<lambda>mode p.
      let (ret, os) = px_open (pe_posix e) (px_os p) (takeWhile (\<lambda>b. b \<noteq> 0) (take PATH_MAX (fname @ pe_beyond e))) (dec32 flags) (dec32 mode)
      in send_then (enc32 ret) (p\<lparr>px_os := os\<rparr>) (\<lambda>p. Some (Next p))))))"

definition sys_close :: "'os proxy_env \<Rightarrow> 'os proxy \<Rightarrow> 'os step option" where
  "sys_close e p =
    recv_then 4 p (\<lambda>fd p.
      let (ret, os) = (if sint (dec32 fd) > 2 then px_close (pe_posix e) (px_os p) (dec32 fd) else (0, px_os p))
      in send_then (enc32 ret) (p\<lparr>px_os := os\<rparr>) (\<lambda>p. Some (Next p)))"

definition sys_read :: "'os proxy_env \<Rightarrow> 'os proxy \<Rightarrow> 'os step option" where
  "sys_read e p =
    recv_then 4 p (\<lambda>fd p. recv_then 8 p (\<lambda>len p.
    if \<not> pe_malloc e (dec64 len) then Some (Ends CommError p)
    else
      let (res, os) = px_read (pe_posix e) (px_os p) (dec32 fd) (unat (dec64 len));
          (sj, buff) = (case res of None \<Rightarrow> (-1, []) | Some bs \<Rightarrow> (word_of_nat (length bs), bs))
      in send_then (enc64 sj) (p\<lparr>px_os := os, px_nodelay := False\<rparr>) (\<lambda>p.
         if sint sj > 0
         then send_then (take (unat sj) buff) p (\<lambda>p. Some (Next (p\<lparr>px_nodelay := True\<rparr>)))
         else Some (Next (p\<lparr>px_nodelay := True\<rparr>)))))"

definition sys_lseek :: "'os proxy_env \<Rightarrow> 'os proxy \<Rightarrow> 'os step option" where
  "sys_lseek e p =
    recv_then 4 p (\<lambda>fd p. recv_then 8 p (\<lambda>offset p. recv_then 4 p (\<lambda>whence p.
      let (off, os) = px_lseek (pe_posix e) (px_os p) (dec32 fd) (dec64 offset) (dec32 whence)
      in send_then (enc64 off) (p\<lparr>px_os := os\<rparr>) (\<lambda>p. Some (Next p)))))"

text \<open>One turn of the loop.\<close>

definition syscall :: "'os proxy_env \<Rightarrow> 'os proxy \<Rightarrow> 'os step option" where
  "syscall e p = recv_then 4 p (\<lambda>bs p.
     let sysnr = dec32 bs
     in if sysnr = HERMIT_exit then sys_exit p
        else if sysnr = HERMIT_write then sys_write e p
        else if sysnr = HERMIT_open then sys_open e p
        else if sysnr = HERMIT_close then sys_close e p
        else if sysnr = HERMIT_read then sys_read e p
        else if sysnr = HERMIT_lseek then sys_lseek e p
        else Some (Ends (Exit 1) (p\<lparr>px_closed := True\<rparr>)))"

partial_function (option) handle_syscalls :: "'os proxy_env \<Rightarrow> 'os proxy \<Rightarrow> (proxy_end \<times> 'os proxy) option" where
  "handle_syscalls e p = Option.bind (syscall e p) (\<lambda>r. case r of
       Next p \<Rightarrow> handle_syscalls e p | Ends x p \<Rightarrow> Some (x, p))"

section \<open>The socket loops are a channel\<close>

definition put_msg :: "sock \<Rightarrow> bytes \<Rightarrow> sock option" where
  "put_msg s bs = Option.bind (write_all bs 0 s) (\<lambda>(ok, s). if ok then Some s else None)"

definition get_msg :: "sock \<Rightarrow> nat \<Rightarrow> (bytes \<times> sock) option" where
  "get_msg s n = Option.bind (read_all n [] s) (\<lambda>(r, s). map_option (\<lambda>bs. (bs, s)) r)"

lemma write_all_complete:
  assumes "no_errors s" and "j \<le> length buf"
  shows "\<exists>s'. write_all buf j s = Some (True, s') \<and> no_errors s' \<and> s_out s' = s_out s @ drop j buf \<and> s_in s' = s_in s"
  using assms
proof (induction "length buf - j" arbitrary: j s rule: less_induct)
  case less
  show ?case
  proof (cases "j < length buf")
    case False
    then show ?thesis using less.prems by (subst write_all.simps) auto
  next
    case True
    then have "0 < length (drop j buf)" by simp
    with less.prems(1) obtain k s1 where k: "io_take s (length (drop j buf)) = (Some k, s1)" "0 < k" "k \<le> length (drop j buf)"
      "no_errors s1" "s_in s1 = s_in s" "s_out s1 = s_out s" by (rule io_take_ok)
    let ?s = "s1\<lparr>s_out := s_out s1 @ take k (drop j buf)\<rparr>"
    have "write_all buf j s = write_all buf (j + k) ?s"
      using True k(1) by (subst write_all.simps) (simp add: sock_send_def)
    moreover have "no_errors ?s" using k(4) by (simp add: no_errors_def)
    moreover have "take k (drop j buf) @ drop (j + k) buf = drop j buf"
      by (metis add.commute append_take_drop_id drop_drop)
    ultimately show ?thesis
      using less.hyps [of "j + k" ?s] k True by auto
  qed
qed

lemma read_all_complete:
  assumes "no_errors s" and "length buf \<le> n" and "n - length buf \<le> length (s_in s)"
  shows "\<exists>s'. read_all n buf s = Some (Some (buf @ take (n - length buf) (s_in s)), s') \<and> no_errors s' \<and>
    s_in s' = drop (n - length buf) (s_in s) \<and> s_out s' = s_out s"
  using assms
proof (induction "n - length buf" arbitrary: buf s rule: less_induct)
  case less
  show ?case
  proof (cases "length buf < n")
    case False
    then show ?thesis using less.prems by (subst read_all.simps) auto
  next
    case True
    let ?n = "min (n - length buf) (length (s_in s))"
    have n: "?n = n - length buf" "0 < ?n" using True less.prems(3) by auto
    from less.prems(1) n(2) obtain k s1 where k: "io_take s ?n = (Some k, s1)" "0 < k" "k \<le> ?n"
      "no_errors s1" "s_in s1 = s_in s" "s_out s1 = s_out s" by (rule io_take_ok)
    let ?s = "s1\<lparr>s_in := drop k (s_in s)\<rparr>" and ?b = "buf @ take k (s_in s)"
    have "length ?b = length buf + k" using k(3) by simp
    moreover have "read_all n buf s = read_all n ?b ?s"
      using True k(1,5) by (subst read_all.simps) (simp add: sock_recv_def)
    moreover have "no_errors ?s" using k(4) by (simp add: no_errors_def)
    moreover have "take k (s_in s) @ take (n - (length buf + k)) (drop k (s_in s)) = take (n - length buf) (s_in s)"
    proof -
      have e: "n - length buf = k + (n - (length buf + k))"
        using k(3) n(1) by linarith
      show ?thesis by (subst e) (rule take_add [symmetric])
    qed
    ultimately show ?thesis
      using less.hyps [of ?b ?s] k n(1) less.prems(2,3) by auto
  qed
qed

interpretation proxy_io: channel no_errors s_out s_in put_msg get_msg
proof
  fix s bs assume "no_errors s" "length (bs :: bytes) < 2 ^ 64"
  then show "\<exists>s'. put_msg s bs = Some s' \<and> no_errors s' \<and> s_out s' = s_out s @ bs \<and> s_in s' = s_in s"
    using write_all_complete [of s 0 bs] by (auto simp: put_msg_def)
next
  fix s and n :: nat assume "no_errors s" "n \<le> length (s_in s)" "n < 2 ^ 64"
  then show "\<exists>s'. get_msg s n = Some (take n (s_in s), s') \<and> no_errors s' \<and> s_in s' = drop n (s_in s) \<and> s_out s' = s_out s"
    using read_all_complete [of s "[]" n] by (auto simp: get_msg_def)
qed

section \<open>What the proxy promises\<close>

text \<open>The requests as a client sends them.\<close>

datatype request =
    ReqWrite u32 bytes
  | ReqOpen bytes u32 u32
  | ReqClose u32
  | ReqRead u32 u64
  | ReqLseek u32 u64 u32

fun encode_request :: "request \<Rightarrow> bytes" where
  "encode_request (ReqWrite fd bs) = enc32 HERMIT_write @ enc32 fd @ enc64 (word_of_nat (length bs)) @ bs"
| "encode_request (ReqOpen name flags mode) =
     enc32 HERMIT_open @ enc64 (word_of_nat (length name + 1)) @ (name @ [0]) @ enc32 flags @ enc32 mode"
| "encode_request (ReqClose fd) = enc32 HERMIT_close @ enc32 fd"
| "encode_request (ReqRead fd len) = enc32 HERMIT_read @ enc32 fd @ enc64 len"
| "encode_request (ReqLseek fd offset whence) = enc32 HERMIT_lseek @ enc32 fd @ enc64 offset @ enc32 whence"

fun request_ok :: "request \<Rightarrow> bool" where
  "request_ok (ReqWrite fd bs) = (length bs < 2 ^ 64)"
| "request_ok (ReqOpen name flags mode) = (0 \<notin> set name \<and> length name < PATH_MAX)"
| "request_ok (ReqRead fd len) = (len < 2 ^ 63)"
| "request_ok _ = True"

text \<open>The answer to a request and its effect; \<open>put\<close> is the effect of data written to a standard descriptor.\<close>

fun serve :: "'os posix \<Rightarrow> ('os \<Rightarrow> u32 \<Rightarrow> bytes \<Rightarrow> 'os) \<Rightarrow> request \<Rightarrow> 'os \<Rightarrow> bytes \<times> 'os" where
  "serve px put (ReqWrite fd bs) os =
    (if sint fd > 2 then (case px_write px os fd bs of (r, os) \<Rightarrow> (enc64 r, os)) else ([], put os fd bs))"
| "serve px put (ReqOpen name flags mode) os = (case px_open px os name flags mode of (r, os) \<Rightarrow> (enc32 r, os))"
| "serve px put (ReqClose fd) os = (if sint fd > 2 then (case px_close px os fd of (r, os) \<Rightarrow> (enc32 r, os)) else (enc32 0, os))"
| "serve px put (ReqRead fd len) os = (case px_read px os fd (unat len) of
       (None, os) \<Rightarrow> (enc64 (-1), os)
     | (Some bs, os) \<Rightarrow> (enc64 (word_of_nat (length bs)) @ bs, os))"
| "serve px put (ReqLseek fd offset whence) os = (case px_lseek px os fd offset whence of (r, os) \<Rightarrow> (enc64 r, os))"

fun serve_all :: "'os posix \<Rightarrow> ('os \<Rightarrow> u32 \<Rightarrow> bytes \<Rightarrow> 'os) \<Rightarrow> request list \<Rightarrow> 'os \<Rightarrow> bytes \<times> 'os" where
  "serve_all px put [] os = ([], os)"
| "serve_all px put (r # rs) os = (case serve px put r os of (a, os) \<Rightarrow> case serve_all px put rs os of (b, os) \<Rightarrow> (a @ b, os))"

text \<open>
  POSIX: a \<open>write\<close> to a standard descriptor takes a part of the data, and writing the parts is writing the whole; a \<open>read\<close>
  returns at most what was asked for.
\<close>

definition std_contract :: "'os posix \<Rightarrow> ('os \<Rightarrow> u32 \<Rightarrow> bytes \<Rightarrow> 'os) \<Rightarrow> bool" where
  "std_contract px put \<longleftrightarrow>
    (\<forall>os fd. put os fd [] = os) \<and> (\<forall>os fd a b. put os fd (a @ b) = put (put os fd a) fd b) \<and>
    (\<forall>os fd bs. bs \<noteq> [] \<and> sint fd \<le> 2 \<longrightarrow>
       (\<exists>k. 0 < k \<and> k \<le> length bs \<and> k < 2 ^ 63 \<and> px_write px os fd bs = (word_of_nat k, put os fd (take k bs))))"

definition read_bound :: "'os posix \<Rightarrow> bool" where
  "read_bound px \<longleftrightarrow> (\<forall>os fd n bs os'. px_read px os fd n = (Some bs, os') \<longrightarrow> length bs \<le> n)"

section \<open>Lemmas\<close>

definition conn :: "'os proxy \<Rightarrow> bytes \<Rightarrow> bytes \<Rightarrow> 'os \<Rightarrow> bool" where
  "conn p i out os \<longleftrightarrow> no_errors (px_sock p) \<and> s_in (px_sock p) = i \<and> s_out (px_sock p) = out \<and> px_os p = os"

lemma conn_set_os [simp]: "conn (p\<lparr>px_os := os'\<rparr>) i out os \<longleftrightarrow> os' = os \<and> conn p i out (px_os p)"
  by (auto simp: conn_def)

lemma conn_set_flags [simp]: "conn (p\<lparr>px_nodelay := b\<rparr>) i out os \<longleftrightarrow> conn p i out os" "conn (p\<lparr>px_closed := b\<rparr>) i out os \<longleftrightarrow> conn p i out os"
  by (simp_all add: conn_def)

lemma conn_os: "conn p i out os \<Longrightarrow> px_os p = os"
  by (simp add: conn_def)

lemma recv_message:
  assumes "conn p (b @ rest) out os" and "length b = n" and "n < 2 ^ 64"
  obtains p' where "\<And>k. recv_then n p k = k b p'" "conn p' rest out os"
proof -
  obtain s' where s: "get_msg (px_sock p) n = Some (b, s')" "no_errors s'" "s_in s' = rest" "s_out s' = s_out (px_sock p)"
    using proxy_io.get_message [of "px_sock p" b rest] assms by (auto simp: conn_def)
  then have "read_all n [] (px_sock p) = Some (Some b, s')"
    by (auto simp: get_msg_def split: bind_splits)
  then show thesis
    using s assms(1) that [of "p\<lparr>px_sock := s'\<rparr>"] by (simp add: recv_then_def conn_def)
qed

lemma send_message:
  assumes "conn p i out os"
  obtains p' where "\<And>k. send_then bs p k = k p'" "conn p' i (out @ bs) os"
proof -
  obtain s' where "write_all bs 0 (px_sock p) = Some (True, s')" "no_errors s'" "s_out s' = s_out (px_sock p) @ bs" "s_in s' = s_in (px_sock p)"
    using write_all_complete [of "px_sock p" 0 bs] assms by (auto simp: conn_def)
  then show thesis
    using assms that [of "p\<lparr>px_sock := s'\<rparr>"] by (simp add: send_then_def conn_def)
qed

lemma reply_message:
  assumes "conn p i out os0"
  shows "\<exists>p'. send_then bs (p\<lparr>px_os := os\<rparr>) (\<lambda>p. Some (Next p)) = Some (Next p') \<and> conn p' i (out @ bs) os"
proof -
  have "conn (p\<lparr>px_os := os\<rparr>) i out os" using assms by (simp add: conn_def)
  then show ?thesis using send_message by metis
qed

lemma recv_u32:
  assumes "conn p (enc32 w @ rest) out os"
  obtains p' where "\<And>k. recv_then 4 p k = k (enc32 w) p'" "conn p' rest out os"
  by (rule recv_message [OF assms, where n = 4]) (simp_all add: c32.length_enc that)

lemma recv_u64:
  assumes "conn p (enc64 w @ rest) out os"
  obtains p' where "\<And>k. recv_then 8 p k = k (enc64 w) p'" "conn p' rest out os"
  by (rule recv_message [OF assms, where n = 8]) (simp_all add: c64.length_enc that)

lemma recv_block:
  assumes "conn p (enc64 (word_of_nat (length b)) @ b @ rest) out os" and "length b < 2 ^ 64"
  obtains p1 p2 where "\<And>k. recv_then 8 p k = k (enc64 (word_of_nat (length b))) p1"
    "\<And>k. recv_then (length b) p1 k = k b p2" "conn p2 rest out os"
proof -
  obtain p1 where 1: "\<And>k. recv_then 8 p k = k (enc64 (word_of_nat (length b))) p1" "conn p1 (b @ rest) out os"
    using recv_u64 [OF assms(1)] by blast
  obtain p2 where "\<And>k. recv_then (length b) p1 k = k b p2" "conn p2 rest out os"
    using recv_message [OF 1(2) refl assms(2)] by blast
  with 1 that show thesis by blast
qed

lemma write_std_complete:
  assumes "std_contract px put" and "sint fd \<le> 2"
  shows "j \<le> length buf \<Longrightarrow> write_std px fd buf j os = Some (True, put os fd (drop j buf))"
proof (induction "length buf - j" arbitrary: j os rule: less_induct)
  case less
  show ?case
  proof (cases "j < length buf")
    case False
    then show ?thesis using less.prems assms(1) by (subst write_std.simps) (simp add: std_contract_def)
  next
    case True
    then have "drop j buf \<noteq> []" by simp
    then obtain k where k: "0 < k" "k \<le> length (drop j buf)" "k < 2 ^ 63"
      "px_write px os fd (drop j buf) = (word_of_nat k, put os fd (take k (drop j buf)))"
      using assms unfolding std_contract_def by blast
    have "unat (word_of_nat k :: u64) = k" using k(3) by (intro unat_word_of_nat_u64) simp
    moreover have "sint (word_of_nat k :: u64) = int k"
      using k(3) by (simp add: signed_of_nat signed_take_bit_int_eq_self)
    ultimately have "write_std px fd buf j os = write_std px fd buf (j + k) (put os fd (take k (drop j buf)))"
      using True k(4) by (subst write_std.simps) simp
    also have "\<dots> = Some (True, put (put os fd (take k (drop j buf))) fd (drop (j + k) buf))"
      using less.hyps [of "j + k"] k True by simp
    also have "put (put os fd (take k (drop j buf))) fd (drop (j + k) buf) = put os fd (drop j buf)"
      using assms(1) [unfolded std_contract_def, THEN conjunct2, THEN conjunct1, rule_format, of os fd "take k (drop j buf)" "drop k (drop j buf)"]
      by (simp only: append_take_drop_id) (simp add: add.commute)
    finally show ?thesis .
  qed
qed

lemmas syscall_defs = syscall_def hermit_numbers Let_def c32.dec_enc c64.dec_enc

lemma serve_write:
  assumes "conn p (encode_request (ReqWrite fd bs) @ rest) out os" and "length bs < 2 ^ 64"
    and "std_contract (pe_posix e) put" and "pe_malloc e (word_of_nat (length bs))" and "serve (pe_posix e) put (ReqWrite fd bs) os = (a, os')"
  shows "\<exists>p'. syscall e p = Some (Next p') \<and> conn p' rest (out @ a) os'"
proof -
  obtain p1 where 1: "\<And>k. recv_then 4 p k = k (enc32 HERMIT_write) p1" "conn p1 (enc32 fd @ enc64 (word_of_nat (length bs)) @ bs @ rest) out os"
    using recv_u32 assms(1) by (metis append.assoc encode_request.simps(1))
  obtain p2 where 2: "\<And>k. recv_then 4 p1 k = k (enc32 fd) p2" "conn p2 (enc64 (word_of_nat (length bs)) @ bs @ rest) out os"
    using recv_u32 [OF 1(2)] by blast
  obtain p3 p4 where 3: "\<And>k. recv_then 8 p2 k = k (enc64 (word_of_nat (length bs))) p3"
    "\<And>k. recv_then (length bs) p3 k = k bs p4" "conn p4 rest out os"
    using recv_block [OF 2(2) assms(2)] by blast
  have u: "unat (word_of_nat (length bs) :: u64) = length bs" using assms(2) by (rule unat_word_of_nat_u64)
  note q = syscall_defs sys_write_def 1(1) 2(1) 3(1,2) u assms(4) conn_os [OF 3(3)]
  show ?thesis
  proof (cases "sint fd > 2")
    case True
    obtain r os1 where w: "px_write (pe_posix e) os fd bs = (r, os1)" by fastforce
    then show ?thesis
      using True assms(5) reply_message [OF 3(3), of "enc64 r" os1] by (auto simp: q)
  next
    case False
    then show ?thesis
      using assms(5) 3(3) write_std_complete [OF assms(3), of fd 0 bs os] by (auto simp: q conn_def)
  qed
qed

lemma serve_open:
  assumes "conn p (encode_request (ReqOpen name flags mode) @ rest) out os" and "0 \<notin> set name" and "length name < PATH_MAX"
    and "pe_malloc e (word_of_nat (length name + 1))" and "serve (pe_posix e) put (ReqOpen name flags mode) os = (a, os')"
  shows "\<exists>p'. syscall e p = Some (Next p') \<and> conn p' rest (out @ a) os'"
proof -
  define b where "b = name @ [0]"
  define len :: u64 where "len = word_of_nat (length b)"
  have l: "length b < 2 ^ 64" using assms(3) by (simp add: PATH_MAX_def b_def)
  have c: "conn p (enc32 HERMIT_open @ enc64 len @ b @ enc32 flags @ enc32 mode @ rest) out os"
    using assms(1) by (simp add: b_def len_def)
  obtain p1 where 1: "\<And>k. recv_then 4 p k = k (enc32 HERMIT_open) p1" "conn p1 (enc64 len @ b @ enc32 flags @ enc32 mode @ rest) out os"
    using recv_u32 [OF c] by blast
  obtain p2 p3 where 2: "\<And>k. recv_then 8 p1 k = k (enc64 len) p2"
    "\<And>k. recv_then (length b) p2 k = k b p3" "conn p3 (enc32 flags @ enc32 mode @ rest) out os"
    using recv_block [OF 1(2) [unfolded len_def] l] len_def by blast
  obtain p4 where 4: "\<And>k. recv_then 4 p3 k = k (enc32 flags) p4" "conn p4 (enc32 mode @ rest) out os"
    using recv_u32 [OF 2(3)] by blast
  obtain p5 where 5: "\<And>k. recv_then 4 p4 k = k (enc32 mode) p5" "conn p5 rest out os"
    using recv_u32 [OF 4(2)] by blast
  have u: "unat len = length b" unfolding len_def using l by (rule unat_word_of_nat_u64)
  have m: "pe_malloc e len" using assms(4) by (simp add: len_def b_def)
  have n: "takeWhile (\<lambda>b. b \<noteq> 0) (take PATH_MAX (b @ pe_beyond e)) = name"
  proof -
    have "take PATH_MAX (b @ pe_beyond e) = name @ 0 # take (PATH_MAX - length name - 1) (pe_beyond e)"
      using assms(3) by (simp add: take_Cons' b_def)
    then show ?thesis using assms(2) by (auto simp: takeWhile_append)
  qed
  obtain r os1 where "px_open (pe_posix e) os name flags mode = (r, os1)" by fastforce
  then show ?thesis
    using assms(5) u n m reply_message [OF 5(2), of "enc32 r" os1]
    by (auto simp: syscall_defs sys_open_def 1(1) 2(1,2) 4(1) 5(1) conn_os [OF 5(2)])
qed

lemma serve_close:
  assumes "conn p (encode_request (ReqClose fd) @ rest) out os" and "serve (pe_posix e) put (ReqClose fd) os = (a, os')"
  shows "\<exists>p'. syscall e p = Some (Next p') \<and> conn p' rest (out @ a) os'"
proof -
  have c: "conn p (enc32 HERMIT_close @ enc32 fd @ rest) out os" using assms(1) by simp
  obtain p1 where 1: "\<And>k. recv_then 4 p k = k (enc32 HERMIT_close) p1" "conn p1 (enc32 fd @ rest) out os"
    using recv_u32 [OF c] by blast
  obtain p2 where 2: "\<And>k. recv_then 4 p1 k = k (enc32 fd) p2" "conn p2 rest out os"
    using recv_u32 [OF 1(2)] by blast
  obtain r os1 where "(if sint fd > 2 then px_close (pe_posix e) os fd else (0, os)) = (r, os1)" by fastforce
  then show ?thesis
    using assms(2) reply_message [OF 2(2), of "enc32 r" os1]
    by (auto simp: syscall_defs sys_close_def 1(1) 2(1) conn_os [OF 2(2)] split: if_splits)
qed

lemma serve_lseek:
  assumes "conn p (encode_request (ReqLseek fd offset whence) @ rest) out os"
    and "serve (pe_posix e) put (ReqLseek fd offset whence) os = (a, os')"
  shows "\<exists>p'. syscall e p = Some (Next p') \<and> conn p' rest (out @ a) os'"
proof -
  have c: "conn p (enc32 HERMIT_lseek @ enc32 fd @ enc64 offset @ enc32 whence @ rest) out os" using assms(1) by simp
  obtain p1 where 1: "\<And>k. recv_then 4 p k = k (enc32 HERMIT_lseek) p1" "conn p1 (enc32 fd @ enc64 offset @ enc32 whence @ rest) out os"
    using recv_u32 [OF c] by blast
  obtain p2 where 2: "\<And>k. recv_then 4 p1 k = k (enc32 fd) p2" "conn p2 (enc64 offset @ enc32 whence @ rest) out os"
    using recv_u32 [OF 1(2)] by blast
  obtain p3 where 3: "\<And>k. recv_then 8 p2 k = k (enc64 offset) p3" "conn p3 (enc32 whence @ rest) out os"
    using recv_u64 [OF 2(2)] by blast
  obtain p4 where 4: "\<And>k. recv_then 4 p3 k = k (enc32 whence) p4" "conn p4 rest out os"
    using recv_u32 [OF 3(2)] by blast
  obtain r os1 where "px_lseek (pe_posix e) os fd offset whence = (r, os1)" by fastforce
  then show ?thesis
    using assms(2) reply_message [OF 4(2), of "enc64 r" os1]
    by (auto simp: syscall_defs sys_lseek_def 1(1) 2(1) 3(1) 4(1) conn_os [OF 4(2)])
qed

lemma serve_read:
  assumes "conn p (encode_request (ReqRead fd len) @ rest) out os" and "len < 2 ^ 63" and "read_bound (pe_posix e)"
    and "pe_malloc e len" and "serve (pe_posix e) put (ReqRead fd len) os = (a, os')"
  shows "\<exists>p'. syscall e p = Some (Next p') \<and> conn p' rest (out @ a) os'"
proof -
  have c: "conn p (enc32 HERMIT_read @ enc32 fd @ enc64 len @ rest) out os" using assms(1) by simp
  obtain p1 where 1: "\<And>k. recv_then 4 p k = k (enc32 HERMIT_read) p1" "conn p1 (enc32 fd @ enc64 len @ rest) out os"
    using recv_u32 [OF c] by blast
  obtain p2 where 2: "\<And>k. recv_then 4 p1 k = k (enc32 fd) p2" "conn p2 (enc64 len @ rest) out os"
    using recv_u32 [OF 1(2)] by blast
  obtain p3 where 3: "\<And>k. recv_then 8 p2 k = k (enc64 len) p3" "conn p3 rest out os"
    using recv_u64 [OF 2(2)] by blast
  obtain res os1 where res: "px_read (pe_posix e) os fd (unat len) = (res, os1)" by fastforce
  define sj :: u64 where "sj = (case res of None \<Rightarrow> -1 | Some bs \<Rightarrow> word_of_nat (length bs))"
  have c3: "conn (p3\<lparr>px_os := os1, px_nodelay := False\<rparr>) rest out os1" using 3(2) by (simp add: conn_def)
  obtain p4 where 4: "\<And>k. send_then (enc64 sj) (p3\<lparr>px_os := os1, px_nodelay := False\<rparr>) k = k p4" "conn p4 rest (out @ enc64 sj) os1"
    using send_message [OF c3, where bs = "enc64 sj"] by blast
  have o: "os1 = os'" using assms(5) res by (auto split: option.splits)
  note q = syscall_defs sys_read_def 1(1) 2(1) 3(1) conn_os [OF 3(2)] assms(4) res [unfolded o]
  show ?thesis
  proof (cases res)
    case None
    then have sj: "sj = -1" by (simp add: sj_def)
    show ?thesis using assms(5) 4(2) o by (auto simp: q None sj 4(1) [unfolded sj o])
  next
    case (Some bs)
    then have sj: "sj = word_of_nat (length bs)" by (simp add: sj_def)
    have "length bs \<le> unat len" using assms(3) res Some unfolding read_bound_def by blast
    moreover have "unat len < 2 ^ 63" using assms(2) by (simp add: word_less_nat_alt)
    ultimately have l: "length bs < 2 ^ 63" by linarith
    have s: "sint (word_of_nat (length bs) :: u64) = int (length bs)" "unat (word_of_nat (length bs) :: u64) = length bs"
      using l by (simp_all add: signed_of_nat signed_take_bit_int_eq_self unat_word_of_nat_u64)
    obtain p5 where 5: "\<And>k. send_then bs p4 k = k p5" "conn p5 rest ((out @ enc64 sj) @ bs) os1"
      using send_message [OF 4(2), where bs = bs] by blast
    show ?thesis
    proof (cases "bs = []")
      case True
      then have "sj = 0" using sj by simp
      then show ?thesis using assms(5) 4(2) o by (auto simp: q Some True 4(1) [unfolded \<open>sj = 0\<close> o])
    next
      case False
      then show ?thesis using assms(5) 5(2) o by (auto simp: q Some s sj 4(1) [unfolded sj o] 5(1))
    qed
  qed
qed

lemma serve_request:
  assumes "conn p (encode_request r @ rest) out os" and "request_ok r" and "std_contract (pe_posix e) put" and "read_bound (pe_posix e)"
    and "\<forall>n. pe_malloc e n" and "serve (pe_posix e) put r os = (a, os')"
  shows "\<exists>p'. syscall e p = Some (Next p') \<and> conn p' rest (out @ a) os'"
proof (cases r)
  case (ReqWrite fd bs)
  then show ?thesis using serve_write [of p fd bs rest out os e put a os'] assms by simp
next
  case (ReqOpen name flags mode)
  then show ?thesis using serve_open [of p name flags mode rest out os e put a os'] assms by simp
next
  case (ReqClose fd)
  then show ?thesis using serve_close [of p fd rest out os e put a os'] assms by simp
next
  case (ReqRead fd len)
  then show ?thesis using serve_read [of p fd len rest out os e put a os'] assms by simp
next
  case (ReqLseek fd offset whence)
  then show ?thesis using serve_lseek [of p fd offset whence rest out os e put a os'] assms by simp
qed

lemma serve_requests:
  assumes "std_contract (pe_posix e) put" and "read_bound (pe_posix e)" and "\<forall>n. pe_malloc e n"
  shows "conn p (concat (map encode_request rs) @ rest) out os \<Longrightarrow> list_all request_ok rs \<Longrightarrow> serve_all (pe_posix e) put rs os = (a, os') \<Longrightarrow>
    \<exists>p'. handle_syscalls e p = handle_syscalls e p' \<and> conn p' rest (out @ a) os'"
proof (induction rs arbitrary: p out os a)
  case (Cons r rs)
  obtain b os1 c where s: "serve (pe_posix e) put r os = (b, os1)" "serve_all (pe_posix e) put rs os1 = (c, os')" "a = b @ c"
    using Cons.prems(3) by (auto split: prod.splits)
  obtain p1 where p1: "syscall e p = Some (Next p1)" "conn p1 (concat (map encode_request rs) @ rest) (out @ b) os1"
    using serve_request [OF _ _ assms, of p r "concat (map encode_request rs) @ rest" out os b os1] Cons.prems(1,2) s(1) by auto
  obtain p2 where "handle_syscalls e p1 = handle_syscalls e p2" "conn p2 rest ((out @ b) @ c) os'"
    using Cons.IH [OF p1(2) _ s(2)] Cons.prems(2) by auto
  then show ?case using p1(1) s(3) by (subst handle_syscalls.simps) auto
qed auto

lemma io_take_part: "no_errors s \<Longrightarrow> \<exists>k s1. io_take s n = (Some k, s1) \<and> k \<le> n \<and> no_errors s1 \<and> s_in s1 = s_in s"
  by (cases "s_script s"; cases "hd (s_script s)") (auto simp: io_take_def no_errors_def)

lemma read_all_needs:
  assumes "read_all n buf s = Some r"
  shows "no_errors s \<longrightarrow> n \<le> length buf + length (s_in s)"
  using assms
proof (rule read_all.raw_induct [rotated, where P = "\<lambda>n buf s r. no_errors s \<longrightarrow> n \<le> length buf + length (s_in s)"])
  fix ra n buf s r
  assume IH: "\<And>n buf s r. ra n buf s = Some r \<Longrightarrow> no_errors s \<longrightarrow> n \<le> length buf + length (s_in s)"
    and body: "(if length buf < n
      then (case sock_recv s (n - length buf) of (sret, bs, s) \<Rightarrow> if sret < 0 then Some (None, s) else ra n (buf @ bs) s)
      else Some (Some buf, s)) = Some r"
  show "no_errors s \<longrightarrow> n \<le> length buf + length (s_in s)"
  proof (cases "length buf < n \<and> no_errors s")
    case True
    let ?n = "min (n - length buf) (length (s_in s))"
    obtain k s1 where k: "io_take s ?n = (Some k, s1)" "k \<le> ?n" "no_errors s1" "s_in s1 = s_in s"
      using True by (metis io_take_part)
    have "ra n (buf @ take k (s_in s)) (s1\<lparr>s_in := drop k (s_in s)\<rparr>) = Some r"
      using body True k by (simp add: sock_recv_def)
    from IH [OF this] k show ?thesis by (auto simp: no_errors_def)
  qed auto
qed

lemma syscall_starved: "no_errors (px_sock p) \<Longrightarrow> length (s_in (px_sock p)) < 4 \<Longrightarrow> syscall e p = None"
  using read_all_needs [of 4 "[]" "px_sock p"] by (cases "read_all 4 [] (px_sock p)") (auto simp: syscall_def recv_then_def)

section \<open>Properties\<close>


definition echo_env :: "(bytes \<times> bytes) proxy_env" where
  "echo_env = \<lparr>pe_posix = pipe_posix, pe_malloc = \<lambda>_. True, pe_beyond = []\<rparr>"

definition echo_client :: "bytes \<Rightarrow> (bytes \<times> bytes) proxy" where
  "echo_client i = \<lparr>px_sock = \<lparr>s_in = i, s_out = [], s_script = [IoChunk 1]\<rparr>, px_closed = False, px_nodelay = True, px_os = ([5, 6], [])\<rparr>"

definition echo_requests :: "request list" where
  "echo_requests = [ReqOpen [0x61] 0 0, ReqRead 3 9, ReqWrite 1 [7, 8, 9], ReqClose 1]"

lemma echo_ok: "std_contract pipe_posix (\<lambda>(i, out) fd bs. (i, out @ bs))" "read_bound pipe_posix" "list_all request_ok echo_requests"
proof -
  have "bs \<noteq> [] \<Longrightarrow> \<exists>k. 0 < k \<and> k \<le> length bs \<and> k < 2 ^ 63 \<and> px_write pipe_posix os fd bs = (word_of_nat k, (\<lambda>(i, out) fd bs. (i, out @ bs)) os fd (take k bs))"
    for bs :: bytes and os fd
    by (intro exI [of _ "min 2 (length bs)"]) (auto simp: pipe_posix_def split: prod.splits, simp_all add: min_def)
  then show "std_contract pipe_posix (\<lambda>(i, out) fd bs. (i, out @ bs))"
    by (auto simp: std_contract_def split: prod.splits)
  show "read_bound pipe_posix" by (auto simp: read_bound_def pipe_posix_def split: prod.splits)
  show "list_all request_ok echo_requests" by (simp add: echo_requests_def PATH_MAX_def)
qed


text \<open>
  When the client closes the connection after complete requests, or inside a request number, \<open>handle_syscalls\<close> never returns:
  \<open>read\<close> returns 0 at the end of the data, which the loops do not take for an error.
\<close>

theorem handle_syscalls_disconnect:
  assumes "no_errors (px_sock p)" and "s_in (px_sock p) = concat (map encode_request rs) @ part" and "length part < 4"
    and "list_all request_ok rs" and "std_contract (pe_posix e) put" and "read_bound (pe_posix e)" and "\<forall>n. pe_malloc e n"
  shows "handle_syscalls e p = None"
proof -
  obtain a os' where s: "serve_all (pe_posix e) put rs (px_os p) = (a, os')" by fastforce
  have "conn p (concat (map encode_request rs) @ part) (s_out (px_sock p)) (px_os p)"
    using assms(1,2) by (simp add: conn_def)
  then obtain p1 where "handle_syscalls e p = handle_syscalls e p1" "conn p1 part (s_out (px_sock p) @ a) os'"
    using serve_requests [OF assms(5-7) _ assms(4) s] by blast
  moreover then have "handle_syscalls e p1 = None"
    using syscall_starved [of p1 e] assms(3) by (subst handle_syscalls.simps) (simp add: conn_def)
  ultimately show ?thesis by simp
qed

theorem handle_syscalls_disconnect_witness:
  "handle_syscalls echo_env (echo_client (concat (map encode_request echo_requests))) = None"
  using handle_syscalls_disconnect [of "echo_client (concat (map encode_request echo_requests))" echo_requests "[]" echo_env] echo_ok
  by (simp add: echo_client_def echo_env_def no_errors_def)

end
