(* ===== verification/Paging_Aarch64.thy ===== *)
theory Paging_Aarch64
  imports Hypercalls
begin

text \<open>
  Address translation of the aarch64 hypervisor, \<open>src/uhyve-aarch64.c\<close>: the walk of the hypercalls,
  \<open>virt_to_phys_for_table\<close> and \<open>virt_to_phys\<close>, and the walk of the debugger stub, \<open>aarch64_virt_to_phys\<close>.  Both handle
  4 KiB pages only, with the root table one page behind the entry point of the kernel.  The first walk is another
  implementation of the interface \<open>translation\<close>, so that the hypercalls work on aarch64 as they do on x86-64.
\<close>

unbundle bit_operations_syntax

section \<open>The walks\<close>

definition PT_ADDR_MASK :: u64 where "PT_ADDR_MASK = 0xFFFFFFFFF000"

text \<open>The page mask of a level, of 48 bits.\<close>

definition level_mask_a64 :: "nat \<Rightarrow> u64" where
  "level_mask_a64 level = push_bit (level * PAGE_MAP_BITS) (push_bit PAGE_BITS (-1)) AND 0xFFFFFFFFFFFF"

fun virt_to_phys_for_table_a64 :: "gmem \<Rightarrow> u64 \<Rightarrow> u64 \<times> u64 \<Rightarrow> u64 \<Rightarrow> nat \<Rightarrow> u64 \<times> u64" where
  "virt_to_phys_for_table_a64 mem virtual_address result table level =
    (let index = pt_index virtual_address level;
         page_mask = level_mask_a64 level;
         page_size = level_size level;
         entry = load64 mem (table + 8 * index)
     in if entry \<noteq> 0
        then if level = 0
             then let phy = entry AND page_mask; off = (virtual_address AND NOT page_mask) AND 0xFFFFFFFFFFFF
                  in (phy OR off, phy + page_size)
             else let phy = entry AND PT_ADDR_MASK
                  in virt_to_phys_for_table_a64 mem virtual_address result phy (level - 1)
        else result)"

declare virt_to_phys_for_table_a64.simps [simp del]

definition virt_to_phys_a64 :: "u64 \<Rightarrow> gmem \<Rightarrow> u64 \<Rightarrow> u64 \<times> u64" where
  "virt_to_phys_a64 elf_entry mem virtual_address =
     virt_to_phys_for_table_a64 mem virtual_address (0, 0) (elf_entry + PAGE_SIZE) 3"

text \<open>
  The walk of the debugger stub.  It works with host addresses: guest memory is mapped at \<open>guest_mem\<close>, and a table at a host address
  \<open>p\<close> is at the guest address \<open>p - guest_mem\<close>.
\<close>

definition aarch64_virt_to_phys :: "u64 \<Rightarrow> u64 \<Rightarrow> u64 \<Rightarrow> u64 \<Rightarrow> gmem \<Rightarrow> u64 \<Rightarrow> u64" where
  "aarch64_virt_to_phys static_mem_start static_mem_size elf_entry guest_mem mem vaddr =
    (if static_mem_start \<le> vaddr \<and> vaddr < static_mem_start + static_mem_size then vaddr
     else
       let pt0_index = drop_bit 39 (vaddr AND 0xFF8000000000);
           pt1_index = drop_bit 30 (vaddr AND 0x7FC0000000);
           pt2_index = drop_bit 21 (vaddr AND 0x3FE00000);
           pt3_index = drop_bit 12 (vaddr AND 0x1FF000);
           at = (\<lambda>table index. load64 mem (table - guest_mem + 8 * index));
           pt0_addr = (elf_entry + PAGE_SIZE + guest_mem) AND PT_ADDR_MASK;
           pt1_addr = (at pt0_addr pt0_index AND PT_ADDR_MASK) + guest_mem;
           pt2_addr = (at pt1_addr pt1_index AND PT_ADDR_MASK) + guest_mem;
           pt3_addr = (at pt2_addr pt2_index AND PT_ADDR_MASK) + guest_mem;
           paddr = at pt3_addr pt3_index AND PT_ADDR_MASK
       in paddr OR (vaddr AND 0xFFF))"

section \<open>Lemmas\<close>

text \<open>The entry of the last level, the addresses a walk reads.\<close>

fun leaf_a64 :: "gmem \<Rightarrow> u64 \<Rightarrow> u64 \<Rightarrow> nat \<Rightarrow> u64 option" where
  "leaf_a64 mem va table level =
    (let entry = load64 mem (table + 8 * pt_index va level)
     in if entry = 0 then None else if level = 0 then Some entry else leaf_a64 mem va (entry AND PT_ADDR_MASK) (level - 1))"

fun reads_a64 :: "gmem \<Rightarrow> u64 \<Rightarrow> u64 \<Rightarrow> nat \<Rightarrow> u64 list" where
  "reads_a64 mem va table level =
    (let a = table + 8 * pt_index va level; entry = load64 mem a
     in a # (if entry = 0 \<or> level = 0 then [] else reads_a64 mem va (entry AND PT_ADDR_MASK) (level - 1)))"

declare leaf_a64.simps [simp del] reads_a64.simps [simp del]

definition mapped_a64 :: "u64 \<Rightarrow> gmem \<Rightarrow> u64 \<Rightarrow> bool" where
  "mapped_a64 elf_entry mem va \<longleftrightarrow> leaf_a64 mem va (elf_entry + PAGE_SIZE) 3 \<noteq> None"

definition walk_reads_a64 :: "u64 \<Rightarrow> gmem \<Rightarrow> u64 \<Rightarrow> u64 list" where
  "walk_reads_a64 elf_entry mem va = reads_a64 mem va (elf_entry + PAGE_SIZE) 3"

lemma PT_ADDR_MASK_bits: "PT_ADDR_MASK = mask 48 AND NOT (mask 12)"
  by (simp add: PT_ADDR_MASK_def mask_eq_exp_minus_1)

lemma level_mask_a64_0: "level_mask_a64 0 = PT_ADDR_MASK"
  by (simp add: level_mask_a64_def PT_ADDR_MASK_def page_consts mask_eq_exp_minus_1)

lemma page_offset_a64: "(va AND NOT PT_ADDR_MASK) AND 0xFFFFFFFFFFFF = take_bit 12 (va::u64)"
proof -
  have m: "(0xFFFFFFFFFFFF :: u64) = mask 48" by (simp add: mask_eq_exp_minus_1)
  show ?thesis
    unfolding PT_ADDR_MASK_bits m by (rule bit_eqI) (auto simp: bit_simps)
qed

lemma frame_offset_a64: "(e AND PT_ADDR_MASK) OR take_bit 12 va = (e AND PT_ADDR_MASK) + take_bit 12 (va::u64)"
  by (rule or_disjoint_add) (rule bit_eqI, auto simp: PT_ADDR_MASK_bits bit_simps)

lemma walk_a64:
  "virt_to_phys_for_table_a64 m va r t l = (case leaf_a64 m va t l of None \<Rightarrow> r
    | Some e \<Rightarrow> ((e AND PT_ADDR_MASK) + take_bit 12 va, (e AND PT_ADDR_MASK) + 0x1000))"
proof (induction m va t l rule: leaf_a64.induct)
  case (1 m va t l)
  then show ?case
    by (subst virt_to_phys_for_table_a64.simps, subst leaf_a64.simps)
      (auto simp: Let_def level_mask_a64_0 page_offset_a64 frame_offset_a64 level_size_val)
qed

lemma leaf_a64_page:
  assumes "drop_bit 12 va' = drop_bit 12 (va::u64)"
  shows "leaf_a64 m va' t l = leaf_a64 m va t l"
proof -
  have p: "pt_index va' l = pt_index va l" for l
    using pt_index_drop [where k = 0 and va = va and va' = va' and l = l] assms by simp
  show ?thesis
  proof (induction l arbitrary: t)
    case 0
    then show ?case by (subst (1 2) leaf_a64.simps) (simp add: Let_def p)
  next
    case (Suc l)
    then show ?case by (subst (1 2) leaf_a64.simps) (simp add: Let_def p)
  qed
qed

lemma leaf_a64_local:
  "\<forall>a \<in> set (reads_a64 m va t l). load64 m' a = load64 m a \<Longrightarrow> leaf_a64 m' va t l = leaf_a64 m va t l"
proof (induction l arbitrary: t)
  case 0
  then show ?case
    by (subst (asm) reads_a64.simps) (subst (1 2) leaf_a64.simps, simp add: Let_def)
next
  case (Suc l)
  let ?e = "load64 m (t + 8 * pt_index va (Suc l))"
  have w: "reads_a64 m va t (Suc l) = (t + 8 * pt_index va (Suc l)) # (if ?e = 0 then [] else reads_a64 m va (?e AND PT_ADDR_MASK) l)"
    by (subst reads_a64.simps) (simp add: Let_def)
  have "load64 m' (t + 8 * pt_index va (Suc l)) = ?e" using Suc.prems w by simp
  moreover have "?e \<noteq> 0 \<Longrightarrow> leaf_a64 m' va (?e AND PT_ADDR_MASK) l = leaf_a64 m va (?e AND PT_ADDR_MASK) l"
    using Suc w by simp
  ultimately show ?case
    by (subst (1 2) leaf_a64.simps) (simp add: Let_def)
qed

lemma virt_to_phys_a64_leaf:
  "virt_to_phys_a64 elf_entry m va = (case leaf_a64 m va (elf_entry + PAGE_SIZE) 3 of None \<Rightarrow> (0, 0)
    | Some e \<Rightarrow> ((e AND PT_ADDR_MASK) + take_bit 12 va, (e AND PT_ADDR_MASK) + 0x1000))"
  by (simp add: virt_to_phys_a64_def walk_a64)

lemma page_rest_a64: "unat ((0x1000 :: u64) - take_bit 12 va) = 0x1000 - unat (take_bit 12 (va::u64))" "unat (take_bit 12 va) < 0x1000"
  using page_rest [of 0 va] by (simp_all add: level_size_val)

interpretation a64: translation "virt_to_phys_a64 elf_entry" "mapped_a64 elf_entry" "walk_reads_a64 elf_entry" for elf_entry
proof
  fix m va m'
  assume "\<forall>a \<in> set (walk_reads_a64 elf_entry m va). load64 m' a = load64 m a"
  then show "virt_to_phys_a64 elf_entry m' va = virt_to_phys_a64 elf_entry m va"
    unfolding walk_reads_a64_def by (simp add: virt_to_phys_a64_leaf leaf_a64_local)
next
  fix m va pa pe
  assume "mapped_a64 elf_entry m va" and v: "virt_to_phys_a64 elf_entry m va = (pa, pe)"
  then obtain e where l: "leaf_a64 m va (elf_entry + PAGE_SIZE) 3 = Some e"
    by (auto simp: mapped_a64_def)
  have pa: "pa = (e AND PT_ADDR_MASK) + take_bit 12 va" and pe: "pe = (e AND PT_ADDR_MASK) + 0x1000"
    using v l by (simp_all add: virt_to_phys_a64_leaf)
  have d: "unat (pe - pa) = 0x1000 - unat (take_bit 12 va)"
    using page_rest_a64(1) [of va] by (simp add: pa pe)
  then show "pa \<noteq> pe"
    using page_rest_a64(2) [of va] by auto
  fix i assume "i < unat (pe - pa)"
  then have "unat (take_bit 12 va) + i < 2 ^ 12" using d by simp
  note st = add_in_page [OF this]
  have "leaf_a64 m (va + word_of_nat i) (elf_entry + PAGE_SIZE) 3 = Some e"
    using l leaf_a64_page [OF st(1)] by simp
  then show "virt_to_phys_a64 elf_entry m (va + word_of_nat i) = (pa + word_of_nat i, pe)"
    by (simp add: virt_to_phys_a64_leaf st(2) pa pe add.assoc)
qed

text \<open>The index of a level, as the two walks compute it.\<close>

lemma pt_index_bits: "pt_index va l = take_bit 9 (drop_bit (12 + 9 * l) (va::u64))"
  by (simp add: pt_index_def PAGE_MAP_BITS_def PAGE_BITS_def PAGE_MAP_MASK_def take_bit_eq_mask algebra_simps)

lemma stub_index:
  "drop_bit 39 (va AND 0xFF8000000000) = pt_index va 3" "drop_bit 30 (va AND 0x7FC0000000) = pt_index va 2"
  "drop_bit 21 (va AND 0x3FE00000) = pt_index va 1" "drop_bit 12 (va AND 0x1FF000) = pt_index va 0"
proof -
  have m: "(0xFF8000000000 :: u64) = push_bit 39 (mask 9)" "(0x7FC0000000 :: u64) = push_bit 30 (mask 9)"
    "(0x3FE00000 :: u64) = push_bit 21 (mask 9)" "(0x1FF000 :: u64) = push_bit 12 (mask 9)"
    by (simp_all add: mask_eq_exp_minus_1)
  have d: "drop_bit k (va AND push_bit k (mask 9)) = take_bit 9 (drop_bit k va)" if "k \<le> 55" for k
    using that by (intro bit_eqI) (auto simp: bit_simps)
  show "drop_bit 39 (va AND 0xFF8000000000) = pt_index va 3" "drop_bit 30 (va AND 0x7FC0000000) = pt_index va 2"
    "drop_bit 21 (va AND 0x3FE00000) = pt_index va 1" "drop_bit 12 (va AND 0x1FF000) = pt_index va 0"
    unfolding m pt_index_bits by (simp_all add: d del: drop_bit_and)
qed

section \<open>Properties\<close>

text \<open>
  C26.  The two walks agree: on a mapped address outside the static memory of the kernel the debugger stub gets the address the
  hypercalls get, and on the static memory the address itself, provided guest memory is mapped at a page-aligned host address
  and the root table lies below \<open>2\<^sup>4\<^sup>8\<close> there.
\<close>

theorem a64_walks_agree:
  assumes "mapped_a64 elf_entry mem va" and "\<not> (static_mem_start \<le> va \<and> va < static_mem_start + static_mem_size)"
    and "(elf_entry + PAGE_SIZE + guest_mem) AND PT_ADDR_MASK = elf_entry + PAGE_SIZE + guest_mem"
  shows "aarch64_virt_to_phys static_mem_start static_mem_size elf_entry guest_mem mem va = fst (virt_to_phys_a64 elf_entry mem va)"
proof -
  let ?m = PT_ADDR_MASK
  define e0 where "e0 = load64 mem (elf_entry + PAGE_SIZE + 8 * pt_index va 3)"
  define e1 where "e1 = load64 mem ((e0 AND ?m) + 8 * pt_index va 2)"
  define e2 where "e2 = load64 mem ((e1 AND ?m) + 8 * pt_index va 1)"
  define e3 where "e3 = load64 mem ((e2 AND ?m) + 8 * pt_index va 0)"
  have l3: "leaf_a64 mem va (elf_entry + PAGE_SIZE) 3 = (if e0 = 0 then None else leaf_a64 mem va (e0 AND ?m) 2)"
    by (subst leaf_a64.simps) (simp add: Let_def e0_def)
  have l2: "leaf_a64 mem va (e0 AND ?m) 2 = (if e1 = 0 then None else leaf_a64 mem va (e1 AND ?m) 1)"
    by (subst leaf_a64.simps) (simp add: Let_def e1_def)
  have l1: "leaf_a64 mem va (e1 AND ?m) 1 = (if e2 = 0 then None else leaf_a64 mem va (e2 AND ?m) 0)"
    by (subst leaf_a64.simps) (simp add: Let_def e2_def)
  have l0: "leaf_a64 mem va (e2 AND ?m) 0 = (if e3 = 0 then None else Some e3)"
    by (subst leaf_a64.simps) (simp add: Let_def e3_def)
  have "leaf_a64 mem va (elf_entry + PAGE_SIZE) 3 = Some e3"
    using assms(1) l0 l1 l2 l3 by (auto simp: mapped_a64_def split: if_splits)
  moreover have "va AND 0xFFF = take_bit 12 va"
    by (simp add: take_bit_eq_mask mask_eq_exp_minus_1)
  moreover have "elf_entry + PAGE_SIZE + guest_mem - guest_mem + x = elf_entry + PAGE_SIZE + x" "(y :: u64) + guest_mem - guest_mem = y" for x y
    by simp_all
  ultimately show ?thesis
    unfolding aarch64_virt_to_phys_def Let_def stub_index assms(3) if_not_P [OF assms(2)]
    by (simp only: e0_def [symmetric] e1_def [symmetric] e2_def [symmetric] e3_def [symmetric] virt_to_phys_a64_leaf frame_offset_a64
        option.case fst_conv)
qed

text \<open>A root table at \<open>0x201000\<close> that maps the page of address 0 to \<open>0x5000\<close>.\<close>

definition a64_tables :: gmem where
  "a64_tables = store64 (store64 (store64 (store64 (\<lambda>_. 0) 0x201000 0x202003) 0x202000 0x203003) 0x203000 0x204003) 0x204000 0x5003"

lemma a64_tables_loads: "load64 a64_tables 0x201000 = 0x202003" "load64 a64_tables 0x202000 = 0x203003"
  "load64 a64_tables 0x203000 = 0x204003" "load64 a64_tables 0x204000 = 0x5003"
  by (simp_all add: a64_tables_def load64_store64_other disjoint_runs_def)

lemma a64_tables_leaf:
  assumes "load64 m 0x201000 = 0x202003" "load64 m 0x202000 = 0x203003" "load64 m 0x203000 = 0x204003" "load64 m 0x204000 = 0x5003"
    and "va < 0x1000"
  shows "leaf_a64 m va 0x201000 3 = Some 0x5003"
proof -
  have "bit va n \<Longrightarrow> n < 12" for n using assms(5) bit_small [of va 12] by simp
  then have i: "pt_index va l = 0" for l
    unfolding pt_index_bits by (intro bit_eqI) (fastforce simp: bit_simps)
  have am: "(0x202003 :: u64) AND PT_ADDR_MASK = 0x202000" "(0x203003 :: u64) AND PT_ADDR_MASK = 0x203000"
    "(0x204003 :: u64) AND PT_ADDR_MASK = 0x204000"
    by (simp_all add: PT_ADDR_MASK_def)
  note st = Let_def i assms(1-4) am
  have "leaf_a64 m va 0x204000 0 = Some 0x5003" by (subst leaf_a64.simps) (simp add: st)
  then have "leaf_a64 m va 0x203000 1 = Some 0x5003" by (subst leaf_a64.simps) (simp add: st)
  then have "leaf_a64 m va 0x202000 2 = Some 0x5003" by (subst leaf_a64.simps) (simp add: st)
  then show ?thesis by (subst leaf_a64.simps) (simp add: st)
qed

theorem a64_walks_agree_witness:
  "aarch64_virt_to_phys 0x200000 0x1000 0x200000 0x7f0000000000 a64_tables 0x123 = 0x5123"
proof -
  have "mapped_a64 0x200000 a64_tables 0x123"
    using a64_tables_leaf [OF a64_tables_loads, of "0x123"] by (simp add: mapped_a64_def page_consts)
  moreover have "virt_to_phys_a64 0x200000 a64_tables 0x123 = (0x5123, 0x6000)"
    using a64_tables_leaf [OF a64_tables_loads, of "0x123"] by (simp add: virt_to_phys_a64_leaf page_consts PT_ADDR_MASK_def take_bit_eq_mask mask_eq_exp_minus_1)
  ultimately show ?thesis
    using a64_walks_agree [of "0x200000" a64_tables "0x123" "0x200000" "0x1000" "0x7f0000000000"]
    by (simp add: page_consts PT_ADDR_MASK_def)
qed

text \<open>
  \<open>UHYVE_PORT_WRITE\<close> on aarch64: as on x86-64, a write from a mapped buffer, at whatever virtual address, ends and sends the bytes
  the guest has there, in order across pages, up to the first short write.
\<close>

theorem port_write_sends_a64:
  assumes "e_v2p e = virt_to_phys_a64 elf_entry" and "write_contract (e_posix e) (load32 (vm_mem vm) (arg + wr_fd)) out"
    and "buf = load64 (vm_mem vm) (arg + wr_buf)" and "len = load64 (vm_mem vm) (arg + wr_len)"
    and "\<forall>i < unat len. mapped_a64 elf_entry (vm_mem vm) (buf + word_of_nat i)" and "unat len \<le> fuel"
  shows "\<exists>n vm'. port_write e fuel arg vm = Some vm' \<and> unat n \<le> unat len \<and>
    out (vm_os vm') = out (vm_os vm) @
      take (unat n) (map (\<lambda>i. vm_mem vm (fst (virt_to_phys_a64 elf_entry (vm_mem vm) (buf + word_of_nat i)))) [0..<unat len]) \<and>
    load64 (vm_mem vm') (arg + wr_len) = n \<and> (\<forall>x. \<not> in_run x (arg + wr_len) 8 \<longrightarrow> vm_mem vm' x = vm_mem vm x)"
proof -
  obtain w os' where "write_loop (virt_to_phys_a64 elf_entry) (e_posix e) fuel arg len 0 (vm_mem vm) (vm_os vm) = Some (w, os')"
    and "unat w \<le> unat len" "out os' = out (vm_os vm) @ take (unat w) (a64.virt_bytes elf_entry (vm_mem vm) buf (unat len))"
    using a64.write_loop_sends [OF assms(2), of len elf_entry 0 fuel "vm_os vm"] assms(3,5,6) by auto
  then show ?thesis
    using assms(1,4) by (intro exI [of _ w]) (simp add: port_write_def store64_outside a64.virt_bytes_def)
qed

definition a64_vm_mem :: gmem where
  "a64_vm_mem = store64 (store64 (store32 a64_tables 0x20000 1) 0x20004 0x123) 0x2000C 3"

theorem port_write_sends_a64_witness:
  "\<exists>n vm'. port_write (pipe_env\<lparr>e_v2p := virt_to_phys_a64 0x200000\<rparr>) 3 0x20000 (pipe_vm a64_vm_mem []) = Some vm' \<and>
     unat n \<le> 3 \<and> load64 (vm_mem vm') 0x2000C = n \<and> snd (vm_os vm') = take (unat n) (map (\<lambda>i. a64_vm_mem (0x5123 + word_of_nat i)) [0..<3])"
proof -
  have l: "load64 a64_vm_mem 0x201000 = 0x202003" "load64 a64_vm_mem 0x202000 = 0x203003"
    "load64 a64_vm_mem 0x203000 = 0x204003" "load64 a64_vm_mem 0x204000 = 0x5003"
    by (simp_all add: a64_vm_mem_def load64_store64_other load64_store32_other disjoint_runs_def a64_tables_loads)
  have small: "i = 0 \<or> i = 1 \<or> i = 2" if "i < 3" for i :: nat using that by auto
  have leaf: "leaf_a64 a64_vm_mem (0x123 + word_of_nat i) 0x201000 3 = Some 0x5003" if "i < 3" for i
    using small [OF that] a64_tables_leaf [OF l, of "0x123 + word_of_nat i"] by (elim disjE) simp_all
  have phys: "fst (virt_to_phys_a64 0x200000 a64_vm_mem (0x123 + word_of_nat i)) = 0x5123 + word_of_nat i" if "i < 3" for i
    using small [OF that] leaf [OF that]
    by (elim disjE) (simp_all add: virt_to_phys_a64_leaf page_consts PT_ADDR_MASK_def take_bit_eq_mask mask_eq_exp_minus_1)
  have args: "load32 a64_vm_mem 0x20000 = 1" "load64 a64_vm_mem 0x20004 = 0x123" "load64 a64_vm_mem 0x2000C = 3"
    by (simp_all add: a64_vm_mem_def load64_store64_other load32_store64_other load32_store32_other disjoint_runs_def)
  have m: "\<forall>i < unat (3::u64). mapped_a64 0x200000 (vm_mem (pipe_vm a64_vm_mem [])) (0x123 + word_of_nat i)"
    using leaf by (simp add: mapped_a64_def pipe_vm_def page_consts)
  let ?e = "pipe_env\<lparr>e_v2p := virt_to_phys_a64 0x200000\<rparr>" and ?vm = "pipe_vm a64_vm_mem []"
  have eq: "map (\<lambda>i. vm_mem ?vm (fst (virt_to_phys_a64 0x200000 (vm_mem ?vm) (0x123 + word_of_nat i)))) [0..<unat (3::u64)] =
      map (\<lambda>i. a64_vm_mem (0x5123 + word_of_nat i)) [0..<3]"
    by (rule map_cong) (simp_all add: pipe_vm_def phys)
  obtain n vm' where o: "port_write ?e 3 0x20000 ?vm = Some vm'" "unat n \<le> unat (3::u64)"
    "snd (vm_os vm') = snd (vm_os ?vm) @
      take (unat n) (map (\<lambda>i. vm_mem ?vm (fst (virt_to_phys_a64 0x200000 (vm_mem ?vm) (0x123 + word_of_nat i)))) [0..<unat (3::u64)])"
    "load64 (vm_mem vm') (0x20000 + wr_len) = n"
    using port_write_sends_a64 [of ?e "0x200000" ?vm "0x20000" snd "0x123" 3 3, OF _ _ _ _ m] pipe_write_contract args
    by (auto simp: pipe_env_def pipe_vm_def block_offsets)
  have "snd (vm_os vm') = take (unat n) (map (\<lambda>i. a64_vm_mem (0x5123 + word_of_nat i)) [0..<3])"
    using o(3) unfolding eq by (simp add: pipe_vm_def)
  then show ?thesis
    using o(1,2,4) by (intro exI [of _ n] exI [of _ vm']) (simp add: block_offsets)
qed

end
