(* ===== verification/Boot_Aarch64.thy ===== *)
theory Boot_Aarch64
  imports Boot Paging_Aarch64
begin

text \<open>
  Starting a guest on aarch64, \<open>src/uhyve-aarch64.c\<close>: \<open>init_kvm_arch\<close> with its two memory regions, \<open>load_kernel\<close>, which
  puts the boot parameters into the image of the kernel itself, \<open>init_cpu_state\<close> and the operations on the FIQ mask.  The ELF
  file and its headers are those of the theory \<open>Boot\<close>.
\<close>

unbundle bit_operations_syntax

section \<open>The virtual machine\<close>

record kvm_arch_a64 =
  aa_guest_mem :: u64
  aa_mergeable :: bool
  aa_hugepage :: bool
  aa_readonly :: memory_region
  aa_region :: memory_region

text \<open>
  \<open>None\<close>: \<open>mmap\<close> fails or KVM lacks an extension, and the program ends.  The advice for huge pages depends on
  \<open>HERMIT_MERGEABLE\<close>, as in the code; \<open>HERMIT_HUGEPAGE\<close> is read and not used.
\<close>

definition init_kvm_arch_a64 :: "(u64 \<Rightarrow> u64 option) \<Rightarrow> bytes option \<Rightarrow> bytes option \<Rightarrow> int \<Rightarrow> int \<Rightarrow> u64 \<Rightarrow> kvm_arch_a64 option" where
  "init_kvm_arch_a64 mmap merge hugepage cap_readonly cap_irqfd guest_size =
    (case mmap guest_size of
       None \<Rightarrow> None
     | Some guest_mem \<Rightarrow>
         if cap_readonly \<le> 0 \<or> cap_irqfd \<le> 0 then None
         else Some \<lparr>aa_guest_mem = guest_mem,
           aa_mergeable = (case merge of Some v \<Rightarrow> v \<noteq> [0x30] | None \<Rightarrow> False),
           aa_hugepage = (case merge of Some v \<Rightarrow> v \<noteq> [0x30] | None \<Rightarrow> False),
           aa_readonly = \<lparr>mr_slot = 0, mr_phys = 0, mr_size = PAGE_SIZE, mr_host = guest_mem\<rparr>,
           aa_region = \<lparr>mr_slot = 1, mr_phys = PAGE_SIZE, mr_size = guest_size - PAGE_SIZE, mr_host = guest_mem + PAGE_SIZE\<rparr>\<rparr>)"

section \<open>Virtual CPUs\<close>

definition PSR_F_BIT :: u64 where "PSR_F_BIT = 0x40"
definition PSR_I_BIT :: u64 where "PSR_I_BIT = 0x80"
definition PSR_A_BIT :: u64 where "PSR_A_BIT = 0x100"
definition PSR_D_BIT :: u64 where "PSR_D_BIT = 0x200"
definition PSR_MODE_EL1h :: u64 where "PSR_MODE_EL1h = 5"

datatype vcpu_target = Cortex_A57 | Cortex_A53 | Generic_V8 | Other_Target nat

record vcpu_a64 =
  va_target :: vcpu_target
  va_runnable :: bool
  va_pstate :: u64
  va_pc :: u64
  va_gic_irqs :: "u32 option"

text \<open>\<open>preferred\<close> is what \<open>KVM_ARM_PREFERRED_TARGET\<close> answers, if it succeeds.\<close>

definition choose_target :: "vcpu_target option \<Rightarrow> vcpu_target" where
  "choose_target preferred = (case preferred of
       Some t \<Rightarrow> if t = Cortex_A57 \<or> t = Cortex_A53 then t else Generic_V8
     | None \<Rightarrow> Generic_V8)"

text \<open>
  \<open>init_cpu_state\<close> up to its loop, and the loop: the CPU waits until as many CPUs as its number are up, which the guest counts at
  \<open>mboot + 0x120\<close>, and then puts its number at \<open>mboot + 0x130\<close>.
\<close>

definition init_cpu_state_a64 :: "vcpu_target option \<Rightarrow> int \<Rightarrow> u64 \<Rightarrow> vcpu_a64 \<Rightarrow> vcpu_a64" where
  "init_cpu_state_a64 preferred gic_fd elf_entry v =
     v\<lparr>va_target := choose_target preferred, va_runnable := True,
       va_pstate := PSR_D_BIT OR PSR_A_BIT OR PSR_I_BIT OR PSR_F_BIT OR PSR_MODE_EL1h, va_pc := elf_entry,
       va_gic_irqs := (if gic_fd > 0 then Some (1 * 32 + 32) else va_gic_irqs v)\<rparr>"

definition may_start :: "u64 \<Rightarrow> u32 \<Rightarrow> gmem \<Rightarrow> bool" where
  "may_start mboot cpuid mem \<longleftrightarrow> \<not> load32 mem (mboot + 0x120) < cpuid"

definition start_cpu :: "u64 \<Rightarrow> u32 \<Rightarrow> gmem \<Rightarrow> gmem" where
  "start_cpu mboot cpuid mem = store32 mem (mboot + 0x130) cpuid"

definition get_fiq_status :: "vcpu_a64 \<Rightarrow> int" where
  "get_fiq_status v = (if va_pstate v AND PSR_F_BIT \<noteq> 0 then 1 else 0)"

definition mask_fiqs :: "vcpu_a64 \<Rightarrow> vcpu_a64" where
  "mask_fiqs v = v\<lparr>va_pstate := va_pstate v OR PSR_F_BIT\<rparr>"

definition unmask_fiqs :: "vcpu_a64 \<Rightarrow> vcpu_a64" where
  "unmask_fiqs v = v\<lparr>va_pstate := va_pstate v AND NOT PSR_F_BIT\<rparr>"

section \<open>Loading\<close>

definition EM_AARCH64 :: u16 where "EM_AARCH64 = 183"

record loader_a64 =
  al_mem :: gmem
  al_klog :: "u64 option"
  al_mboot :: "u64 option"
  al_static_start :: u64
  al_static_size :: u64

text \<open>The parameters of the kernel, at fixed offsets of its first segment.\<close>

definition fill_params :: "boot_env \<Rightarrow> u32 \<Rightarrow> u64 \<Rightarrow> gmem \<Rightarrow> gmem" where
  "fill_params be ncores paddr mem =
    (let mem = store64 mem (paddr + 0x100) paddr;
         mem = store64 mem (paddr + 0x108) (be_guest_size be - PAGE_SIZE);
         mem = store32 mem (paddr + 0x110) (be_cpu_freq be);
         mem = store32 mem (paddr + 0x128) ncores;
         mem = store32 mem (paddr + 0x130) 0;
         mem = store32 mem (paddr + 0x148) 1;
         mem = (if be_verbose be then store32 mem (paddr + 0x174) 0x800 else mem)
     in store64 mem (paddr + 0x18c) (be_tv_sec be * 1000000))"

definition note_segment_a64 :: "boot_env \<Rightarrow> u32 \<Rightarrow> phdr \<Rightarrow> loader_a64 \<times> u64 \<Rightarrow> loader_a64 \<times> u64" where
  "note_segment_a64 be ncores ph = (\<lambda>(ld, pstart).
    let paddr = ph_paddr ph;
        ld = (if al_klog ld = None then ld\<lparr>al_klog := Some (paddr + 0x1000)\<rparr> else ld);
        ld = (if al_mboot ld = None then ld\<lparr>al_mboot := Some paddr\<rparr> else ld);
        (ld, pstart) = (if pstart = 0 then (ld\<lparr>al_mem := fill_params be ncores paddr (al_mem ld)\<rparr>, paddr) else (ld, pstart))
    in (ld\<lparr>al_mem := store64 (al_mem ld) (pstart + 0x158) (paddr + ph_memsz ph - pstart)\<rparr>, pstart))"

definition load_segment_a64 :: "boot_env \<Rightarrow> u32 \<Rightarrow> phdr \<Rightarrow> pfile \<times> loader_a64 \<times> u64 \<Rightarrow> bool \<times> pfile \<times> loader_a64 \<times> u64" where
  "load_segment_a64 be ncores ph = (\<lambda>(f, ld, pstart).
    if ph_type ph \<noteq> PT_LOAD then (True, f, ld, pstart)
    else let ld = (if ph_type ph \<noteq> PT_TLS then ld\<lparr>al_static_size := ph_memsz ph, al_static_start := ph_paddr ph\<rparr> else ld);
             (ok, bs, f) = pread_in_full f (unat (ph_filesz ph)) (unat (ph_offset ph));
             ld = ld\<lparr>al_mem := store_bytes (al_mem ld) (ph_paddr ph) bs\<rparr>
         in if ret_negative ok bs then (False, f, ld, pstart)
            else (True, f, note_segment_a64 be ncores ph (ld, pstart)))"

fun load_segments_a64 :: "boot_env \<Rightarrow> u32 \<Rightarrow> phdr list \<Rightarrow> pfile \<times> loader_a64 \<times> u64 \<Rightarrow> bool \<times> pfile \<times> loader_a64 \<times> u64" where
  "load_segments_a64 be ncores [] st = (True, st)"
| "load_segments_a64 be ncores (ph # phs) st =
    (case load_segment_a64 be ncores ph st of (False, st) \<Rightarrow> (False, st) | (True, st) \<Rightarrow> load_segments_a64 be ncores phs st)"

definition load_kernel_a64 :: "boot_env \<Rightarrow> u32 \<Rightarrow> gmem \<Rightarrow> bool \<Rightarrow> pfile option \<Rightarrow> loader_a64 \<Rightarrow> bool \<times> loader_a64 \<times> u64 option" where
  "load_kernel_a64 be ncores junk malloced file ld =
    (case file of
       None \<Rightarrow> (False, ld, None)
     | Some f \<Rightarrow>
         let (ok, bs, f) = pread_in_full f sizeof_Ehdr 0; hdr = store_bytes junk 0 bs
         in if ret_negative ok bs then (False, ld, None)
            else if \<not> elf_ok EM_AARCH64 hdr then (False, ld, None)
            else let buflen = unat (e_phentsize hdr) * unat (e_phnum hdr)
                 in if \<not> malloced then (False, ld, Some (e_entry hdr))
                    else let (ok, bs, f) = pread_in_full f buflen (unat (e_phoff hdr)); phdr = store_bytes junk 0 bs
                         in if ret_negative ok bs then (False, ld, Some (e_entry hdr))
                            else let (ok, f, ld, pstart) = load_segments_a64 be ncores (map (phdr_at phdr) [0..<unat (e_phnum hdr)]) (f, ld, 0)
                                 in (ok, ld, Some (e_entry hdr)))"

section \<open>Lemmas\<close>

text \<open>The parameters lie in a run of \<open>0x94\<close> bytes of the first segment.\<close>

definition PARAMS :: nat where "PARAMS = 0x94"

definition params_at :: "u64 \<Rightarrow> u64" where "params_at ps = ps + 0x100"

definition params_ok :: "boot_env \<Rightarrow> u32 \<Rightarrow> u64 \<Rightarrow> gmem \<Rightarrow> bool" where
  "params_ok be ncores ps mem \<longleftrightarrow> load64 mem (ps + 0x100) = ps \<and> load64 mem (ps + 0x108) = be_guest_size be - PAGE_SIZE \<and>
     load32 mem (ps + 0x110) = be_cpu_freq be \<and> load32 mem (ps + 0x128) = ncores \<and> load32 mem (ps + 0x130) = 0 \<and>
     load32 mem (ps + 0x148) = 1 \<and> load64 mem (ps + 0x18c) = be_tv_sec be * 1000000"

lemma fill_params_ok: "params_ok be ncores paddr (store64 (fill_params be ncores paddr mem) (paddr + 0x158) w)"
  by (simp add: params_ok_def fill_params_def Let_def load64_store64_other load64_store32_other load32_store64_other load32_store32_other
      disjoint_runs_def)

lemma params_ok_image_size: "params_ok be ncores ps mem \<Longrightarrow> params_ok be ncores ps (store64 mem (ps + 0x158) w)"
  by (simp add: params_ok_def load64_store64_other load32_store64_other disjoint_runs_def)

lemma param_field: "\<not> in_run x (params_at ps) PARAMS \<Longrightarrow> k + n \<le> 0x94 \<Longrightarrow> \<not> in_run x (ps + 0x100 + word_of_nat k) n"
  using in_run_shift [of x "params_at ps" k n "0x94"] by (auto simp: PARAMS_def params_at_def)

lemma image_size_outside:
  assumes "\<not> in_run x (params_at ps) PARAMS"
  shows "store64 mem (ps + 0x158) w x = mem x"
  using param_field [OF assms, of "0x58" 8] by (simp add: store64_outside add.assoc)

lemma fill_params_outside:
  assumes "\<not> in_run x (params_at ps) PARAMS"
  shows "fill_params be ncores ps mem x = mem x"
  using param_field [OF assms, of 0 8] param_field [OF assms, of 8 8] param_field [OF assms, of "0x10" 4] param_field [OF assms, of "0x28" 4]
    param_field [OF assms, of "0x30" 4] param_field [OF assms, of "0x48" 4] param_field [OF assms, of "0x74" 4] param_field [OF assms, of "0x8c" 8]
  by (simp add: fill_params_def Let_def store64_outside store32_outside add.assoc)

lemma params_ok_cong:
  assumes "\<And>x. in_run x (params_at ps) PARAMS \<Longrightarrow> mem x = mem' x"
  shows "params_ok be ncores ps mem \<longleftrightarrow> params_ok be ncores ps mem'"
proof -
  have r: "mem x = mem' x" if "in_run x (params_at ps + word_of_nat k) n" and "k + n \<le> 0x94" for x k n
    using in_run_shift [OF that] assms [of x] by (simp add: PARAMS_def)
  have "load64 mem (params_at ps + word_of_nat k) = load64 mem' (params_at ps + word_of_nat k)" if "k + 8 \<le> 0x94" for k
    using r [of _ k 8] that by (intro load64_cong) simp
  moreover have "load32 mem (params_at ps + word_of_nat k) = load32 mem' (params_at ps + word_of_nat k)" if "k + 4 \<le> 0x94" for k
    using r [of _ k 4] that by (intro load32_cong) simp
  note this [of "0x10"] this [of "0x28"] this [of "0x30"] this [of "0x48"] calculation [of 0] calculation [of 8] calculation [of "0x8c"]
  then show ?thesis
    by (simp add: params_ok_def params_at_def add.assoc)
qed

text \<open>The segments that are loaded; the others do not change anything.\<close>

definition loads :: "phdr list \<Rightarrow> phdr list" where
  "loads phs = filter (\<lambda>ph. ph_type ph = PT_LOAD) phs"

lemma load_segments_loads: "load_segments_a64 be ncores phs st = load_segments_a64 be ncores (loads phs) st"
proof (induction phs arbitrary: st)
  case (Cons ph phs)
  then show ?case
    by (cases st) (auto simp: loads_def load_segment_a64_def split: prod.splits bool.splits)
qed (simp add: loads_def)

definition in_file :: "bytes \<Rightarrow> phdr \<Rightarrow> bool" where
  "in_file data ph \<longleftrightarrow> unat (ph_offset ph) + unat (ph_filesz ph) \<le> length data \<and> unat (ph_filesz ph) < 2 ^ 31"

text \<open>Two segments that overlap agree: the lemma of the theory \<open>Boot\<close>, without the boot header there.\<close>

lemma seg_byte_same:
  assumes "in_file data p" and "in_file data q" and "segs_compatible p q" and "length data < 2 ^ 64"
    and "in_run x (ph_paddr p) (unat (ph_filesz p))" and "in_run x (ph_paddr q) (unat (ph_filesz q))"
  shows "seg_byte data p x = seg_byte data q x"
proof -
  have sum: "unat (ph_offset r + (x - ph_paddr r)) = unat (ph_offset r) + unat (x - ph_paddr r)"
    if "in_file data r" and "in_run x (ph_paddr r) (unat (ph_filesz r))" for r
    using that assms(4) by (subst unat_add_lem [THEN iffD1]) (simp_all add: in_file_def in_run_def)
  have "\<not> disjoint_runs (ph_paddr p) (unat (ph_filesz p)) (ph_paddr q) (unat (ph_filesz q))"
    using disjoint_runs_not_in [of "ph_paddr p" "unat (ph_filesz p)" "ph_paddr q" "unat (ph_filesz q)" "unat (x - ph_paddr p)"] assms(5,6)
    by (auto simp: in_run_def)
  then have d: "ph_paddr p - ph_offset p = ph_paddr q - ph_offset q"
    using assms(3) by (simp add: segs_compatible_def)
  have "ph_offset p + (x - ph_paddr p) = x - (ph_paddr p - ph_offset p)" by simp
  also have "\<dots> = ph_offset q + (x - ph_paddr q)" by (simp add: d)
  finally have "unat (ph_offset p + (x - ph_paddr p)) = unat (ph_offset q + (x - ph_paddr q))" by (simp only:)
  then show ?thesis
    unfolding seg_byte_def sum [OF assms(1,5)] sum [OF assms(2,6)] by (simp only:)
qed

lemma load_segment_a64_eq:
  assumes "reads_ok f" and "ph_type ph = PT_LOAD" and "in_file (f_data f) ph"
  obtains f' bs where "load_segment_a64 be ncores ph (f, ld, ps) = (True, f', note_segment_a64 be ncores ph
      (ld\<lparr>al_static_size := ph_memsz ph, al_static_start := ph_paddr ph, al_mem := store_bytes (al_mem ld) (ph_paddr ph) bs\<rparr>, ps))"
    and "length bs = unat (ph_filesz ph)"
    and "\<And>m x. store_bytes m (ph_paddr ph) bs x = (if in_run x (ph_paddr ph) (unat (ph_filesz ph)) then seg_byte (f_data f) ph x else m x)"
    and "reads_ok f'" and "f_data f' = f_data f"
proof -
  let ?bs = "take (unat (ph_filesz ph)) (drop (unat (ph_offset ph)) (f_data f))"
  have sz: "unat (ph_filesz ph) < 2 ^ 31" and b: "unat (ph_offset ph) + unat (ph_filesz ph) \<le> length (f_data f)"
    using assms(3) by (simp_all add: in_file_def)
  obtain f' where pr: "pread_in_full f (unat (ph_filesz ph)) (unat (ph_offset ph)) = (True, ?bs, f')"
    and f': "reads_ok f'" "f_data f' = f_data f"
    using pread_in_full_ok [OF assms(1) sz] by blast
  have nn: "\<not> ret_negative True ?bs"
    using sz by (intro small_not_negative) simp
  show thesis
  proof (rule that [OF _ _ _ f'])
    show "load_segment_a64 be ncores ph (f, ld, ps) = (True, f', note_segment_a64 be ncores ph
        (ld\<lparr>al_static_size := ph_memsz ph, al_static_start := ph_paddr ph, al_mem := store_bytes (al_mem ld) (ph_paddr ph) ?bs\<rparr>, ps))"
      using assms(2) pr nn by (simp add: load_segment_a64_def PT_LOAD_def PT_TLS_def)
    show "length ?bs = unat (ph_filesz ph)" using b by simp
    show "store_bytes m (ph_paddr ph) ?bs x = (if in_run x (ph_paddr ph) (unat (ph_filesz ph)) then seg_byte (f_data f) ph x else m x)" for m x
      using b by (simp add: store_bytes_def in_run_def seg_byte_def Let_def)
  qed
qed

text \<open>What holds once the segments \<open>done\<close> are loaded, the first of them at \<open>ps\<close>.\<close>

definition seg_state :: "boot_env \<Rightarrow> u32 \<Rightarrow> bytes \<Rightarrow> phdr list \<Rightarrow> u64 \<Rightarrow> loader_a64 \<Rightarrow> bool" where
  "seg_state be ncores data phs ps ld \<longleftrightarrow>
     (\<forall>ph \<in> set phs. \<forall>x. in_run x (ph_paddr ph) (unat (ph_filesz ph)) \<and> \<not> in_run x (params_at ps) PARAMS \<longrightarrow> al_mem ld x = seg_byte data ph x) \<and>
     params_ok be ncores ps (al_mem ld) \<and>
     load64 (al_mem ld) (ps + 0x158) = ph_paddr (last phs) + ph_memsz (last phs) - ps \<and>
     al_static_start ld = ph_paddr (last phs) \<and> al_static_size ld = ph_memsz (last phs) \<and>
     al_klog ld = Some (ps + 0x1000) \<and> al_mboot ld = Some ps"

lemma first_segment:
  assumes "reads_ok f" and "ph_type ph = PT_LOAD" and "in_file (f_data f) ph" and "ph_paddr ph \<noteq> 0"
    and "al_klog ld = None" and "al_mboot ld = None"
  obtains f' ld' where "load_segment_a64 be ncores ph (f, ld, 0) = (True, f', ld', ph_paddr ph)"
    and "reads_ok f'" and "f_data f' = f_data f" and "seg_state be ncores (f_data f) [ph] (ph_paddr ph) ld'"
proof -
  obtain f' bs where "load_segment_a64 be ncores ph (f, ld, 0) = (True, f', note_segment_a64 be ncores ph
      (ld\<lparr>al_static_size := ph_memsz ph, al_static_start := ph_paddr ph, al_mem := store_bytes (al_mem ld) (ph_paddr ph) bs\<rparr>, 0))"
    and "\<And>m x. store_bytes m (ph_paddr ph) bs x = (if in_run x (ph_paddr ph) (unat (ph_filesz ph)) then seg_byte (f_data f) ph x else m x)"
    and "reads_ok f'" and "f_data f' = f_data f"
    using load_segment_a64_eq [OF assms(1-3)] by metis
  then show thesis
    using assms(5,6) fill_params_ok
    by (intro that [of f' "fst (note_segment_a64 be ncores ph (ld\<lparr>al_static_size := ph_memsz ph, al_static_start := ph_paddr ph,
        al_mem := store_bytes (al_mem ld) (ph_paddr ph) bs\<rparr>, 0))"])
      (auto simp: note_segment_a64_def Let_def seg_state_def image_size_outside fill_params_outside)
qed

lemma next_segment:
  assumes "reads_ok f" and "ph_type ph = PT_LOAD" and "in_file (f_data f) ph" and "ps \<noteq> 0" and "length (f_data f) < 2 ^ 64"
    and "seg_state be ncores (f_data f) phs ps ld" and "\<forall>q \<in> set phs. in_file (f_data f) q \<and> segs_compatible ph q"
    and "disjoint_runs (ph_paddr ph) (unat (ph_filesz ph)) (params_at ps) PARAMS"
  obtains f' ld' where "load_segment_a64 be ncores ph (f, ld, ps) = (True, f', ld', ps)"
    and "reads_ok f'" and "f_data f' = f_data f" and "seg_state be ncores (f_data f) (phs @ [ph]) ps ld'"
proof -
  obtain f' bs where l: "load_segment_a64 be ncores ph (f, ld, ps) = (True, f', note_segment_a64 be ncores ph
      (ld\<lparr>al_static_size := ph_memsz ph, al_static_start := ph_paddr ph, al_mem := store_bytes (al_mem ld) (ph_paddr ph) bs\<rparr>, ps))"
    and b: "\<And>m x. store_bytes m (ph_paddr ph) bs x = (if in_run x (ph_paddr ph) (unat (ph_filesz ph)) then seg_byte (f_data f) ph x else m x)"
    and f': "reads_ok f'" "f_data f' = f_data f"
    using load_segment_a64_eq [OF assms(1-3)] by metis
  have out: "\<not> in_run x (ph_paddr ph) (unat (ph_filesz ph))" if "in_run x (params_at ps) PARAMS" for x
    using disjoint_runs_not_in [OF assms(8), of "unat (x - ph_paddr ph)"] that by (auto simp: in_run_def)
  have p: "params_ok be ncores ps (store_bytes (al_mem ld) (ph_paddr ph) bs)"
    using assms(6) params_ok_cong [of ps "store_bytes (al_mem ld) (ph_paddr ph) bs" "al_mem ld"] out by (simp add: seg_state_def b)
  have m: "store_bytes (al_mem ld) (ph_paddr ph) bs x = seg_byte (f_data f) q x"
    if "q \<in> set phs \<or> q = ph" "in_run x (ph_paddr q) (unat (ph_filesz q))" "\<not> in_run x (params_at ps) PARAMS" for q x
    using that assms(6,7) seg_byte_same [OF assms(3) _ _ assms(5), of q x] by (auto simp: b seg_state_def)
  show thesis
    using assms(4,6) l f' m params_ok_image_size [OF p]
    by (intro that [of f' "fst (note_segment_a64 be ncores ph (ld\<lparr>al_static_size := ph_memsz ph, al_static_start := ph_paddr ph,
        al_mem := store_bytes (al_mem ld) (ph_paddr ph) bs\<rparr>, ps))"])
      (auto simp: note_segment_a64_def Let_def seg_state_def image_size_outside)
qed

lemma rest_segments:
  assumes "ps \<noteq> 0" and "length data < 2 ^ 64"
  shows "reads_ok f \<Longrightarrow> f_data f = data \<Longrightarrow> seg_state be ncores data done ps ld \<Longrightarrow>
    \<forall>p \<in> set (done @ phs). in_file data p \<and> (\<forall>q \<in> set (done @ phs). segs_compatible p q) \<Longrightarrow>
    \<forall>p \<in> set phs. ph_type p = PT_LOAD \<and> disjoint_runs (ph_paddr p) (unat (ph_filesz p)) (params_at ps) PARAMS \<Longrightarrow>
    \<exists>f' ld'. load_segments_a64 be ncores phs (f, ld, ps) = (True, f', ld', ps) \<and> seg_state be ncores data (done @ phs) ps ld'"
proof (induction phs arbitrary: "done" f ld)
  case (Cons ph phs)
  obtain f1 ld1 where 1: "load_segment_a64 be ncores ph (f, ld, ps) = (True, f1, ld1, ps)" "reads_ok f1" "f_data f1 = data"
    "seg_state be ncores data (done @ [ph]) ps ld1"
    using next_segment [of f ph ps be ncores "done" ld] assms Cons.prems by auto
  then show ?case
    using Cons.IH [of f1 "done @ [ph]" ld1] Cons.prems by auto
qed auto

definition segs_a64 :: "bytes \<Rightarrow> phdr list \<Rightarrow> bool" where
  "segs_a64 data phs \<longleftrightarrow> length data < 2 ^ 64 \<and> phs \<noteq> [] \<and> ph_paddr (hd phs) \<noteq> 0 \<and>
     (\<forall>p \<in> set phs. in_file data p \<and> (\<forall>q \<in> set phs. segs_compatible p q)) \<and>
     (\<forall>p \<in> set (tl phs). disjoint_runs (ph_paddr p) (unat (ph_filesz p)) (params_at (ph_paddr (hd phs))) PARAMS)"

section \<open>Properties\<close>

text \<open>
  C25.  On aarch64, \<open>load_kernel\<close> of a complete ELF file whose \<open>PT_LOAD\<close> segments lie in the file, agree where they overlap and do not
  overwrite the parameters in the first one succeeds: guest memory holds every segment except for the parameters, which describe
  the guest and the size of the image, and the static memory, on which the debugger takes addresses as they are, is the last segment.
\<close>

theorem load_kernel_a64_loads:
  assumes "reads_ok f" and "elf_file EM_AARCH64 (f_data f)" and "segs_a64 (f_data f) (loads (elf_phdrs (f_data f)))"
    and "al_klog ld = None" and "al_mboot ld = None"
  shows "\<exists>ld'. load_kernel_a64 be ncores junk True (Some f) ld = (True, ld', Some (e_entry (store_bytes (\<lambda>_. 0) 0 (take sizeof_Ehdr (f_data f))))) \<and>
    seg_state be ncores (f_data f) (loads (elf_phdrs (f_data f))) (ph_paddr (hd (loads (elf_phdrs (f_data f))))) ld'"
proof -
  let ?phs = "loads (elf_phdrs (f_data f))"
  obtain bs f1 pb f2 where r: "pread_in_full f sizeof_Ehdr 0 = (True, bs, f1)" "\<not> ret_negative True bs"
    "elf_ok EM_AARCH64 (store_bytes junk 0 bs)"
    "pread_in_full f1 (unat (e_phentsize (store_bytes junk 0 bs)) * unat (e_phnum (store_bytes junk 0 bs))) (unat (e_phoff (store_bytes junk 0 bs))) =
       (True, pb, f2)" "\<not> ret_negative True pb"
    "map (phdr_at (store_bytes junk 0 pb)) [0..<unat (e_phnum (store_bytes junk 0 bs))] = elf_phdrs (f_data f)"
    and f2: "reads_ok f2" "f_data f2 = f_data f"
    and e: "e_entry (store_bytes junk 0 bs) = e_entry (store_bytes (\<lambda>_. 0) 0 (take sizeof_Ehdr (f_data f)))"
    by (rule elf_headers_read [OF assms(1,2)])
  obtain ph rest where ph: "?phs = ph # rest" using assms(3) by (cases ?phs) (auto simp: segs_a64_def)
  have load: "\<forall>p \<in> set (ph # rest). ph_type p = PT_LOAD" unfolding ph [symmetric] by (simp add: loads_def)
  have ok: "in_file (f_data f) ph" "ph_paddr ph \<noteq> 0" "length (f_data f) < 2 ^ 64" using assms(3) ph by (auto simp: segs_a64_def)
  have t: "ph_type ph = PT_LOAD" using load by simp
  obtain f3 ld3 where 3: "load_segment_a64 be ncores ph (f2, ld, 0) = (True, f3, ld3, ph_paddr ph)" "reads_ok f3" "f_data f3 = f_data f"
    "seg_state be ncores (f_data f) [ph] (ph_paddr ph) ld3"
    using first_segment [OF f2(1) t _ ok(2) assms(4,5), where be = be and ncores = ncores] ok(1) unfolding f2(2) by blast
  obtain f4 ld4 where 4: "load_segments_a64 be ncores rest (f3, ld3, ph_paddr ph) = (True, f4, ld4, ph_paddr ph)"
    "seg_state be ncores (f_data f) ([ph] @ rest) (ph_paddr ph) ld4"
    using rest_segments [OF ok(2,3) 3(2-4), of rest] assms(3) load ph by (auto simp: segs_a64_def)
  have "load_segments_a64 be ncores (elf_phdrs (f_data f)) (f2, ld, 0) = (True, f4, ld4, ph_paddr ph)"
    using 3(1) 4(1) by (simp add: load_segments_loads [of _ _ "elf_phdrs (f_data f)"] ph)
  then show ?thesis
    using r e 4(2) ph by (simp add: load_kernel_a64_def)
qed

definition elf_a64 :: bytes where "elf_a64 = sample_elf[18 := 183]"

lemma elf_a64_ok: "elf_file EM_AARCH64 elf_a64"
  by code_simp

lemma elf_a64_header: "e_phoff (store_bytes (\<lambda>_. 0) 0 (take sizeof_Ehdr elf_a64)) = 64"
  "e_phnum (store_bytes (\<lambda>_. 0) 0 (take sizeof_Ehdr elf_a64)) = 1"
  by code_simp+

lemma elf_a64_entry: "e_entry (store_bytes (\<lambda>_. 0) 0 (take sizeof_Ehdr elf_a64)) = 0x100000"
proof -
  have l: "load_bytes (store_bytes (\<lambda>_. 0) 0 (take sizeof_Ehdr elf_a64)) 24 8 = [0, 0, 16, 0, 0, 0, 0, 0]"
    by code_simp
  show ?thesis by (simp add: e_entry_def load64_def dec64_def l)
qed

lemma elf_a64_length: "length elf_a64 = 123"
  by (simp add: elf_a64_def sample_elf_length)

lemma elf_a64_phdrs: "elf_phdrs elf_a64 = elf_phdrs sample_elf"
proof -
  have "elf_a64 ! (64 + n) = sample_elf ! (64 + n)" for n by (simp add: elf_a64_def)
  then show ?thesis
    by (simp add: elf_phdrs_def Let_def elf_a64_header sample_elf_header)
qed

theorem load_kernel_a64_loads_witness:
  "\<exists>ld'. load_kernel_a64 be0 4 (\<lambda>_. 0) True (Some \<lparr>f_data = elf_a64, f_script = [PrIntr, PrChunk 7]\<rparr>)
      \<lparr>al_mem = \<lambda>_. 0, al_klog = None, al_mboot = None, al_static_start = 0, al_static_size = 0\<rparr> = (True, ld', Some 0x100000) \<and>
    al_mem ld' 0x100001 = 0xeb \<and> load32 (al_mem ld') 0x100128 = 4 \<and> load64 (al_mem ld') 0x100158 = 0x4000 \<and> al_klog ld' = Some 0x101000"
proof -
  let ?f = "\<lparr>f_data = elf_a64, f_script = [PrIntr, PrChunk 7]\<rparr>"
  let ?ld = "\<lparr>al_mem = \<lambda>_. 0, al_klog = None, al_mboot = None, al_static_start = 0, al_static_size = 0\<rparr>"
  have l: "loads (elf_phdrs elf_a64) = [\<lparr>ph_type = 1, ph_paddr = 0x100000, ph_offset = 120, ph_filesz = 3, ph_memsz = 0x4000\<rparr>]"
    by (simp add: elf_a64_phdrs sample_elf_phdrs loads_def PT_LOAD_def)
  have "segs_a64 elf_a64 (loads (elf_phdrs elf_a64))"
    by (simp add: l segs_a64_def in_file_def segs_compatible_def elf_a64_length)
  moreover have "reads_ok ?f" by (simp add: reads_ok_def)
  ultimately obtain ld' where k: "load_kernel_a64 be0 4 (\<lambda>_. 0) True (Some ?f) ?ld = (True, ld', Some 0x100000)"
    and s: "seg_state be0 4 elf_a64 (loads (elf_phdrs elf_a64)) 0x100000 ld'"
    using load_kernel_a64_loads [of ?f ?ld be0 4 "\<lambda>_. 0"] elf_a64_ok by (auto simp: elf_a64_entry l)
  have "al_mem ld' 0x100001 = seg_byte elf_a64 (hd (loads (elf_phdrs elf_a64))) 0x100001"
    using s by (simp add: seg_state_def l in_run_def params_at_def PARAMS_def)
  also have "\<dots> = 0xeb"
    unfolding l by (simp add: seg_byte_def elf_a64_def sample_elf_def)
  finally show ?thesis
    using k s by (auto simp: seg_state_def params_ok_def l)
qed

text \<open>
  On aarch64 the two KVM regions back exactly the guest addresses below the guest size, at the same offset of the mapping,
  and the first page, and only it, is read-only.
\<close>

theorem guest_memory_backed_a64:
  assumes "init_kvm_arch_a64 mmap merge hugepage cap_readonly cap_irqfd guest_size = Some k" and "PAGE_SIZE \<le> guest_size"
  shows "(backed_at [aa_readonly k, aa_region k] a h \<longleftrightarrow> a < guest_size \<and> h = aa_guest_mem k + a) \<and>
    (backed_at [aa_readonly k] a h \<longleftrightarrow> a < PAGE_SIZE \<and> h = aa_guest_mem k + a) \<and>
    \<not> (backed_at [aa_readonly k] a h \<and> backed_at [aa_region k] a h)"
proof -
  obtain gm where k: "aa_readonly k = \<lparr>mr_slot = 0, mr_phys = 0, mr_size = PAGE_SIZE, mr_host = gm\<rparr>" "aa_guest_mem k = gm"
    "aa_region k = \<lparr>mr_slot = 1, mr_phys = PAGE_SIZE, mr_size = guest_size - PAGE_SIZE, mr_host = gm + PAGE_SIZE\<rparr>"
    using assms(1) by (auto simp: init_kvm_arch_a64_def split: option.splits if_splits)
  have p: "PAGE_SIZE = 0x1000" by (simp add: page_consts)
  have u: "unat (guest_size - 0x1000) = unat guest_size - 0x1000"
    using assms(2) by (simp add: unat_sub p)
  have "in_run a 0 0x1000 \<longleftrightarrow> unat a < 0x1000" "in_run a 0x1000 (unat guest_size - 0x1000) \<longleftrightarrow> 0x1000 \<le> unat a \<and> unat a < unat guest_size"
    using assms(2) unat_less_exp [of guest_size] by (auto simp: in_run_nat p word_le_nat_alt)
  then show ?thesis
    unfolding backed_at_def k p using u assms(2) by (auto simp: word_less_nat_alt word_le_nat_alt p)
qed

theorem guest_memory_backed_a64_witness:
  "\<exists>k. init_kvm_arch_a64 (\<lambda>_. Some 0x7f0000000000) None None 1 1 0x4000000 = Some k \<and> backed_at [aa_readonly k, aa_region k] 0x1234 0x7f0000001234 \<and>
     \<not> backed_at [aa_readonly k] 0x1234 0x7f0000001234"
proof -
  obtain k where k: "init_kvm_arch_a64 (\<lambda>_. Some 0x7f0000000000) None None 1 1 0x4000000 = Some k" "aa_guest_mem k = 0x7f0000000000"
    by (simp add: init_kvm_arch_a64_def)
  have p: "PAGE_SIZE = 0x1000" by (simp add: page_consts)
  show ?thesis
    using k guest_memory_backed_a64 [OF k(1), of "0x1234" "0x7f0000001234"] by (simp add: p)
qed

text \<open>The FIQ mask: it is read back as it was set, and no other bit changes.\<close>

lemma fiq_mask:
  "get_fiq_status (mask_fiqs v) = 1" "get_fiq_status (unmask_fiqs v) = 0"
  "n \<noteq> 6 \<Longrightarrow> bit (va_pstate (mask_fiqs v)) n = bit (va_pstate v) n" "n \<noteq> 6 \<Longrightarrow> bit (va_pstate (unmask_fiqs v)) n = bit (va_pstate v) n"
proof -
  have F: "PSR_F_BIT = push_bit 6 1" by (simp add: PSR_F_BIT_def)
  have b: "bit PSR_F_BIT n \<longleftrightarrow> n = 6" for n unfolding F by (rule bit_push_1) simp
  show "get_fiq_status (mask_fiqs v) = 1" "get_fiq_status (unmask_fiqs v) = 0"
    unfolding get_fiq_status_def F and_single_bit by (simp_all add: mask_fiqs_def unmask_fiqs_def bit_simps b F [symmetric])
  show "n \<noteq> 6 \<Longrightarrow> bit (va_pstate (mask_fiqs v)) n = bit (va_pstate v) n" "n \<noteq> 6 \<Longrightarrow> bit (va_pstate (unmask_fiqs v)) n = bit (va_pstate v) n"
    by (auto simp: mask_fiqs_def unmask_fiqs_def bit_simps b dest: bit_imp_le_length)
qed

text \<open>A started CPU begins at the entry point with all interrupts masked; the order of the starts is the guest's counter.\<close>

lemma init_cpu_state_a64_masked:
  "va_pc (init_cpu_state_a64 preferred gic_fd entry v) = entry \<and> get_fiq_status (init_cpu_state_a64 preferred gic_fd entry v) = 1"
  by (simp add: init_cpu_state_a64_def get_fiq_status_def PSR_F_BIT_def PSR_I_BIT_def PSR_A_BIT_def PSR_D_BIT_def PSR_MODE_EL1h_def)

end
