(* ===== verification/Rdma.thy ===== *)
theory Rdma
  imports Checkpoint Migration_Channel
begin

text \<open>
  Migration over InfiniBand, \<open>src/uhyve-migration-rdma.c\<close>: the list of work requests (WRs) the copy phases build, either from all
  registered memory regions (MRs) or from the pages the scan of the theory \<open>Checkpoint\<close> finds, and the loop that passes them to the host
  channel adapter.  The connection is the theory \<open>Rdma_Connection\<close>.

  The verbs library is a parameter, the record \<open>verbs\<close> of the two calls of \<open>process_send_list\<close> on a state of any type; what is used of it
  is the predicate \<open>hca_contract\<close>.  The linked list of WRs is a list; \<open>send_list_last\<close> is its last element.
\<close>

unbundle bit_operations_syntax

section \<open>Work requests\<close>

definition MIG_ITERS :: u32 where "MIG_ITERS = 4"
definition IB_MAX_SEND_WR :: nat where "IB_MAX_SEND_WR = 8192"
definition IB_WR_WRITE_LAST_PAGE_ID :: u64 where "IB_WR_WRITE_LAST_PAGE_ID = 1"
definition IB_WR_BASE_ID :: u64 where "IB_WR_BASE_ID = 3"

record mr =
  mr_addr :: u64
  mr_length :: u64
  mr_lkey :: u32
  mr_rkey :: u32

text \<open>The fields of \<open>com_hndl\<close> that the copy phases use, and \<open>guest_mem\<close>.\<close>

record com_hndl =
  ch_mrs :: "mr list"
  ch_rem_addr :: u64
  ch_rem_keys :: "u32 list"
  ch_max_msg_sz :: u32
  ch_guest_mem :: u64

text \<open>A WR: \<open>IBV_WR_RDMA_WRITE\<close>, or \<open>IBV_WR_RDMA_WRITE_WITH_IMM\<close> with its data.\<close>

record send_wr =
  w_id :: u64
  w_addr :: u64
  w_len :: u32
  w_lkey :: u32
  w_rkey :: u32
  w_remote :: u64
  w_imm :: "u32 option"
  w_signaled :: bool
  w_solicited :: bool

record sendq =
  q_list :: "send_wr list"
  q_length :: u64
  q_wr_id :: u64
  q_prefetched :: "(nat \<times> u64 \<times> u64) list"

definition empty_sendq :: sendq where
  "empty_sendq = \<lparr>q_list = [], q_length = 0, q_wr_id = IB_WR_BASE_ID, q_prefetched = []\<rparr>"

definition prepare_send_list_elem :: "sendq \<Rightarrow> send_wr \<times> sendq" where
  "prepare_send_list_elem q =
    (let i = q_wr_id q + 1
     in (\<lparr>w_id = i, w_addr = 0, w_len = 0, w_lkey = 0, w_rkey = 0, w_remote = 0, w_imm = None, w_signaled = False, w_solicited = False\<rparr>,
         q\<lparr>q_wr_id := i\<rparr>))"

definition append_to_send_list :: "send_wr \<Rightarrow> sendq \<Rightarrow> sendq" where
  "append_to_send_list wr q =
    (let n = q_length q + 1;
         wr = (if n mod word_of_nat IB_MAX_SEND_WR = 0 then wr\<lparr>w_signaled := True, w_solicited := False\<rparr> else wr)
     in q\<lparr>q_list := q_list q @ [wr], q_length := n\<rparr>)"

definition in_mr :: "mr \<Rightarrow> u64 \<Rightarrow> bool" where
  "in_mr mr ptr \<longleftrightarrow> mr_addr mr \<le> ptr \<and> ptr < mr_addr mr + mr_length mr"

fun find_mr :: "nat \<Rightarrow> mr list \<Rightarrow> u64 \<Rightarrow> (nat \<times> mr) option" where
  "find_mr i [] ptr = None"
| "find_mr i (mr # mrs) ptr = (if in_mr mr ptr then Some (i, mr) else find_mr (i + 1) mrs ptr)"

definition determine_enclosing_mr :: "com_hndl \<Rightarrow> u64 \<Rightarrow> int" where
  "determine_enclosing_mr ch ptr = (case find_mr 0 (ch_mrs ch) ptr of Some (i, _) \<Rightarrow> int i | None \<Rightarrow> -1)"

text \<open>
  \<open>create_send_list_entry\<close>: \<open>addr\<close> is the page table entry \<open>*addr\<close>, if the pointer is not \<open>NULL\<close>.  When no MR contains the page
  the WR is lost, after its number was taken.
\<close>

definition create_send_list_entry :: "com_hndl \<Rightarrow> mig_params_t \<Rightarrow> u64 option \<Rightarrow> u64 \<Rightarrow> u64 \<Rightarrow> sendq \<Rightarrow> sendq" where
  "create_send_list_entry ch mp addr page page_size q =
    (let (wr, q) = prepare_send_list_elem q
     in case find_mr 0 (ch_mrs ch) page of
          None \<Rightarrow> q
        | Some (i, mr) \<Rightarrow>
            let wr = wr\<lparr>w_addr := page, w_len := ucast page_size, w_lkey := mr_lkey mr, w_rkey := ch_rem_keys ch ! i\<rparr>;
                q = (if p_use_odp mp \<and> p_prefetch mp then q\<lparr>q_prefetched := q_prefetched q @ [(i, page, page_size)]\<rparr> else q);
                wr = wr\<lparr>w_remote := (case addr of Some e \<Rightarrow> ch_rem_addr ch + determine_dest_offset e | None \<Rightarrow> ch_rem_addr ch)\<rparr>
            in append_to_send_list wr q)"

text \<open>As the callback of the scan: the page lies at the offset its entry names.\<close>

definition send_page :: "com_hndl \<Rightarrow> mig_params_t \<Rightarrow> sendq save_page" where
  "send_page ch mp entry page q =
     create_send_list_entry ch mp (Some (dec64 entry)) (ch_guest_mem ch + determine_dest_offset (dec64 entry)) (word_of_nat (length page)) q"

definition cleanup_send_list :: "sendq \<Rightarrow> sendq" where
  "cleanup_send_list q = q\<lparr>q_length := 0\<rparr>"

text \<open>\<open>prefetch_mem_mappings\<close>: every chunk is prefetched in the MR 0, whichever MR contains it; a chunk in no MR ends the loop.\<close>

fun prefetch_mem_mappings :: "com_hndl \<Rightarrow> mem_chunk list \<Rightarrow> sendq \<Rightarrow> sendq" where
  "prefetch_mem_mappings ch [] q = q"
| "prefetch_mem_mappings ch (c # cs) q =
    (if determine_enclosing_mr ch (c_ptr c) < 0 then q
     else prefetch_mem_mappings ch cs (q\<lparr>q_prefetched := q_prefetched q @ [(0, c_ptr c, c_size c)]\<rparr>))"

text \<open>\<open>enqueue_all_mrs\<close>.  The program ends in the division when \<open>max_msg_sz\<close> is 0.\<close>

definition enqueue_part :: "com_hndl \<Rightarrow> mig_params_t \<Rightarrow> mr \<Rightarrow> u64 \<Rightarrow> u64 \<Rightarrow> sendq \<Rightarrow> sendq" where
  "enqueue_part ch mp mr cur_offset len =
    (let cur_glob_offset = cur_offset + mr_addr mr - ch_guest_mem ch
     in create_send_list_entry ch mp (Some cur_glob_offset) (mr_addr mr + cur_offset) len)"

definition enqueue_mr :: "com_hndl \<Rightarrow> mig_params_t \<Rightarrow> mr \<Rightarrow> sendq \<Rightarrow> sendq" where
  "enqueue_mr ch mp mr q =
    (let max_msg_sz = ucast (ch_max_msg_sz ch); max_chunks = mr_length mr div max_msg_sz;
         q = fold (\<lambda>cur_chunk. enqueue_part ch mp mr (word_of_nat cur_chunk * max_msg_sz) max_msg_sz) [0..<unat max_chunks] q;
         remainder = mr_length mr mod max_msg_sz
     in if remainder \<noteq> 0 then enqueue_part ch mp mr (mr_length mr - remainder) remainder q else q)"

definition enqueue_all_mrs :: "com_hndl \<Rightarrow> mig_params_t \<Rightarrow> sendq \<Rightarrow> sendq option" where
  "enqueue_all_mrs ch mp q =
    (if ch_mrs ch \<noteq> [] \<and> ch_max_msg_sz ch = 0 then None else Some (fold (enqueue_mr ch mp) (ch_mrs ch) q))"

section \<open>Passing the list to the adapter\<close>

text \<open>
  \<open>ibv_post_send\<close> tells whether it failed, whether \<open>errno\<close> is \<open>ENOMEM\<close>, and the WRs it did not take; \<open>ibv_poll_cq\<close> the number of
  completions, or a negative number, and the number of the completed WR with its status.
\<close>

record 'h verbs =
  vb_post :: "'h \<Rightarrow> send_wr list \<Rightarrow> bool \<times> bool \<times> send_wr list \<times> 'h"
  vb_poll :: "'h \<Rightarrow> int \<times> (u64 \<times> bool) \<times> 'h"

partial_function (option) wait_cq :: "'h verbs \<Rightarrow> 'h \<Rightarrow> ((u64 \<times> bool) option \<times> 'h) option" where
  "wait_cq vb h = (case vb_poll vb h of
       (res, wc, h) \<Rightarrow> if res < 0 then Some (None, h) else if res < 1 then wait_cq vb h else Some (Some wc, h))"

text \<open>
  The loop of \<open>process_send_list\<close>: the result is \<open>None\<close> in its first component when the program ends with \<open>EXIT_FAILURE\<close>, else the last
  completion.
\<close>

partial_function (option) post_loop :: "'h verbs \<Rightarrow> send_wr list \<Rightarrow> 'h \<Rightarrow> ((u64 \<times> bool) option \<times> 'h) option" where
  "post_loop vb send_list h = (case vb_post vb h send_list of
       (failed, enomem, remaining, h) \<Rightarrow>
         if failed \<and> \<not> enomem then Some (None, h)
         else Option.bind (wait_cq vb h) (\<lambda>(wc, h).
           if wc = None then Some (None, h)
           else if remaining = [] then Some (wc, h) else post_loop vb remaining h))"

definition process_send_list :: "'h verbs \<Rightarrow> sendq \<Rightarrow> 'h \<Rightarrow> ((u64 \<times> bool) option \<times> sendq \<times> 'h) option" where
  "process_send_list vb q h =
     map_option (\<lambda>(wc, h). (wc, cleanup_send_list (q\<lparr>q_list := []\<rparr>), h)) (post_loop vb (q_list q) h)"

text \<open>The last WR gets the number \<open>IB_WR_WRITE_LAST_PAGE_ID\<close> and is signalled.\<close>

definition update_last :: "(send_wr \<Rightarrow> send_wr) \<Rightarrow> sendq \<Rightarrow> sendq" where
  "update_last f q = q\<lparr>q_list := butlast (q_list q) @ [f (last (q_list q))]\<rparr>"

definition mark_last :: "sendq \<Rightarrow> sendq" where
  "mark_last = update_last (\<lambda>wr. wr\<lparr>w_id := IB_WR_WRITE_LAST_PAGE_ID, w_signaled := True, w_solicited := False\<rparr>)"

definition mark_final :: "sendq \<Rightarrow> sendq" where
  "mark_final = update_last (\<lambda>wr. wr\<lparr>w_id := IB_WR_WRITE_LAST_PAGE_ID, w_imm := Some 0x01000000, w_signaled := True, w_solicited := True\<rparr>)"

section \<open>The copy phases\<close>

text \<open>
  The state of a migration: guest memory, the send list, the adapter, and \<open>mig_round\<close>.  The guest runs during the pre-copy phase:
  \<open>guest r\<close> is what it does to its memory before round \<open>r\<close>.
\<close>

record 'h mig_state =
  g_mem :: gmem
  g_queue :: sendq
  g_hca :: 'h
  g_round :: u32

definition scan_dirty :: "com_hndl \<Rightarrow> mig_params_t \<Rightarrow> bool \<Rightarrow> u32 \<Rightarrow> 'h mig_state \<Rightarrow> 'h mig_state" where
  "scan_dirty ch mp full no g =
    (let (mem, q) = determine_dirty_pages full no (send_page ch mp) (g_mem g, g_queue g) in g\<lparr>g_mem := mem, g_queue := q\<rparr>)"

lemma scan_dirty_round [simp]: "g_round (scan_dirty ch mp full no g) = g_round g"
  by (simp add: scan_dirty_def split: prod.split)

lemma round_left: "r \<noteq> MIG_ITERS \<Longrightarrow> unat (MIG_ITERS - (r + 1)) < unat (MIG_ITERS - r)"
proof -
  assume "r \<noteq> MIG_ITERS"
  then have "MIG_ITERS - r \<noteq> 0" by simp
  then have "unat (MIG_ITERS - r - 1) < unat (MIG_ITERS - r)"
    by (metis unat_gt_0 unat_minus_one diff_less zero_less_one)
  then show ?thesis by (simp add: algebra_simps)
qed

function precopy_rounds :: "'h verbs \<Rightarrow> com_hndl \<Rightarrow> mig_params_t \<Rightarrow> bool \<Rightarrow> u32 \<Rightarrow> (u32 \<Rightarrow> gmem \<Rightarrow> gmem) \<Rightarrow> 'h mig_state \<Rightarrow> (bool \<times> 'h mig_state) option" where
  "precopy_rounds vb ch mp full no guest g =
    (if g_round g = MIG_ITERS then Some (True, g\<lparr>g_round := g_round g + 1\<rparr>)
     else
       let g = scan_dirty ch mp full no (g\<lparr>g_mem := guest (g_round g) (g_mem g), g_round := g_round g + 1\<rparr>)
       in if q_length (g_queue g) = 0 then Some (True, g)
          else case process_send_list vb (mark_last (g_queue g)) (g_hca g) of
                 None \<Rightarrow> None
               | Some (None, q, h) \<Rightarrow> Some (False, g\<lparr>g_queue := q, g_hca := h\<rparr>)
               | Some (Some wc, q, h) \<Rightarrow> precopy_rounds vb ch mp full no guest (g\<lparr>g_queue := q, g_hca := h\<rparr>))"
  by pat_completeness auto
termination
  by (relation "measure (\<lambda>(vb, ch, mp, full, no, guest, g). unat (MIG_ITERS - g_round g))") (auto simp: round_left)

declare precopy_rounds.simps [simp del]

text \<open>
  \<open>precopy_phase\<close>: a cold migration sends nothing before the guest is stopped.  \<open>None\<close>: never ends; \<open>False\<close>: the program ends.
\<close>

definition precopy_mrs :: "mig_params_t \<Rightarrow> mem_mappings_t \<Rightarrow> mem_mappings_t \<Rightarrow> mem_mappings_t" where
  "precopy_mrs mp guest_mem mem_mappings =
     (if p_type mp = MIG_TYPE_LIVE \<or> count mem_mappings = 0 then guest_mem else mem_mappings)"

definition precopy_phase_rdma ::
  "'h verbs \<Rightarrow> com_hndl \<Rightarrow> mig_params_t \<Rightarrow> bool \<Rightarrow> u32 \<Rightarrow> (u32 \<Rightarrow> gmem \<Rightarrow> gmem) \<Rightarrow> mem_mappings_t \<Rightarrow> 'h mig_state \<Rightarrow>
     (bool \<times> mig_params_t \<times> 'h mig_state) option" where
  "precopy_phase_rdma vb ch mp full no guest mem_mappings g =
    (let odp = p_use_odp mp \<and> p_prefetch mp;
         g = (if odp then g\<lparr>g_queue := prefetch_mem_mappings ch (mapping_list mem_mappings) (g_queue g)\<rparr> else g);
         mp = (if odp \<and> (p_mode mp = MIG_MODE_COMPLETE_DUMP \<or> p_type mp = MIG_TYPE_COLD) then mp\<lparr>p_prefetch := False\<rparr> else mp)
     in if p_type mp = MIG_TYPE_COLD then Some (True, mp, g)
        else map_option (\<lambda>(ok, g). (ok, mp, g)) (precopy_rounds vb ch mp full no guest g))"

text \<open>
  \<open>stop_and_copy_phase\<close>: with nothing to send a dummy WR tells the destination that the memory is complete.
\<close>

definition enqueue_memory :: "com_hndl \<Rightarrow> mig_params_t \<Rightarrow> bool \<Rightarrow> u32 \<Rightarrow> 'h mig_state \<Rightarrow> 'h mig_state option" where
  "enqueue_memory ch mp full no g =
    (if p_type mp = MIG_TYPE_COLD \<and> p_mode mp = MIG_MODE_COMPLETE_DUMP
     then map_option (\<lambda>q. g\<lparr>g_queue := q\<rparr>) (enqueue_all_mrs ch mp (g_queue g))
     else Some (scan_dirty ch mp full no g))"

definition add_dummy :: "sendq \<Rightarrow> sendq" where
  "add_dummy q = (if q_length q = 0 then (let (wr, q) = prepare_send_list_elem q in append_to_send_list wr q) else q)"

definition stop_and_copy_phase_rdma :: "'h verbs \<Rightarrow> com_hndl \<Rightarrow> mig_params_t \<Rightarrow> bool \<Rightarrow> u32 \<Rightarrow> 'h mig_state \<Rightarrow> (bool \<times> 'h mig_state) option" where
  "stop_and_copy_phase_rdma vb ch mp full no g =
    (case enqueue_memory ch mp full no g of
       None \<Rightarrow> Some (False, g)
     | Some g \<Rightarrow>
         map_option (\<lambda>(wc, q, h). (wc \<noteq> None, g\<lparr>g_queue := q, g_hca := h\<rparr>))
           (process_send_list vb (mark_final (add_dummy (g_queue g))) (g_hca g)))"

section \<open>What the adapter promises\<close>

text \<open>
  The verbs library: the send queue has room for \<open>IB_MAX_SEND_WR\<close> requests; \<open>ibv_post_send\<close> takes requests in order while there is room and
  reports \<open>ENOMEM\<close> for the rest; the queue pair works in order; a completion is reported for signalled requests only,
  at some time, and frees the places of the requests before it.  \<open>pend\<close> are the requests in the queue, \<open>perf\<close> those performed and reported.
\<close>

definition hca_contract :: "'h verbs \<Rightarrow> ('h \<Rightarrow> send_wr list) \<Rightarrow> ('h \<Rightarrow> send_wr list) \<Rightarrow> ('h \<Rightarrow> nat) \<Rightarrow> bool" where
  "hca_contract vb pend perf delay \<longleftrightarrow>
    (\<forall>h ws. case vb_post vb h ws of (failed, enomem, rest, h') \<Rightarrow>
       rest = drop (IB_MAX_SEND_WR - length (pend h)) ws \<and> failed = (rest \<noteq> []) \<and> (failed \<longrightarrow> enomem) \<and>
       pend h' = pend h @ take (IB_MAX_SEND_WR - length (pend h)) ws \<and> perf h' = perf h) \<and>
    (\<forall>h us w vs. pend h = us @ w # vs \<and> list_all (\<lambda>u. \<not> w_signaled u) us \<and> w_signaled w \<longrightarrow>
       (case vb_poll vb h of (res, wc, h') \<Rightarrow>
          if 0 < delay h then res = 0 \<and> delay h' < delay h \<and> pend h' = pend h \<and> perf h' = perf h
          else res = 1 \<and> wc = (w_id w, True) \<and> pend h' = vs \<and> perf h' = perf h @ us @ [w]))"

text \<open>The destination's memory: an RDMA write stores the bytes of the source's memory, addressed by host addresses on both sides.\<close>

definition rdma_write :: "gmem \<Rightarrow> send_wr \<Rightarrow> gmem \<Rightarrow> gmem" where
  "rdma_write src wr dst = store_bytes dst (w_remote wr) (load_bytes src (w_addr wr) (unat (w_len wr)))"

section \<open>Lemmas on the loop\<close>

lemma hca_post:
  assumes "hca_contract vb pend perf delay" and "vb_post vb h ws = (failed, enomem, rest, h')"
  shows "rest = drop (IB_MAX_SEND_WR - length (pend h)) ws" "failed = (rest \<noteq> [])" "failed \<longrightarrow> enomem"
    "pend h' = pend h @ take (IB_MAX_SEND_WR - length (pend h)) ws" "perf h' = perf h"
  using assms(1) [unfolded hca_contract_def, THEN conjunct1, rule_format, of h ws] assms(2) by simp_all

lemma hca_poll:
  assumes "hca_contract vb pend perf delay" and "pend h = us @ w # vs" and "list_all (\<lambda>u. \<not> w_signaled u) us" and "w_signaled w"
    and "vb_poll vb h = (res, wc, h')"
  shows "if 0 < delay h then res = 0 \<and> delay h' < delay h \<and> pend h' = pend h \<and> perf h' = perf h
    else res = 1 \<and> wc = (w_id w, True) \<and> pend h' = vs \<and> perf h' = perf h @ us @ [w]"
  using assms(1) [unfolded hca_contract_def, THEN conjunct2, THEN spec, THEN spec, THEN spec, THEN spec, of h us w vs] assms(2-5) by simp

lemma wait_cq_completes:
  assumes "hca_contract vb pend perf delay" and "list_all (\<lambda>u. \<not> w_signaled u) us" and "w_signaled w"
  shows "pend h = us @ w # vs \<Longrightarrow> \<exists>h'. wait_cq vb h = Some (Some (w_id w, True), h') \<and> pend h' = vs \<and> perf h' = perf h @ us @ [w]"
proof (induction "delay h" arbitrary: h rule: less_induct)
  case less
  obtain res wc h1 where p: "vb_poll vb h = (res, wc, h1)" by (metis prod_cases3)
  note c = hca_poll [OF assms(1) less.prems assms(2,3) p]
  show ?case
  proof (cases "0 < delay h")
    case True
    then have "wait_cq vb h = wait_cq vb h1" using c p by (subst wait_cq.simps) simp
    with True show ?thesis using less.hyps [of h1] less.prems c by simp
  next
    case False
    then show ?thesis using c p by (subst wait_cq.simps) simp
  qed
qed

text \<open>Which requests of a list are signalled: every \<open>IB_MAX_SEND_WR\<close>-th and the last.\<close>

definition signals_ok :: "send_wr list \<Rightarrow> bool" where
  "signals_ok ws \<longleftrightarrow> (\<forall>i < length ws. w_signaled (ws ! i) = (Suc i mod IB_MAX_SEND_WR = 0 \<or> Suc i = length ws))"

lemma IB_MAX_pos: "0 < IB_MAX_SEND_WR"
  by (simp add: IB_MAX_SEND_WR_def)

lemma signals_head:
  assumes "signals_ok ws" and "ws \<noteq> []"
  obtains us w where "take IB_MAX_SEND_WR ws = us @ [w]" "list_all (\<lambda>u. \<not> w_signaled u) us" "w_signaled w"
    "length ws \<le> IB_MAX_SEND_WR \<Longrightarrow> w = last ws"
proof -
  define n where "n = min IB_MAX_SEND_WR (length ws)"
  have n: "0 < n" "n \<le> length ws" "n \<le> IB_MAX_SEND_WR" using assms(2) IB_MAX_pos by (auto simp: n_def)
  have "take IB_MAX_SEND_WR ws = take n ws" by (simp add: n_def min_def)
  also have "\<dots> = take (n - 1) ws @ [ws ! (n - 1)]"
    using n take_Suc_conv_app_nth [of "n - 1" ws] by simp
  finally have t: "take IB_MAX_SEND_WR ws = take (n - 1) ws @ [ws ! (n - 1)]" .
  have "\<not> w_signaled (ws ! i)" if "i < n - 1" for i
    using that n assms(1) by (auto simp: signals_ok_def)
  then have "list_all (\<lambda>u. \<not> w_signaled u) (take (n - 1) ws)"
    using n by (auto simp: list_all_length)
  moreover have "w_signaled (ws ! (n - 1))"
    using n assms(1) by (auto simp: signals_ok_def n_def min_def)
  moreover have "ws ! (n - 1) = last ws" if "length ws \<le> IB_MAX_SEND_WR"
    using that assms(2) by (simp add: n_def min_def last_conv_nth)
  ultimately show thesis by (rule that [OF t])
qed

lemma signals_rest:
  assumes "signals_ok ws" shows "signals_ok (drop IB_MAX_SEND_WR ws)"
  unfolding signals_ok_def
proof (intro allI impI)
  fix i assume i: "i < length (drop IB_MAX_SEND_WR ws)"
  then have "w_signaled (ws ! (IB_MAX_SEND_WR + i)) = (Suc (IB_MAX_SEND_WR + i) mod IB_MAX_SEND_WR = 0 \<or> Suc (IB_MAX_SEND_WR + i) = length ws)"
    using assms by (auto simp: signals_ok_def)
  moreover have "Suc (IB_MAX_SEND_WR + i) mod IB_MAX_SEND_WR = Suc i mod IB_MAX_SEND_WR"
    by (metis add_Suc_right mod_add_self1)
  ultimately show "w_signaled (drop IB_MAX_SEND_WR ws ! i) = (Suc i mod IB_MAX_SEND_WR = 0 \<or> Suc i = length (drop IB_MAX_SEND_WR ws))"
    using i by auto
qed

lemma post_loop_performs:
  assumes "hca_contract vb pend perf delay"
  shows "ws \<noteq> [] \<Longrightarrow> signals_ok ws \<Longrightarrow> pend h = [] \<Longrightarrow>
    \<exists>h'. post_loop vb ws h = Some (Some (w_id (last ws), True), h') \<and> pend h' = [] \<and> perf h' = perf h @ ws"
proof (induction "length ws" arbitrary: ws h rule: less_induct)
  case less
  obtain us w where uw: "take IB_MAX_SEND_WR ws = us @ [w]" "list_all (\<lambda>u. \<not> w_signaled u) us" "w_signaled w"
    "length ws \<le> IB_MAX_SEND_WR \<Longrightarrow> w = last ws"
    using signals_head [OF less.prems(2,1)] by blast
  obtain failed enomem rest h1 where p: "vb_post vb h ws = (failed, enomem, rest, h1)" by (metis prod_cases4)
  note post = hca_post [OF assms p]
  have 1: "rest = drop IB_MAX_SEND_WR ws" "pend h1 = us @ w # []" "perf h1 = perf h"
    using post less.prems(3) uw(1) by simp_all
  obtain h2 where h2: "wait_cq vb h1 = Some (Some (w_id w, True), h2)" "pend h2 = []" "perf h2 = perf h @ us @ [w]"
    using wait_cq_completes [OF assms uw(2,3) 1(2)] 1(3) by auto
  have step: "post_loop vb ws h = (if rest = [] then Some (Some (w_id w, True), h2) else post_loop vb rest h2)"
    using p post(2,3) h2(1) by (subst post_loop.simps) simp
  have all: "us @ [w] @ rest = ws" using uw(1) 1(1) by (metis append.assoc append_take_drop_id)
  show ?case
  proof (cases "rest = []")
    case True
    then have "length ws \<le> IB_MAX_SEND_WR" using 1(1) by simp
    then show ?thesis using step True h2 uw(4) all by auto
  next
    case False
    have "length rest < length ws" using False 1(1) IB_MAX_pos less.prems(1) by (cases ws) auto
    then obtain h' where "post_loop vb rest h2 = Some (Some (w_id (last rest), True), h')" "pend h' = []" "perf h' = perf h2 @ rest"
      using less.hyps [OF _ False _ h2(2)] signals_rest [OF less.prems(2)] 1(1) by auto
    moreover have "last rest = last ws" using False all by (metis append_assoc last_appendR)
    ultimately show ?thesis using step False h2(3) all by auto
  qed
qed

section \<open>Lemmas on the send list\<close>

text \<open>A list under construction: its length is counted and every \<open>IB_MAX_SEND_WR\<close>-th request is signalled.\<close>

definition queue_ok :: "sendq \<Rightarrow> bool" where
  "queue_ok q \<longleftrightarrow> q_length q = word_of_nat (length (q_list q)) \<and>
     (\<forall>i < length (q_list q). w_signaled (q_list q ! i) = (Suc i mod IB_MAX_SEND_WR = 0))"

text \<open>A request that copies to the place the destination has for its source, or copies nothing; the bytes of the source a list covers.\<close>

definition wr_ok :: "com_hndl \<Rightarrow> send_wr \<Rightarrow> bool" where
  "wr_ok ch wr \<longleftrightarrow> w_len wr = 0 \<or> w_remote wr = ch_rem_addr ch + (w_addr wr - ch_guest_mem ch)"

definition sends :: "send_wr list \<Rightarrow> u64 \<Rightarrow> bool" where
  "sends ws a \<longleftrightarrow> list_ex (\<lambda>wr. in_run a (w_addr wr) (unat (w_len wr))) ws"

lemma rdma_writes:
  assumes "list_all (wr_ok ch) ws"
  shows "fold (rdma_write src) ws dst (ch_rem_addr ch + (a - ch_guest_mem ch)) =
    (if sends ws a then src a else dst (ch_rem_addr ch + (a - ch_guest_mem ch)))"
  using assms
proof (induction ws arbitrary: dst)
  case (Cons wr ws)
  have "rdma_write src wr dst (ch_rem_addr ch + (a - ch_guest_mem ch)) =
      (if in_run a (w_addr wr) (unat (w_len wr)) then src a else dst (ch_rem_addr ch + (a - ch_guest_mem ch)))"
  proof (cases "w_len wr = 0")
    case False
    then have y: "ch_rem_addr ch + (a - ch_guest_mem ch) - w_remote wr = a - w_addr wr"
      using Cons.prems by (simp add: wr_ok_def)
    show ?thesis
      unfolding rdma_write_def store_bytes_def Let_def length_load_bytes y by (simp add: in_run_def load_bytes_nth)
  qed (simp add: rdma_write_def in_run_def)
  then show ?case using Cons by (simp add: sends_def)
qed (simp add: sends_def)

lemma sends_append: "sends (ws @ ws') a \<longleftrightarrow> sends ws a \<or> sends ws' a"
  by (simp add: sends_def)

text \<open>The list \<open>q'\<close> extends \<open>q\<close> by requests that cover the bytes \<open>P\<close>.\<close>

definition grown :: "com_hndl \<Rightarrow> sendq \<Rightarrow> sendq \<Rightarrow> (u64 \<Rightarrow> bool) \<Rightarrow> bool" where
  "grown ch q q' P \<longleftrightarrow> queue_ok q' \<and> (\<exists>ws. q_list q' = q_list q @ ws \<and> list_all (wr_ok ch) ws \<and> (\<forall>a. sends ws a \<longleftrightarrow> P a))"

lemma grown_refl: "queue_ok q \<Longrightarrow> grown ch q q (\<lambda>_. False)"
  by (auto simp: grown_def sends_def)

lemma grown_trans: "grown ch q q1 P \<Longrightarrow> grown ch q1 q2 P' \<Longrightarrow> grown ch q q2 (\<lambda>a. P a \<or> P' a)"
  by (auto simp: grown_def sends_append)

lemma grown_ok: "grown ch q q' P \<Longrightarrow> queue_ok q'"
  by (simp add: grown_def)

lemma grown_fold:
  assumes "\<And>x q. x \<in> set xs \<Longrightarrow> queue_ok q \<Longrightarrow> grown ch q (f x q) (P x)"
  shows "queue_ok q \<Longrightarrow> grown ch q (fold f xs q) (\<lambda>a. \<exists>x \<in> set xs. P x a)"
  using assms
proof (induction xs arbitrary: q)
  case Nil
  then show ?case by (simp add: grown_refl)
next
  case (Cons x xs)
  have 1: "grown ch q (f x q) (P x)" using Cons.prems by simp
  have "grown ch (f x q) (fold f xs (f x q)) (\<lambda>a. \<exists>x \<in> set xs. P x a)"
    using Cons.IH [OF grown_ok [OF 1]] Cons.prems(2) by simp
  from grown_trans [OF 1 this] show ?case by simp
qed

lemma length_mod: "(word_of_nat n :: u64) mod word_of_nat IB_MAX_SEND_WR = 0 \<longleftrightarrow> n mod IB_MAX_SEND_WR = 0"
proof -
  have m: "unat (word_of_nat IB_MAX_SEND_WR :: u64) = IB_MAX_SEND_WR" by (simp add: IB_MAX_SEND_WR_def)
  have "unat ((word_of_nat n :: u64) mod word_of_nat IB_MAX_SEND_WR) = n mod 2 ^ 64 mod IB_MAX_SEND_WR"
    unfolding unat_mod m by (simp add: unat_of_nat)
  also have "\<dots> = n mod IB_MAX_SEND_WR"
    by (rule mod_mod_cancel) (simp add: IB_MAX_SEND_WR_def)
  finally show ?thesis by (metis unat_eq_0)
qed

lemma append_queue_ok:
  assumes "queue_ok q" and "\<not> w_signaled wr"
  shows "queue_ok (append_to_send_list wr q)"
proof -
  have n: "q_length q + 1 = word_of_nat (Suc (length (q_list q)))" using assms(1) by (simp add: queue_ok_def)
  show ?thesis
    unfolding append_to_send_list_def Let_def n length_mod
    using assms by (auto simp: queue_ok_def nth_append less_Suc_eq)
qed

lemma append_list:
  "\<exists>wr'. q_list (append_to_send_list wr q) = q_list q @ [wr'] \<and> w_addr wr' = w_addr wr \<and> w_len wr' = w_len wr \<and> w_remote wr' = w_remote wr"
  by (simp add: append_to_send_list_def Let_def)

lemma create_entry_grown:
  assumes "queue_ok q" and "find_mr 0 (ch_mrs ch) page \<noteq> None" and "page = ch_guest_mem ch + determine_dest_offset e" and "unat page_size < 2 ^ 32"
  shows "grown ch q (create_send_list_entry ch mp (Some e) page page_size q) (\<lambda>a. in_run a page (unat page_size))"
proof -
  obtain i mr where f: "find_mr 0 (ch_mrs ch) page = Some (i, mr)" using assms(2) by auto
  obtain wr q1 where c: "create_send_list_entry ch mp (Some e) page page_size q = append_to_send_list wr q1"
    "q_list q1 = q_list q" "q_length q1 = q_length q" "w_addr wr = page" "w_len wr = ucast page_size" "\<not> w_signaled wr"
    "w_remote wr = ch_rem_addr ch + determine_dest_offset e"
    using f by (simp add: create_send_list_entry_def prepare_send_list_elem_def Let_def)
  have l: "unat (ucast page_size :: u32) = unat page_size" using assms(4) by (simp add: unsigned_ucast_eq unsigned_take_bit_eq take_bit_nat_eq_self)
  have "queue_ok q1" using assms(1) c(2,3) by (simp add: queue_ok_def)
  then have "queue_ok (append_to_send_list wr q1)" using append_queue_ok c(6) by blast
  then show ?thesis
    using append_list [of wr q1] c assms(3) l by (auto simp: grown_def wr_ok_def sends_def)
qed

lemma find_mr_in: "mr \<in> set mrs \<Longrightarrow> in_mr mr ptr \<Longrightarrow> find_mr i mrs ptr \<noteq> None"
  by (induction mrs arbitrary: i) auto

section \<open>Page-aligned offsets\<close>

definition page_aligned :: "u64 \<Rightarrow> bool" where "page_aligned w \<longleftrightarrow> 4096 dvd unat w"

lemma page_aligned_bits: "page_aligned w \<longleftrightarrow> take_bit 12 w = 0"
proof -
  have "unat w mod 4096 = unat (take_bit 12 w)" using unat_mod_take [of w 12] by simp
  then show ?thesis by (simp add: page_aligned_def dvd_eq_mod_eq_0 unat_eq_0)
qed

lemma page_aligned_add: "page_aligned a \<Longrightarrow> page_aligned b \<Longrightarrow> page_aligned (a + b)"
  unfolding page_aligned_def unat_word_ariths by (rule dvd_mod) simp_all

lemma page_aligned_mult: "page_aligned b \<Longrightarrow> page_aligned (a * b)"
  unfolding page_aligned_def unat_word_ariths by (rule dvd_mod) simp_all

lemma dest_offset_aligned:
  assumes "page_aligned off" and "unat off < 2 ^ 63"
  shows "determine_dest_offset off = off"
proof -
  have z: "take_bit 12 off = 0" using assms(1) by (simp add: page_aligned_bits)
  have lo: "\<not> bit off n" if "n < 12" for n
    using that bit_take_bit_iff [of 12 off n] by (simp add: z)
  have hi: "\<not> bit off 63" using assms(2) by (simp add: not_bit_63)
  have m: "off AND PAGE_MASK = off"
  proof (rule bit_eqI)
    fix n assume "possible_bit TYPE(u64) n"
    then have "n < 64" by simp
    then show "bit (off AND PAGE_MASK) n = bit off n"
      using lo [of n] hi by (auto simp: bit_simps bit_PAGE_MASK not_le dest: bit_63_last)
  qed
  have "off AND PG_PSE = 0" using and_flag(2) [of off] lo [of 7] by simp
  then show ?thesis by (simp add: determine_dest_offset_def m)
qed

text \<open>A registered region: at a page-aligned offset of guest memory, not wrapping around.\<close>

definition mr_ok :: "com_hndl \<Rightarrow> mr \<Rightarrow> bool" where
  "mr_ok ch mr \<longleftrightarrow> page_aligned (mr_addr mr - ch_guest_mem ch) \<and>
     unat (mr_addr mr - ch_guest_mem ch) + unat (mr_length mr) \<le> 2 ^ 63 \<and> unat (mr_addr mr) + unat (mr_length mr) < 2 ^ 64"

lemma enqueue_part_grown:
  assumes "queue_ok q" and "mr \<in> set (ch_mrs ch)" and "mr_ok ch mr" and "page_aligned off" and "unat off < unat (mr_length mr)" and "unat n < 2 ^ 32"
  shows "grown ch q (enqueue_part ch mp mr off n q) (\<lambda>a. in_run a (mr_addr mr + off) (unat n))"
proof -
  let ?g = "off + mr_addr mr - ch_guest_mem ch"
  have g: "?g = (mr_addr mr - ch_guest_mem ch) + off" by simp
  have u: "unat ?g = unat (mr_addr mr - ch_guest_mem ch) + unat off"
    unfolding g using assms(3,5) by (subst unat_add_lem [THEN iffD1]) (auto simp: mr_ok_def)
  have "page_aligned ?g" unfolding g using assms(3,4) page_aligned_add by (auto simp: mr_ok_def)
  moreover have "unat ?g < 2 ^ 63" using u assms(3,5) by (simp add: mr_ok_def)
  ultimately have d: "determine_dest_offset ?g = ?g" by (rule dest_offset_aligned)
  have a: "unat (mr_addr mr + off) = unat (mr_addr mr) + unat off" "unat (mr_addr mr + mr_length mr) = unat (mr_addr mr) + unat (mr_length mr)"
    using assms(3,5) by (subst unat_add_lem [THEN iffD1], auto simp: mr_ok_def)+
  have "in_mr mr (mr_addr mr + off)"
    using assms(5) by (simp add: in_mr_def word_le_nat_alt word_less_nat_alt a)
  then have "find_mr 0 (ch_mrs ch) (mr_addr mr + off) \<noteq> None" using find_mr_in assms(2) by blast
  then show ?thesis
    unfolding enqueue_part_def Let_def using assms(1,6) d by (intro create_entry_grown) simp_all
qed

lemma in_run_offset:
  "unat off + n \<le> 2 ^ 64 \<Longrightarrow> in_run x (a + off) n \<longleftrightarrow> unat off \<le> unat (x - a) \<and> unat (x - a) < unat off + n"
  using in_run_nat [of off n "x - a"] by (simp add: in_run_def algebra_simps)

lemma chunks_cover:
  fixes L M d :: nat
  assumes "0 < M"
  shows "(\<exists>j < L div M. j * M \<le> d \<and> d < j * M + M) \<or> (L mod M \<noteq> 0 \<and> L - L mod M \<le> d \<and> d < L - L mod M + L mod M) \<longleftrightarrow> d < L"
proof -
  have L: "L = L div M * M + L mod M" by simp
  have r: "L - L mod M = L div M * M" by (metis L add_diff_cancel_right')
  have "j * M + M \<le> L" if "j < L div M" for j
  proof -
    have "Suc j * M \<le> L div M * M" using that by (intro mult_le_mono1) simp
    also have "\<dots> \<le> L" by (rule div_times_less_eq_dividend)
    finally show ?thesis by simp
  qed
  moreover have "d div M < L div M \<and> d div M * M \<le> d \<and> d < d div M * M + M" if "d < L div M * M"
  proof -
    have "d = d div M * M + d mod M" "d mod M < M" using assms by simp_all
    then have "d div M * M \<le> d" "d < d div M * M + M" by linarith+
    then show ?thesis using less_mult_imp_div_less [OF that] by simp
  qed
  moreover have "L mod M \<noteq> 0 \<and> L - L mod M \<le> d" if "d < L" "\<not> d < L div M * M"
    using that L r by (metis add.right_neutral not_le)
  moreover have "L - L mod M + L mod M = L" by simp
  ultimately show ?thesis by (metis le_trans not_le less_le_trans)
qed

lemma enqueue_mr_grown:
  assumes "queue_ok q" and "mr \<in> set (ch_mrs ch)" and "mr_ok ch mr" and "page_aligned (ucast (ch_max_msg_sz ch))" and "ch_max_msg_sz ch \<noteq> 0"
  shows "grown ch q (enqueue_mr ch mp mr q) (\<lambda>a. in_run a (mr_addr mr) (unat (mr_length mr)))"
proof -
  define mx :: u64 where "mx = ucast (ch_max_msg_sz ch)"
  let ?L = "unat (mr_length mr)" and ?M = "unat mx"
  have "?M = unat (ch_max_msg_sz ch)" using unat_less_exp [of "ch_max_msg_sz ch"] by (simp add: mx_def unsigned_ucast_eq unsigned_take_bit_eq take_bit_nat_eq_self)
  then have M: "0 < ?M" "?M < 2 ^ 32"
    using assms(5) unat_less_exp [of "ch_max_msg_sz ch"] by (simp_all add: unat_gt_0)
  have al: "page_aligned mx" using assms(4) by (simp add: mx_def)
  have L: "?L < 2 ^ 64" using unat_less_exp [of "mr_length mr"] by simp
  have j: "unat (word_of_nat j * mx) = j * ?M \<and> j * ?M + ?M \<le> ?L" if "j < ?L div ?M" for j
  proof -
    have "Suc j * ?M \<le> ?L div ?M * ?M" using that by (intro mult_le_mono1) simp
    then have le: "j * ?M + ?M \<le> ?L" by (metis add.commute div_times_less_eq_dividend le_trans mult_Suc)
    then have "j * ?M < 2 ^ 64" "j < 2 ^ 64" using L M(1) by (auto intro: le_less_trans [of j "j * ?M"])
    then show ?thesis using le by (simp add: unat_word_ariths unat_word_of_nat_u64)
  qed
  let ?q = "fold (\<lambda>c. enqueue_part ch mp mr (word_of_nat c * mx) mx) [0..<?L div ?M] q"
  have 1: "grown ch q ?q (\<lambda>a. \<exists>c \<in> set [0..<?L div ?M]. in_run a (mr_addr mr + word_of_nat c * mx) ?M)"
  proof (rule grown_fold [OF _ assms(1)])
    fix c q assume "c \<in> set [0..<?L div ?M]" and q: "queue_ok q"
    with j [of c] M show "grown ch q (enqueue_part ch mp mr (word_of_nat c * mx) mx q) (\<lambda>a. in_run a (mr_addr mr + word_of_nat c * mx) ?M)"
      by (intro enqueue_part_grown [OF q assms(2,3) page_aligned_mult [OF al]]) auto
  qed
  let ?r = "mr_length mr mod mx"
  have r: "unat ?r = ?L mod ?M" by (rule unat_mod)
  have o: "unat (mr_length mr - ?r) = ?L - ?L mod ?M" using r by (simp add: unat_sub word_le_nat_alt)
  have oL: "?L - ?L mod ?M = ?L div ?M * ?M" by (metis add_diff_cancel_right' div_mult_mod_eq)
  have ao: "page_aligned (mr_length mr - ?r)"
    unfolding page_aligned_def o oL using al by (simp add: page_aligned_def)
  have 2: "grown ch ?q (enqueue_part ch mp mr (mr_length mr - ?r) ?r ?q) (\<lambda>a. in_run a (mr_addr mr + (mr_length mr - ?r)) (unat ?r))" if "?r \<noteq> 0"
  proof (rule enqueue_part_grown [OF grown_ok [OF 1] assms(2,3) ao])
    show "unat (mr_length mr - ?r) < ?L" using that r o by (metis diff_less gr0I mod_0 unat_eq_0 bot_nat_0.not_eq_extremum)
    show "unat ?r < 2 ^ 32" using r mod_less_divisor [OF M(1), of ?L] M(2) by linarith
  qed
  have eq: "(\<exists>c \<in> set [0..<?L div ?M]. in_run a (mr_addr mr + word_of_nat c * mx) ?M) \<or>
      ?r \<noteq> 0 \<and> in_run a (mr_addr mr + (mr_length mr - ?r)) (unat ?r) \<longleftrightarrow> in_run a (mr_addr mr) ?L" for a
  proof -
    have "in_run a (mr_addr mr + word_of_nat c * mx) ?M \<longleftrightarrow> c * ?M \<le> unat (a - mr_addr mr) \<and> unat (a - mr_addr mr) < c * ?M + ?M"
      if "c < ?L div ?M" for c
      using in_run_offset [of "word_of_nat c * mx" ?M a "mr_addr mr"] j [OF that] L by simp
    moreover have "in_run a (mr_addr mr + (mr_length mr - ?r)) (unat ?r) \<longleftrightarrow>
        ?L - ?L mod ?M \<le> unat (a - mr_addr mr) \<and> unat (a - mr_addr mr) < ?L - ?L mod ?M + ?L mod ?M"
      using in_run_offset [of "mr_length mr - ?r" "unat ?r" a "mr_addr mr"] o r L by simp
    moreover have "?r \<noteq> 0 \<longleftrightarrow> ?L mod ?M \<noteq> 0" using r by (metis unat_eq_0)
    ultimately show ?thesis
      using chunks_cover [OF M(1), of ?L "unat (a - mr_addr mr)"] by (auto simp: in_run_def)
  qed
  have e: "enqueue_mr ch mp mr q = (if ?r \<noteq> 0 then enqueue_part ch mp mr (mr_length mr - ?r) ?r ?q else ?q)"
    by (simp add: enqueue_mr_def Let_def mx_def unat_div)
  show ?thesis
  proof (cases "?r = 0")
    case True
    then show ?thesis using 1 eq by (simp add: e)
  next
    case False
    then show ?thesis using grown_trans [OF 1 2 [OF False]] eq by (simp add: e)
  qed
qed

section \<open>The pages of a scan\<close>

text \<open>A scan calls its callback on the records of the theory \<open>Checkpoint\<close>, in order.\<close>

lemma visit_callback:
  "visit full flag cb (a, big) (m, s) =
    (case visit full flag note_page (a, big) (m, []) of (m', rs) \<Rightarrow> (m', fold (\<lambda>(entry, page). cb entry page) rs s))"
  by (simp add: visit_def note_page_def Let_def)

lemma visit_note_append: "visit full flag note_page v (m, rs) = (case visit full flag note_page v (m, []) of (m', rs') \<Rightarrow> (m', rs @ rs'))"
  by (cases v) (simp add: visit_def note_page_def Let_def)

lemma visits_note_append:
  "fold (visit full flag note_page) vs (m, rs) = (case fold (visit full flag note_page) vs (m, []) of (m', rs') \<Rightarrow> (m', rs @ rs'))"
proof (induction vs arbitrary: m rs)
  case (Cons v vs)
  obtain m1 rs1 where v: "visit full flag note_page v (m, []) = (m1, rs1)" by fastforce
  then show ?case
    using visit_note_append [of full flag v m rs] Cons [of m1 "rs @ rs1"] Cons [of m1 rs1] by (auto split: prod.splits)
qed simp

lemma visits_callback:
  "fold (visit full flag cb) vs (m, s) =
    (case fold (visit full flag note_page) vs (m, []) of (m', rs) \<Rightarrow> (m', fold (\<lambda>(entry, page). cb entry page) rs s))"
proof (induction vs arbitrary: m s)
  case (Cons v vs)
  obtain m1 rs1 where v: "visit full flag note_page v (m, []) = (m1, rs1)" by fastforce
  then have "visit full flag cb v (m, s) = (m1, fold (\<lambda>(entry, page). cb entry page) rs1 s)"
    using visit_callback [of full flag cb "fst v" "snd v" m s] by simp
  then show ?case
    using v Cons [of m1 "fold (\<lambda>(entry, page). cb entry page) rs1 s"] visits_note_append [of full flag vs m1 rs1] by (auto split: prod.splits)
qed simp

abbreviation scan_records :: "bool \<Rightarrow> u32 \<Rightarrow> gmem \<Rightarrow> (bytes \<times> bytes) list" where
  "scan_records full no m \<equiv> snd (records full (scan_flag full no) (leaf_slots m) m)"

lemma scan_sends:
  "determine_dirty_pages full no cb (m, s) =
    (fst (records full (scan_flag full no) (leaf_slots m) m), fold (\<lambda>(entry, page). cb entry page) (scan_records full no m) s)"
  unfolding determine_dirty_pages_def scan_visits records_def by (subst visits_callback) (simp split: prod.split)

lemma scan_records_ok: "list_all record_ok (scan_records full no m)"
  unfolding records_def by (rule note_ok [OF leaf_slots_ok]) simp

lemma scan_records_cover:
  assumes "full \<or> outside_slots m x"
  shows "list_ex (in_record x) (scan_records full no m) \<longleftrightarrow> checkpointed full no m x"
    and "fst (records full (scan_flag full no) (leaf_slots m) m) x = m x"
proof -
  obtain m' rs' where r: "fold (visit full (scan_flag full no) note_page) (leaf_slots m) (m, []) = (m', rs')" by fastforce
  have "full \<or> list_all (\<lambda>v. \<not> in_run x (fst v) 8) (leaf_slots m)" using assms by (simp add: outside_slots_def)
  from records_replay [OF leaf_slots_ok this r]
  show "list_ex (in_record x) (scan_records full no m) \<longleftrightarrow> checkpointed full no m x"
    and "fst (records full (scan_flag full no) (leaf_slots m) m) x = m x"
    by (simp_all add: records_def r checkpointed_def)
qed

text \<open>Every page the scan finds lies in a registered region.\<close>

definition registered :: "com_hndl \<Rightarrow> bool \<Rightarrow> u32 \<Rightarrow> gmem \<Rightarrow> bool" where
  "registered ch full no m \<longleftrightarrow> list_all (\<lambda>(entry, page).
     find_mr 0 (ch_mrs ch) (ch_guest_mem ch + determine_dest_offset (dec64 entry)) \<noteq> None) (scan_records full no m)"

lemma page_bytes_small: "page_bytes e < 2 ^ 32"
  by (simp add: page_bytes_def PAGE_2M_BITS_def PAGE_BITS_def)

lemma send_pages_grown:
  assumes "queue_ok q" and "registered ch full no m"
  shows "grown ch q (fold (\<lambda>(entry, page). send_page ch mp entry page) (scan_records full no m) q)
    (\<lambda>a. list_ex (in_record (a - ch_guest_mem ch)) (scan_records full no m))"
proof -
  let ?P = "\<lambda>r a. in_record (a - ch_guest_mem ch) r"
  have "grown ch q (fold (\<lambda>(entry, page). send_page ch mp entry page) (scan_records full no m) q)
    (\<lambda>a. \<exists>r \<in> set (scan_records full no m). ?P r a)"
  proof (rule grown_fold [OF _ assms(1)])
    fix r q assume r: "r \<in> set (scan_records full no m)" and q: "queue_ok q"
    obtain entry page where e: "r = (entry, page)" by fastforce
    have ok: "length page = page_bytes (dec64 entry)" using scan_records_ok [of full no m] r by (auto simp: list_all_iff record_ok_def e)
    then have l: "unat (word_of_nat (length page) :: u64) = length page"
      using page_bytes_small [of "dec64 entry"] by (intro unat_word_of_nat_u64) simp
    have f: "find_mr 0 (ch_mrs ch) (ch_guest_mem ch + determine_dest_offset (dec64 entry)) \<noteq> None"
      using assms(2) r by (auto simp: registered_def list_all_iff e)
    have "grown ch q (send_page ch mp entry page q) (\<lambda>a. in_run a (ch_guest_mem ch + determine_dest_offset (dec64 entry)) (length page))"
      unfolding send_page_def using create_entry_grown [OF q f refl, of "word_of_nat (length page)" mp] l ok page_bytes_small [of "dec64 entry"] by simp
    then show "grown ch q ((\<lambda>(entry, page). send_page ch mp entry page) r q) (?P r)"
      by (simp add: e in_record_def in_run_def algebra_simps)
  qed
  then show ?thesis by (simp add: list_ex_iff)
qed

section \<open>The number of requests\<close>

lemma slots_length: "length (leaf_slots m) \<le> 2 ^ 36"
proof -
  have c: "length (concat (map f [0..<2 ^ PAGE_MAP_BITS])) \<le> 512 * k" if "\<And>i. length (f i) \<le> k" for f :: "nat \<Rightarrow> 'a list" and k
  proof -
    have "sum_list (map (\<lambda>i. length (f i)) xs) \<le> length xs * k" for xs
      using that by (induction xs) (auto intro: add_mono)
    from this [of "[0..<2 ^ PAGE_MAP_BITS]"] show ?thesis by (simp add: length_concat PAGE_MAP_BITS_def comp_def)
  qed
  have 1: "length (pgd_slots m pgd k) \<le> 512" for pgd k
    by (simp add: pgd_slots_def Let_def PAGE_MAP_BITS_def)
  have 2: "length (pdpt_slots m pdpt j) \<le> 512 * 512" for pdpt j
    using c [of "pgd_slots m (entry_at m pdpt j AND PAGE_MASK)", OF 1] by (simp add: pdpt_slots_def Let_def)
  have 3: "length (pml4_slots m pml4 i) \<le> 512 * (512 * 512)" for pml4 i
    using c [of "pdpt_slots m (entry_at m pml4 i AND PAGE_MASK)", OF 2] by (simp add: pml4_slots_def Let_def)
  show ?thesis
    using c [of "pml4_slots m BOOT_PML4", OF 3] by (simp add: leaf_slots_def)
qed

lemma visits_length: "length (snd (fold (visit full flag note_page) vs (m, rs))) \<le> length rs + length vs"
proof (induction vs arbitrary: m rs)
  case (Cons v vs)
  obtain m1 rs1 where v: "visit full flag note_page v (m, rs) = (m1, rs1)" by fastforce
  then have "length rs1 \<le> length rs + 1"
    by (cases v) (auto simp: visit_def note_page_def Let_def split: if_splits)
  then show ?case using Cons [of m1 rs1] v by simp
qed simp

lemma scan_records_length: "length (scan_records full no m) \<le> 2 ^ 36"
  using visits_length [of full "scan_flag full no" "leaf_slots m" m "[]"] slots_length [of m] by (simp add: records_def)

lemma create_entry_queue:
  assumes "queue_ok q"
  shows "queue_ok (create_send_list_entry ch mp addr page n q)" "length (q_list (create_send_list_entry ch mp addr page n q)) \<le> length (q_list q) + 1"
proof -
  have 1: "queue_ok (q\<lparr>q_wr_id := i\<rparr>)" "queue_ok (q\<lparr>q_wr_id := i, q_prefetched := l\<rparr>)" for i l
    using assms by (simp_all add: queue_ok_def)
  show "queue_ok (create_send_list_entry ch mp addr page n q)"
    using 1 by (auto simp: create_send_list_entry_def prepare_send_list_elem_def Let_def split: option.split intro!: append_queue_ok)
  show "length (q_list (create_send_list_entry ch mp addr page n q)) \<le> length (q_list q) + 1"
    by (auto simp: create_send_list_entry_def prepare_send_list_elem_def append_to_send_list_def Let_def split: option.split)
qed

lemma send_pages_queue:
  "queue_ok q \<Longrightarrow> queue_ok (fold (\<lambda>(entry, page). send_page ch mp entry page) rs q) \<and>
     length (q_list (fold (\<lambda>(entry, page). send_page ch mp entry page) rs q)) \<le> length (q_list q) + length rs"
proof (induction rs arbitrary: q)
  case (Cons r rs)
  obtain entry page where r: "r = (entry, page)" by fastforce
  note c = create_entry_queue [OF Cons.prems, of ch mp "Some (dec64 entry)" "ch_guest_mem ch + determine_dest_offset (dec64 entry)" "word_of_nat (length page)"]
  from Cons.IH [OF c(1)] c(2) show ?case by (simp add: r send_page_def)
qed simp

section \<open>Processing\<close>

lemma update_last_ok:
  assumes "queue_ok q" and "q_list q \<noteq> []" and "\<And>wr. w_signaled (f wr)"
  shows "signals_ok (q_list (update_last f q))" "last (q_list (update_last f q)) = f (last (q_list q))"
proof -
  have n: "q_list (update_last f q) ! i = (if Suc i = length (q_list q) then f (last (q_list q)) else q_list q ! i)" if "i < length (q_list q)" for i
    using that assms(2) by (auto simp: update_last_def nth_append nth_butlast)
  have l: "length (q_list (update_last f q)) = length (q_list q)" using assms(2) by (simp add: update_last_def)
  show "signals_ok (q_list (update_last f q))"
    unfolding signals_ok_def l using n assms(1,3) by (auto simp: queue_ok_def)
  show "last (q_list (update_last f q)) = f (last (q_list q))" by (simp add: update_last_def)
qed

lemma process_performs:
  assumes "hca_contract vb pend perf delay" and "queue_ok q" and "q_list q \<noteq> []" and "pend h = []" and "\<And>wr. w_signaled (f wr)"
  shows "\<exists>h'. process_send_list vb (update_last f q) h = Some (Some (w_id (f (last (q_list q))), True), (update_last f q)\<lparr>q_list := [], q_length := 0\<rparr>, h') \<and>
    pend h' = [] \<and> perf h' = perf h @ q_list (update_last f q)"
proof -
  have "q_list (update_last f q) \<noteq> []" by (simp add: update_last_def)
  from post_loop_performs [OF assms(1) this update_last_ok(1) [OF assms(2,3,5)] assms(4)]
  show ?thesis
    by (auto simp: process_send_list_def cleanup_send_list_def update_last_ok(2) [OF assms(2,3,5)])
qed

lemma length_zero: "queue_ok q \<Longrightarrow> length (q_list q) < 2 ^ 64 \<Longrightarrow> q_length q = 0 \<longleftrightarrow> q_list q = []"
  using unat_word_of_nat_u64 [of "length (q_list q)"] by (auto simp: queue_ok_def unat_eq_0 [symmetric])

lemma update_last_sends:
  assumes "q_list q \<noteq> []" and "\<And>wr. w_addr (f wr) = w_addr wr \<and> w_len (f wr) = w_len wr \<and> w_remote (f wr) = w_remote wr"
  shows "sends (q_list (update_last f q)) a = sends (q_list q) a" "list_all (wr_ok ch) (q_list (update_last f q)) = list_all (wr_ok ch) (q_list q)"
proof -
  have e: "q_list q = butlast (q_list q) @ [last (q_list q)]" using assms(1) by simp
  have "sends (q_list q) a = sends (butlast (q_list q) @ [last (q_list q)]) a" "list_all (wr_ok ch) (q_list q) = list_all (wr_ok ch) (butlast (q_list q) @ [last (q_list q)])"
    by (subst (1) e, rule refl)+
  then show "sends (q_list (update_last f q)) a = sends (q_list q) a" "list_all (wr_ok ch) (q_list (update_last f q)) = list_all (wr_ok ch) (q_list q)"
    using assms(2) by (simp_all add: update_last_def sends_def wr_ok_def)
qed

lemma add_dummy_grown:
  assumes "queue_ok q"
  shows "grown ch q (add_dummy q) (\<lambda>_. False)" "q_list (add_dummy q) \<noteq> []"
proof -
  let ?wr = "fst (prepare_send_list_elem q)" and ?q = "snd (prepare_send_list_elem q)"
  have p: "\<not> w_signaled ?wr" "w_len ?wr = 0" "q_list ?q = q_list q" "q_length ?q = q_length q"
    by (simp_all add: prepare_send_list_elem_def Let_def)
  then have "queue_ok (append_to_send_list ?wr ?q)" using assms by (intro append_queue_ok) (simp_all add: queue_ok_def)
  then have "grown ch q (append_to_send_list ?wr ?q) (\<lambda>_. False)"
    using append_list [of ?wr ?q] p by (auto simp: grown_def wr_ok_def sends_def in_run_def)
  then show "grown ch q (add_dummy q) (\<lambda>_. False)"
    using grown_refl [OF assms] by (simp add: add_dummy_def Let_def case_prod_beta)
  show "q_list (add_dummy q) \<noteq> []"
    using assms append_list [of ?wr ?q] by (auto simp: add_dummy_def Let_def case_prod_beta queue_ok_def)
qed

lemma enqueue_all_grown:
  assumes "queue_ok q" and "\<forall>mr \<in> set (ch_mrs ch). mr_ok ch mr" and "page_aligned (ucast (ch_max_msg_sz ch))" and "ch_max_msg_sz ch \<noteq> 0"
  shows "\<exists>q'. enqueue_all_mrs ch mp q = Some q' \<and> grown ch q q' (\<lambda>a. \<exists>mr \<in> set (ch_mrs ch). in_run a (mr_addr mr) (unat (mr_length mr)))"
proof -
  have "grown ch q (fold (enqueue_mr ch mp) (ch_mrs ch) q) (\<lambda>a. \<exists>mr \<in> set (ch_mrs ch). in_run a (mr_addr mr) (unat (mr_length mr)))"
    using assms by (intro grown_fold) (auto intro: enqueue_mr_grown)
  then show ?thesis using assms(4) by (simp add: enqueue_all_mrs_def)
qed

section \<open>Properties\<close>

text \<open>The bytes that the stop-and-copy phase has to bring to the destination, as offsets of guest memory.\<close>

definition to_send :: "com_hndl \<Rightarrow> mig_params_t \<Rightarrow> bool \<Rightarrow> u32 \<Rightarrow> gmem \<Rightarrow> u64 \<Rightarrow> bool" where
  "to_send ch mp full no m x \<longleftrightarrow>
    (if p_type mp = MIG_TYPE_COLD \<and> p_mode mp = MIG_MODE_COMPLETE_DUMP
     then \<exists>mr \<in> set (ch_mrs ch). in_run (ch_guest_mem ch + x) (mr_addr mr) (unat (mr_length mr))
     else checkpointed full no m x)"

text \<open>What the phase needs: regions at page boundaries for a complete dump, registered pages for a scan.\<close>

definition sendable :: "com_hndl \<Rightarrow> mig_params_t \<Rightarrow> bool \<Rightarrow> u32 \<Rightarrow> gmem \<Rightarrow> bool" where
  "sendable ch mp full no m \<longleftrightarrow>
    (if p_type mp = MIG_TYPE_COLD \<and> p_mode mp = MIG_MODE_COMPLETE_DUMP
     then list_all (mr_ok ch) (ch_mrs ch) \<and> page_aligned (ucast (ch_max_msg_sz ch)) \<and> ch_max_msg_sz ch \<noteq> 0
     else registered ch full no m)"

lemma enqueue_memory_grown:
  assumes "queue_ok (g_queue g)" and "sendable ch mp full no (g_mem g)"
  shows "\<exists>g1. enqueue_memory ch mp full no g = Some g1 \<and> g_hca g1 = g_hca g \<and> (\<exists>P. grown ch (g_queue g) (g_queue g1) P \<and>
    (\<forall>x. full \<or> outside_slots (g_mem g) x \<longrightarrow> g_mem g1 x = g_mem g x \<and> P (ch_guest_mem ch + x) = to_send ch mp full no (g_mem g) x))"
proof (cases "p_type mp = MIG_TYPE_COLD \<and> p_mode mp = MIG_MODE_COMPLETE_DUMP")
  case True
  then show ?thesis
    using enqueue_all_grown [OF assms(1), of ch mp] assms(2)
    by (fastforce simp: enqueue_memory_def sendable_def to_send_def list_all_iff)
next
  case False
  then have "registered ch full no (g_mem g)" using assms(2) by (auto simp: sendable_def)
  from send_pages_grown [OF assms(1) this, of mp] False show ?thesis
    using scan_records_cover [of full "g_mem g" _ no]
    by (auto simp: enqueue_memory_def scan_dirty_def scan_sends to_send_def intro!: exI)
qed


definition hca0 :: "(send_wr list \<times> send_wr list \<times> nat) verbs" where
  "hca0 = \<lparr>vb_post = (\<lambda>(pend, perf, d) ws. let n = IB_MAX_SEND_WR - length pend
       in (drop n ws \<noteq> [], True, drop n ws, (pend @ take n ws, perf, d))),
     vb_poll = (\<lambda>(pend, perf, d).
       if 0 < d then (0, (0, True), (pend, perf, d - 1))
       else case dropWhile (\<lambda>u. \<not> w_signaled u) pend of
              [] \<Rightarrow> (0, (0, True), (pend, perf, d))
            | w # vs \<Rightarrow> (1, (w_id w, True), (vs, perf @ takeWhile (\<lambda>u. \<not> w_signaled u) pend @ [w], 3)))\<rparr>"

lemma hca0_contract: "hca_contract hca0 fst (\<lambda>h. fst (snd h)) (\<lambda>h. snd (snd h))"
proof -
  have t: "dropWhile (\<lambda>u. \<not> w_signaled u) (us @ w # vs) = w # vs" "takeWhile (\<lambda>u. \<not> w_signaled u) (us @ w # vs) = us"
    if "list_all (\<lambda>u. \<not> w_signaled u) us" "w_signaled w" for us w vs
    using that by (induction us) auto
  show ?thesis
    unfolding hca_contract_def by (auto simp: hca0_def Let_def t split: prod.splits)
qed

definition mr0 :: mr where "mr0 = \<lparr>mr_addr = 0x7f0000000000, mr_length = 0x5000, mr_lkey = 7, mr_rkey = 8\<rparr>"

definition ch0 :: com_hndl where
  "ch0 = \<lparr>ch_mrs = [mr0], ch_rem_addr = 0x600000000000, ch_rem_keys = [9], ch_max_msg_sz = 0x2000, ch_guest_mem = 0x7f0000000000\<rparr>"

definition g0 :: "(send_wr list \<times> send_wr list \<times> nat) mig_state" where
  "g0 = \<lparr>g_mem = \<lambda>a. ucast a, g_queue = empty_sendq, g_hca = ([], [], 2), g_round = 0\<rparr>"




end
