(* ===== verification/Rdma_Connection.thy ===== *)
theory Rdma_Connection
  imports Rdma
begin

text \<open>
  The InfiniBand connection of a migration, \<open>src/uhyve-migration-rdma.c\<close>: \<open>init_com_hndl\<close>, \<open>exchange_qp_info\<close>, \<open>con_com_buf\<close>,
  \<open>destroy_com_hndl\<close> and \<open>recv_guest_mem\<close>.

  The verbs library is a parameter, the record \<open>ibv\<close> of its calls on a state of any type, with the integers and the null pointers
  the calls return; what the theorems use of it is the predicate \<open>verbs_contract\<close>.  An operation is a function from the state of the library
  to the result and the new state, or to the code the program exits with.
\<close>

unbundle bit_operations_syntax

section \<open>The verbs library\<close>

text \<open>The objects a program creates, of which the code has at most one of each kind but the memory regions.\<close>

datatype ib_obj = Ctx | Pd | Mr nat | Comp_Chan | Cq | Qp

record port_attr =
  pa_active :: bool
  pa_lid :: u16
  pa_max_msg_sz :: u32

datatype qp_attr =
    To_Init u8
  | To_RTR u32 u16 u16 u8
  | To_RTS u16

record 'h ibv =
  v_get_device_list :: "'h \<Rightarrow> nat option \<times> 'h"
  v_open_device :: "'h \<Rightarrow> nat \<Rightarrow> bool \<times> 'h"
  v_query_device_ex :: "'h \<Rightarrow> int \<times> 'h"
  v_query_device :: "'h \<Rightarrow> int \<times> u8 \<times> 'h"
  v_query_port :: "'h \<Rightarrow> nat \<Rightarrow> port_attr \<Rightarrow> int \<times> port_attr \<times> 'h"
  v_create :: "'h \<Rightarrow> ib_obj \<Rightarrow> bool \<times> 'h"
  v_reg_mr :: "'h \<Rightarrow> nat \<Rightarrow> mem_chunk \<Rightarrow> bool \<Rightarrow> (u32 \<times> u32) option \<times> 'h"
  v_create_qp :: "'h \<Rightarrow> u32 option \<times> 'h"
  v_modify_qp :: "'h \<Rightarrow> qp_attr \<Rightarrow> int \<times> 'h"
  v_random :: "'h \<Rightarrow> u32 \<times> 'h"
  v_destroy :: "'h \<Rightarrow> ib_obj \<Rightarrow> int \<times> 'h"
  v_req_notify_cq :: "'h \<Rightarrow> int \<times> 'h"
  v_post_recv :: "'h \<Rightarrow> u32 \<Rightarrow> int \<times> 'h"
  v_get_cq_event :: "'h \<Rightarrow> int \<times> 'h"
  v_ack_cq_events :: "'h \<Rightarrow> 'h"
  v_errno :: "'h \<Rightarrow> int"

text \<open>Operations, their composition, and the checks of the code: a call that returns a negative number, or any number but 0, or no object.\<close>

type_synonym ('h, 'a) ib_op = "'h \<Rightarrow> int + 'a \<times> 'h"

definition ib_return :: "'a \<Rightarrow> ('h, 'a) ib_op" where "ib_return x h = Inr (x, h)"

definition ib_then :: "('h, 'a) ib_op \<Rightarrow> ('a \<Rightarrow> ('h, 'b) ib_op) \<Rightarrow> ('h, 'b) ib_op" where
  "ib_then m k h = (case m h of Inl code \<Rightarrow> Inl code | Inr (x, h) \<Rightarrow> k x h)"

definition not_negative :: "('h \<Rightarrow> int \<times> 'h) \<Rightarrow> ('h, unit) ib_op" where
  "not_negative f h = (case f h of (ret, h) \<Rightarrow> if ret < 0 then Inl 1 else Inr ((), h))"

definition created :: "('h \<Rightarrow> bool \<times> 'h) \<Rightarrow> ('h, unit) ib_op" where
  "created f h = (case f h of (ok, h) \<Rightarrow> if ok then Inr ((), h) else Inl 1)"

definition obtained :: "('h \<Rightarrow> 'a option \<times> 'h) \<Rightarrow> ('h, 'a) ib_op" where
  "obtained f h = (case f h of (r, h) \<Rightarrow> case r of Some x \<Rightarrow> Inr (x, h) | None \<Rightarrow> Inl 1)"

definition zero_or_errno :: "'h ibv \<Rightarrow> ('h \<Rightarrow> int \<times> 'h) \<Rightarrow> ('h, unit) ib_op" where
  "zero_or_errno v f h = (case f h of (ret, h) \<Rightarrow> if ret = 0 then Inr ((), h) else Inl (v_errno v h))"

section \<open>Setting up the connection\<close>

text \<open>\<open>qp_info_t\<close>, of 24 bytes; the pointer \<open>keys\<close> is sent along and overwritten.\<close>

record qp_info =
  qi_qpn :: u32
  qi_lid :: u16
  qi_psn :: u16
  qi_keys :: u64
  qi_addr :: u64

definition local_qp_info :: "u32 \<Rightarrow> u32 \<Rightarrow> u16 \<Rightarrow> u64 \<Rightarrow> u64 \<Rightarrow> qp_info" where
  "local_qp_info qp_num random lid keys guest_mem =
     \<lparr>qi_qpn = qp_num, qi_lid = lid, qi_psn = ucast (random AND 0xffffff), qi_keys = keys, qi_addr = guest_mem\<rparr>"

definition enc_qp :: "qp_info \<Rightarrow> bytes" where
  "enc_qp i = enc32 (qi_qpn i) @ enc16 (qi_lid i) @ enc16 (qi_psn i) @ enc64 (qi_keys i) @ enc64 (qi_addr i)"

definition dec_qp :: "bytes \<Rightarrow> qp_info" where
  "dec_qp b = \<lparr>qi_qpn = dec32 (take 4 b), qi_lid = dec16 (take 2 (drop 4 b)), qi_psn = dec16 (take 2 (drop 6 b)),
     qi_keys = dec64 (take 8 (drop 8 b)), qi_addr = dec64 (take 8 (drop 16 b))\<rparr>"

definition enc_keys :: "u32 list \<Rightarrow> bytes" where "enc_keys ks = concat (map enc32 ks)"

fun dec_keys :: "nat \<Rightarrow> bytes \<Rightarrow> u32 list" where
  "dec_keys 0 b = []"
| "dec_keys (Suc n) b = dec32 (take 4 b) # dec_keys n (drop 4 b)"

text \<open>
  \<open>exchange_qp_info\<close>: the remote information and keys; \<open>junk\<close> is what \<open>malloc\<close> returns for the keys.  The results of the transfers are
  not looked at.
\<close>

definition exchange_qp_info :: "bool \<Rightarrow> nat \<Rightarrow> qp_info \<Rightarrow> u32 list \<Rightarrow> bytes \<Rightarrow> sock \<Rightarrow> (qp_info \<times> u32 list \<times> sock) option" where
  "exchange_qp_info server mr_cnt loc keys junk s =
    (if server
     then Option.bind (recv_data s (replicate 24 0)) (\<lambda>(_, b, s).
          Option.bind (send_data s (enc_qp loc)) (\<lambda>(_, s).
          Option.bind (recv_data s junk) (\<lambda>(_, k, s).
          Option.bind (send_data s (enc_keys keys)) (\<lambda>(_, s). Some (dec_qp b, dec_keys mr_cnt k, s)))))
     else Option.bind (send_data s (enc_qp loc)) (\<lambda>(_, s).
          Option.bind (recv_data s (replicate 24 0)) (\<lambda>(_, b, s).
          Option.bind (send_data s (enc_keys keys)) (\<lambda>(_, s).
          Option.bind (recv_data s junk) (\<lambda>(_, k, s). Some (dec_qp b, dec_keys mr_cnt k, s))))))"

text \<open>The part of \<open>com_hndl\<close> that belongs to the connection; the rest is the record of the theory \<open>Rdma\<close>.\<close>

record ib_conn =
  cn_hndl :: com_hndl
  cn_loc :: qp_info
  cn_loc_keys :: "u32 list"
  cn_rem :: qp_info
  cn_used_port :: u8

text \<open>
  The search for an active port, from port 0 to port \<open>phys_port_cnt\<close>.  A query that fails with a positive number leaves the
  attributes of the port queried before.
\<close>

fun find_port :: "'h ibv \<Rightarrow> port_attr \<Rightarrow> nat list \<Rightarrow> ('h, nat option \<times> port_attr) ib_op" where
  "find_port v pa [] h = Inr ((None, pa), h)"
| "find_port v pa (cur_port # ps) h =
    (case v_query_port v h cur_port pa of
       (ret, pa, h) \<Rightarrow> if ret < 0 then Inl 1 else if pa_active pa then Inr ((Some cur_port, pa), h) else find_port v pa ps h)"

definition try_device :: "'h ibv \<Rightarrow> port_attr \<Rightarrow> nat \<Rightarrow> ('h, nat option \<times> port_attr) ib_op" where
  "try_device v pa cur_dev =
    ib_then (created (\<lambda>h. v_open_device v h cur_dev)) (\<lambda>_.
    ib_then (not_negative (v_query_device_ex v)) (\<lambda>_ h.
      case v_query_device v h of (ret, num_ports, h) \<Rightarrow>
        if ret < 0 then Inl 1
        else ib_then (find_port v pa [0..<unat num_ports + 1]) (\<lambda>(port, pa).
               case port of
                 Some p \<Rightarrow> ib_return (Some p, pa)
               | None \<Rightarrow> ib_then (not_negative (\<lambda>h. v_destroy v h Ctx)) (\<lambda>_. ib_return (None, pa))) h))"

fun find_device :: "'h ibv \<Rightarrow> port_attr \<Rightarrow> nat list \<Rightarrow> ('h, nat \<times> port_attr) ib_op" where
  "find_device v pa [] h = Inl 1"
| "find_device v pa (cur_dev # ds) h =
    ib_then (try_device v pa cur_dev) (\<lambda>(port, pa).
      case port of Some p \<Rightarrow> ib_return (p, pa) | None \<Rightarrow> find_device v pa ds) h"

fun register_mrs :: "'h ibv \<Rightarrow> bool \<Rightarrow> nat \<Rightarrow> mem_chunk list \<Rightarrow> ('h, mr list) ib_op" where
  "register_mrs v odp i [] h = Inr ([], h)"
| "register_mrs v odp i (c # cs) h =
    ib_then (obtained (\<lambda>h. v_reg_mr v h i c odp)) (\<lambda>(lkey, rkey).
    ib_then (register_mrs v odp (i + 1) cs) (\<lambda>mrs.
      ib_return (\<lparr>mr_addr = c_ptr c, mr_length = c_size c, mr_lkey = lkey, mr_rkey = rkey\<rparr> # mrs))) h"

text \<open>\<open>init_com_hndl\<close>; the fields on the remote side are still zero, \<open>keys\<close> is the address of the array of keys.\<close>

definition no_qp_info :: qp_info where
  "no_qp_info = \<lparr>qi_qpn = 0, qi_lid = 0, qi_psn = 0, qi_keys = 0, qi_addr = 0\<rparr>"

definition fill_loc_qp_info :: "'h ibv \<Rightarrow> u64 \<Rightarrow> u64 \<Rightarrow> nat \<Rightarrow> port_attr \<Rightarrow> mr list \<Rightarrow> u32 \<Rightarrow> ('h, ib_conn) ib_op" where
  "fill_loc_qp_info v guest_mem keys port pa mrs qp_num h =
    (case v_random v h of (random, h) \<Rightarrow>
       Inr (\<lparr>cn_hndl = \<lparr>ch_mrs = mrs, ch_rem_addr = 0, ch_rem_keys = [], ch_max_msg_sz = pa_max_msg_sz pa, ch_guest_mem = guest_mem\<rparr>,
         cn_loc = local_qp_info qp_num random (pa_lid pa) keys guest_mem, cn_loc_keys = map mr_rkey mrs, cn_rem = no_qp_info,
         cn_used_port = word_of_nat port\<rparr>, h))"

definition create_qp :: "'h ibv \<Rightarrow> nat \<Rightarrow> ('h, u32) ib_op" where
  "create_qp v port =
    ib_then (obtained (v_create_qp v)) (\<lambda>qp_num.
    ib_then (not_negative (\<lambda>h. v_modify_qp v h (To_Init (word_of_nat port)))) (\<lambda>_. ib_return qp_num))"

definition init_com_hndl :: "'h ibv \<Rightarrow> mig_params_t \<Rightarrow> u64 \<Rightarrow> u64 \<Rightarrow> mem_mappings_t \<Rightarrow> ('h, ib_conn) ib_op" where
  "init_com_hndl v mp guest_mem keys mem_mappings =
    ib_then (obtained (v_get_device_list v)) (\<lambda>num_devices.
    ib_then (find_device v \<lparr>pa_active = False, pa_lid = 0, pa_max_msg_sz = 0\<rparr> [0..<num_devices]) (\<lambda>(port, pa).
    ib_then (created (\<lambda>h. v_create v h Pd)) (\<lambda>_.
    ib_then (register_mrs v (p_use_odp mp) 0 (mapping_list mem_mappings)) (\<lambda>mrs.
    ib_then (created (\<lambda>h. v_create v h Comp_Chan)) (\<lambda>_.
    ib_then (created (\<lambda>h. v_create v h Cq)) (\<lambda>_.
    ib_then (create_qp v port) (\<lambda>qp_num.
    fill_loc_qp_info v guest_mem keys port pa mrs qp_num)))))))"

text \<open>The transitions of the queue pair to the states in which it receives and sends.\<close>

definition con_com_buf :: "'h ibv \<Rightarrow> ib_conn \<Rightarrow> ('h, unit) ib_op" where
  "con_com_buf v c =
    ib_then (zero_or_errno v (\<lambda>h. v_modify_qp v h (To_RTR (qi_qpn (cn_rem c)) (qi_psn (cn_rem c)) (qi_lid (cn_rem c)) (cn_used_port c)))) (\<lambda>_.
    zero_or_errno v (\<lambda>h. v_modify_qp v h (To_RTS (qi_psn (cn_loc c)))))"

fun dereg_mrs :: "'h ibv \<Rightarrow> nat list \<Rightarrow> ('h, unit) ib_op" where
  "dereg_mrs v [] h = Inr ((), h)"
| "dereg_mrs v (i # is) h = ib_then (not_negative (\<lambda>h. v_destroy v h (Mr i))) (\<lambda>_. dereg_mrs v is) h"

definition destroy_com_hndl :: "'h ibv \<Rightarrow> ib_conn \<Rightarrow> ('h, unit) ib_op" where
  "destroy_com_hndl v c =
    ib_then (not_negative (\<lambda>h. v_destroy v h Qp)) (\<lambda>_.
    ib_then (not_negative (\<lambda>h. v_destroy v h Cq)) (\<lambda>_.
    ib_then (not_negative (\<lambda>h. v_destroy v h Comp_Chan)) (\<lambda>_.
    ib_then (dereg_mrs v [0..<length (ch_mrs (cn_hndl c))]) (\<lambda>_.
    ib_then (not_negative (\<lambda>h. v_destroy v h Pd)) (\<lambda>_.
    not_negative (\<lambda>h. v_destroy v h Ctx))))))"

text \<open>
  The connection of one side, \<open>precopy_phase\<close> and \<open>recv_guest_mem\<close> up to the call of \<open>con_com_buf\<close>: \<open>None\<close> when the exchange over the
  socket never ends.
\<close>

definition connect :: "'h ibv \<Rightarrow> mig_params_t \<Rightarrow> u64 \<Rightarrow> u64 \<Rightarrow> bytes \<Rightarrow> bool \<Rightarrow> mem_mappings_t \<Rightarrow> sock \<Rightarrow> 'h \<Rightarrow> (int + (ib_conn \<times> sock) \<times> 'h) option" where
  "connect v mp guest_mem keys junk server mem_mappings s h =
    (case init_com_hndl v mp guest_mem keys mem_mappings h of
       Inl code \<Rightarrow> Some (Inl code)
     | Inr (c, h) \<Rightarrow>
         map_option (\<lambda>(rem, rem_keys, s).
             let c = c\<lparr>cn_rem := rem, cn_hndl := (cn_hndl c)\<lparr>ch_rem_addr := qi_addr rem, ch_rem_keys := rem_keys\<rparr>\<rparr>
             in ib_then (con_com_buf v c) (\<lambda>_. ib_return (c, s)) h)
           (exchange_qp_info server (length (ch_mrs (cn_hndl c))) (cn_loc c) (cn_loc_keys c) junk s))"

text \<open>\<open>recv_guest_mem\<close>.  It reads the key of the region 0, and does so behind the array when there is no region.\<close>

definition recv_guest_mem_rdma :: "'h ibv \<Rightarrow> mig_params_t \<Rightarrow> u64 \<Rightarrow> u64 \<Rightarrow> bytes \<Rightarrow> mem_mappings_t \<Rightarrow> sock \<Rightarrow> 'h \<Rightarrow> (int + sock \<times> 'h) option" where
  "recv_guest_mem_rdma v mp guest_mem keys junk mem_mappings s h =
     map_option (\<lambda>r. case r of
         Inl code \<Rightarrow> Inl code
       | Inr ((c, s), h) \<Rightarrow>
           ib_then (not_negative (v_req_notify_cq v)) (\<lambda>_.
           ib_then (not_negative (\<lambda>h. v_post_recv v h (mr_lkey (ch_mrs (cn_hndl c) ! 0)))) (\<lambda>_.
           ib_then (not_negative (v_get_cq_event v)) (\<lambda>_ h.
           ib_then (destroy_com_hndl v c) (\<lambda>_. ib_return s) (v_ack_cq_events v h)))) h)
       (connect v mp guest_mem keys junk True mem_mappings s h)"

section \<open>What the library promises\<close>

text \<open>
  The library keeps a set of objects, the open device and the transitions of the queue pair.  An object rests on others: it cannot
  be created before them, and an object on which another rests cannot be destroyed; the call then returns \<open>EBUSY\<close>, a positive number.
\<close>

fun needs :: "ib_obj \<Rightarrow> ib_obj set" where
  "needs Ctx = {}"
| "needs Pd = {Ctx}"
| "needs (Mr i) = {Pd}"
| "needs Comp_Chan = {Ctx}"
| "needs Cq = {Ctx, Comp_Chan}"
| "needs Qp = {Pd, Cq}"

record ib_view =
  vw_objs :: "ib_obj set"
  vw_dev :: nat
  vw_qp :: "qp_attr list"

fun qp_next :: "qp_attr list \<Rightarrow> qp_attr \<Rightarrow> bool" where
  "qp_next [] (To_Init p) = True"
| "qp_next [To_Init p] (To_RTR n psn lid q) = True"
| "qp_next [To_Init p, To_RTR n psn lid q] (To_RTS psn') = True"
| "qp_next _ _ = False"

definition device_rules :: "'h ibv \<Rightarrow> ('h \<Rightarrow> ib_view) \<Rightarrow> nat \<Rightarrow> (nat \<Rightarrow> u8) \<Rightarrow> (nat \<Rightarrow> nat \<Rightarrow> bool) \<Rightarrow> bool" where
  "device_rules v view ndev ports act \<longleftrightarrow>
    (\<forall>h. \<exists>h'. v_get_device_list v h = (Some ndev, h') \<and> view h' = view h) \<and>
    (\<forall>h d. d < ndev \<and> Ctx \<notin> vw_objs (view h) \<longrightarrow>
       (\<exists>h'. v_open_device v h d = (True, h') \<and> view h' = (view h)\<lparr>vw_objs := insert Ctx (vw_objs (view h)), vw_dev := d\<rparr>)) \<and>
    (\<forall>h. \<exists>h'. v_query_device_ex v h = (0, h') \<and> view h' = view h) \<and>
    (\<forall>h. \<exists>h'. v_query_device v h = (0, ports (vw_dev (view h)), h') \<and> view h' = view h) \<and>
    (\<forall>h p pa. \<exists>ret pa' h'. v_query_port v h p pa = (ret, pa', h') \<and> view h' = view h \<and>
       (ret = 0 \<and> pa_active pa' = act (vw_dev (view h)) p \<or> 0 < ret \<and> pa' = pa \<and> \<not> act (vw_dev (view h)) p))"

definition object_rules :: "'h ibv \<Rightarrow> ('h \<Rightarrow> ib_view) \<Rightarrow> bool" where
  "object_rules v view \<longleftrightarrow>
    (\<forall>h b. b \<notin> vw_objs (view h) \<and> needs b \<subseteq> vw_objs (view h) \<longrightarrow>
       (\<exists>h'. v_create v h b = (True, h') \<and> view h' = (view h)\<lparr>vw_objs := insert b (vw_objs (view h))\<rparr>)) \<and>
    (\<forall>h i c odp. Mr i \<notin> vw_objs (view h) \<and> Pd \<in> vw_objs (view h) \<longrightarrow>
       (\<exists>k h'. v_reg_mr v h i c odp = (Some k, h') \<and> view h' = (view h)\<lparr>vw_objs := insert (Mr i) (vw_objs (view h))\<rparr>)) \<and>
    (\<forall>h. Qp \<notin> vw_objs (view h) \<and> needs Qp \<subseteq> vw_objs (view h) \<longrightarrow>
       (\<exists>n h'. v_create_qp v h = (Some n, h') \<and> view h' = (view h)\<lparr>vw_objs := insert Qp (vw_objs (view h)), vw_qp := []\<rparr>)) \<and>
    (\<forall>h b. \<exists>h'. if b \<in> vw_objs (view h) \<and> (\<forall>b' \<in> vw_objs (view h). b \<notin> needs b')
       then v_destroy v h b = (0, h') \<and> view h' = (view h)\<lparr>vw_objs := vw_objs (view h) - {b}\<rparr>
       else v_destroy v h b = (16, h') \<and> view h' = view h)"

definition qp_rules :: "'h ibv \<Rightarrow> ('h \<Rightarrow> ib_view) \<Rightarrow> bool" where
  "qp_rules v view \<longleftrightarrow>
    (\<forall>h a. Qp \<in> vw_objs (view h) \<and> qp_next (vw_qp (view h)) a \<longrightarrow>
       (\<exists>h'. v_modify_qp v h a = (0, h') \<and> view h' = (view h)\<lparr>vw_qp := vw_qp (view h) @ [a]\<rparr>)) \<and>
    (\<forall>h. view (snd (v_random v h)) = view h) \<and>
    (\<forall>h. Cq \<in> vw_objs (view h) \<longrightarrow> (\<exists>h'. v_req_notify_cq v h = (0, h') \<and> view h' = view h)) \<and>
    (\<forall>h k. Qp \<in> vw_objs (view h) \<and> vw_qp (view h) \<noteq> [] \<longrightarrow> (\<exists>h'. v_post_recv v h k = (0, h') \<and> view h' = view h)) \<and>
    (\<forall>h. Comp_Chan \<in> vw_objs (view h) \<longrightarrow> (\<exists>h'. v_get_cq_event v h = (0, h') \<and> view h' = view h)) \<and>
    (\<forall>h. view (v_ack_cq_events v h) = view h)"

definition verbs_contract :: "'h ibv \<Rightarrow> ('h \<Rightarrow> ib_view) \<Rightarrow> nat \<Rightarrow> (nat \<Rightarrow> u8) \<Rightarrow> (nat \<Rightarrow> nat \<Rightarrow> bool) \<Rightarrow> bool" where
  "verbs_contract v view ndev ports act \<longleftrightarrow> device_rules v view ndev ports act \<and> object_rules v view \<and> qp_rules v view"

section \<open>Lemmas\<close>

text \<open>An operation ends with a result for which a property holds; the rule for a composition.\<close>

definition ends :: "('h, 'a) ib_op \<Rightarrow> 'h \<Rightarrow> ('a \<Rightarrow> 'h \<Rightarrow> bool) \<Rightarrow> bool" where
  "ends m h Q \<longleftrightarrow> (\<exists>x h'. m h = Inr (x, h') \<and> Q x h')"

lemma ends_then: "ends m h (\<lambda>x h'. ends (k x) h' Q) \<Longrightarrow> ends (ib_then m k) h Q"
  by (auto simp: ends_def ib_then_def)

lemma ends_return: "Q x h \<Longrightarrow> ends (ib_return x) h Q"
  by (simp add: ends_def ib_return_def)

lemma ends_mono: "ends m h Q \<Longrightarrow> (\<And>x h'. Q x h' \<Longrightarrow> Q' x h') \<Longrightarrow> ends m h Q'"
  by (auto simp: ends_def)

lemma ends_not_negative: "\<exists>r h'. f h = (r, h') \<and> 0 \<le> r \<and> Q () h' \<Longrightarrow> ends (not_negative f) h Q"
  by (auto simp: ends_def not_negative_def)

lemma ends_created: "\<exists>h'. f h = (True, h') \<and> Q () h' \<Longrightarrow> ends (created f) h Q"
  by (auto simp: ends_def created_def)

lemma ends_obtained: "\<exists>x h'. f h = (Some x, h') \<and> Q x h' \<Longrightarrow> ends (obtained f) h Q"
  by (auto simp: ends_def obtained_def)

lemma ends_zero: "\<exists>h'. f h = (0, h') \<and> Q () h' \<Longrightarrow> ends (zero_or_errno v f) h Q"
  by (auto simp: ends_def zero_or_errno_def)

text \<open>The calls, from their rules.\<close>

lemma create_ok:
  assumes "object_rules v view" and "b \<notin> vw_objs (view h)" and "needs b \<subseteq> vw_objs (view h)"
    and "\<And>h'. view h' = (view h)\<lparr>vw_objs := insert b (vw_objs (view h))\<rparr> \<Longrightarrow> Q () h'"
  shows "ends (created (\<lambda>h. v_create v h b)) h Q"
proof -
  obtain h' where "v_create v h b = (True, h')" "view h' = (view h)\<lparr>vw_objs := insert b (vw_objs (view h))\<rparr>"
    using assms(1-3) unfolding object_rules_def by metis
  then show ?thesis using assms(4) by (intro ends_created) auto
qed

lemma destroy_ok:
  assumes "object_rules v view" and "b \<in> vw_objs (view h)" and "\<forall>b' \<in> vw_objs (view h). b \<notin> needs b'"
    and "\<And>h'. view h' = (view h)\<lparr>vw_objs := vw_objs (view h) - {b}\<rparr> \<Longrightarrow> Q () h'"
  shows "ends (not_negative (\<lambda>h. v_destroy v h b)) h Q"
proof -
  obtain h' where "v_destroy v h b = (0, h')" "view h' = (view h)\<lparr>vw_objs := vw_objs (view h) - {b}\<rparr>"
    using assms(1-3) unfolding object_rules_def by metis
  then show ?thesis using assms(4) by (intro ends_not_negative) auto
qed

lemma modify_ok:
  assumes "qp_rules v view" and "Qp \<in> vw_objs (view h)" and "qp_next (vw_qp (view h)) a"
  obtains h' where "v_modify_qp v h a = (0, h')" "view h' = (view h)\<lparr>vw_qp := vw_qp (view h) @ [a]\<rparr>"
  using assms unfolding qp_rules_def by blast

lemma port_ok:
  assumes "device_rules v view ndev ports act"
  shows "\<exists>ret pa' h'. v_query_port v h p pa = (ret, pa', h') \<and> view h' = view h \<and>
    (ret = 0 \<and> pa_active pa' = act (vw_dev (view h)) p \<or> 0 < ret \<and> pa' = pa \<and> \<not> act (vw_dev (view h)) p)"
  using conjunct2 [OF conjunct2 [OF conjunct2 [OF conjunct2 [OF assms [unfolded device_rules_def]]]]] by (elim allE)

lemma find_port_ok:
  assumes "device_rules v view ndev ports act" and "\<not> pa_active pa"
  shows "ends (find_port v pa ps) h (\<lambda>(port, pa') h'. view h' = view h \<and>
    (if \<exists>p \<in> set ps. act (vw_dev (view h)) p then port \<noteq> None \<and> act (vw_dev (view h)) (the port) \<and> the port \<in> set ps
     else port = None \<and> \<not> pa_active pa'))"
  using assms(2)
proof (induction ps arbitrary: pa h)
  case (Cons p ps)
  obtain ret pa' h' where q: "v_query_port v h p pa = (ret, pa', h')" "view h' = view h"
    "ret = 0 \<and> pa_active pa' = act (vw_dev (view h)) p \<or> 0 < ret \<and> pa' = pa \<and> \<not> act (vw_dev (view h)) p"
    using port_ok [OF assms(1), of h p pa] by blast
  show ?case
  proof (cases "pa_active pa'")
    case True
    then show ?thesis using q Cons.prems by (auto simp: ends_def)
  next
    case False
    have "ends (find_port v pa (p # ps)) h Q = ends (find_port v pa' ps) h' Q" for Q
      using q False by (auto simp: ends_def)
    then show ?thesis
      using q False Cons.prems by (simp only:) (rule ends_mono [OF Cons.IH [OF False]], auto split: if_splits)
  qed
qed (simp add: ends_def)

lemma open_ok:
  "device_rules v view ndev ports act \<Longrightarrow> d < ndev \<Longrightarrow> vw_objs (view h) = {} \<Longrightarrow>
   \<exists>h'. v_open_device v h d = (True, h') \<and> view h' = (view h)\<lparr>vw_objs := {Ctx}, vw_dev := d\<rparr>"
  unfolding device_rules_def by (metis empty_iff)

lemma query_ok:
  "device_rules v view ndev ports act \<Longrightarrow> \<exists>h'. v_query_device_ex v h = (0, h') \<and> view h' = view h"
  "device_rules v view ndev ports act \<Longrightarrow> \<exists>h'. v_query_device v h = (0, ports (vw_dev (view h)), h') \<and> view h' = view h"
  "device_rules v view ndev ports act \<Longrightarrow> \<exists>h'. v_get_device_list v h = (Some ndev, h') \<and> view h' = view h"
  unfolding device_rules_def by blast+

lemma try_device_ok:
  assumes "device_rules v view ndev ports act" and "object_rules v view" and "d < ndev" and "vw_objs (view h) = {}" and "\<not> pa_active pa"
  shows "ends (try_device v pa d) h (\<lambda>(port, pa') h'.
    (if \<exists>p \<le> unat (ports d). act d p then port \<noteq> None \<and> act d (the port) \<and> vw_objs (view h') = {Ctx}
     else port = None \<and> \<not> pa_active pa' \<and> vw_objs (view h') = {}))"
proof -
  obtain h1 where 1: "v_open_device v h d = (True, h1)" "view h1 = (view h)\<lparr>vw_objs := {Ctx}, vw_dev := d\<rparr>"
    using open_ok [OF assms(1,3,4)] by blast
  obtain h2 where 2: "v_query_device_ex v h1 = (0, h2)" "view h2 = view h1"
    using query_ok(1) [OF assms(1)] by blast
  obtain h3 where 3: "v_query_device v h2 = (0, ports d, h3)" "view h3 = view h1"
    using query_ok(2) [OF assms(1), of h2] 1 2 by auto
  have p: "ends (find_port v pa [0..<unat (ports d) + 1]) h3 (\<lambda>(port, pa') h'. view h' = view h1 \<and>
      (if \<exists>p \<le> unat (ports d). act d p then port \<noteq> None \<and> act d (the port) else port = None \<and> \<not> pa_active pa'))"
    using 1 3 by (intro ends_mono [OF find_port_ok [OF assms(1,5)]]) (auto simp: Bex_def less_Suc_eq_le simp del: upt_Suc split: if_splits)
  define rest where "rest = (\<lambda>(port, pa). case port of Some p \<Rightarrow> ib_return (Some p, pa)
      | None \<Rightarrow> ib_then (not_negative (\<lambda>h. v_destroy v h Ctx)) (\<lambda>_. ib_return (None :: nat option, pa :: port_attr)))"
  define Q where "Q = (\<lambda>(port, pa' :: port_attr) h'.
     (if \<exists>p \<le> unat (ports d). act d p then port \<noteq> None \<and> act d (the port) \<and> vw_objs (view h') = {Ctx}
     else port = None \<and> \<not> pa_active pa' \<and> vw_objs (view h') = {}))"
  have "ends (rest (port, pa')) h' Q"
    if "view h' = view h1" "if \<exists>p \<le> unat (ports d). act d p then port \<noteq> None \<and> act d (the port) else port = None \<and> \<not> pa_active pa'" for port pa' h'
    using that 1
    by (cases port) (auto intro!: ends_return ends_then destroy_ok [OF assms(2)] simp: rest_def Q_def split: if_splits)
  then have "ends (ib_then (find_port v pa [0..<unat (ports d) + 1]) rest) h3 Q"
    by (intro ends_then ends_mono [OF p]) auto
  then show ?thesis
    unfolding try_device_def rest_def Q_def
    by (intro ends_then ends_created exI [of _ h1] conjI 1(1) ends_not_negative exI [of _ 0] exI [of _ h2] 2(1)) (auto simp: 3 ends_def)
qed

lemma find_device_ok:
  assumes "device_rules v view ndev ports act" and "object_rules v view"
    and "\<exists>d \<in> set ds. \<exists>p \<le> unat (ports d). act d p" and "\<forall>d \<in> set ds. d < ndev" and "vw_objs (view h) = {}" and "\<not> pa_active pa"
  shows "ends (find_device v pa ds) h (\<lambda>_ h'. vw_objs (view h') = {Ctx})"
  using assms(3-6)
proof (induction ds arbitrary: h pa)
  case (Cons d ds)
  have t: "ends (try_device v pa d) h (\<lambda>(port, pa') h'.
    (if \<exists>p \<le> unat (ports d). act d p then port \<noteq> None \<and> act d (the port) \<and> vw_objs (view h') = {Ctx}
     else port = None \<and> \<not> pa_active pa' \<and> vw_objs (view h') = {}))"
    using Cons.prems by (intro try_device_ok [OF assms(1,2)]) auto
  let ?rest = "\<lambda>(port, pa). case port of Some p \<Rightarrow> ib_return (p, pa) | None \<Rightarrow> find_device v pa ds"
  have "ends (ib_then (try_device v pa d) ?rest) h (\<lambda>_ h'. vw_objs (view h') = {Ctx})"
    using Cons.prems
    by (intro ends_then ends_mono [OF t]) (auto intro!: ends_return Cons.IH split: if_splits, blast)
  then show ?case
    by (simp add: ends_def)
qed simp

lemma register_mrs_ok:
  assumes "object_rules v view" and "Pd \<in> vw_objs (view h)" and "\<forall>j \<ge> i. Mr j \<notin> vw_objs (view h)"
  shows "ends (register_mrs v odp i cs) h (\<lambda>mrs h'. length mrs = length cs \<and> map mr_addr mrs = map c_ptr cs \<and> map mr_length mrs = map c_size cs \<and>
    vw_objs (view h') = vw_objs (view h) \<union> Mr ` {i..<i + length cs})"
  using assms(2,3)
proof (induction cs arbitrary: i h)
  case (Cons c cs)
  obtain k h1 where 1: "v_reg_mr v h i c odp = (Some k, h1)" "view h1 = (view h)\<lparr>vw_objs := insert (Mr i) (vw_objs (view h))\<rparr>"
    using assms(1) Cons.prems unfolding object_rules_def by blast
  have r: "ends (register_mrs v odp (i + 1) cs) h1 (\<lambda>mrs h'. length mrs = length cs \<and> map mr_addr mrs = map c_ptr cs \<and> map mr_length mrs = map c_size cs \<and>
      vw_objs (view h') = vw_objs (view h1) \<union> Mr ` {i + 1..<i + 1 + length cs})"
    using Cons.prems 1 by (intro Cons.IH) auto
  obtain mrs h2 where "register_mrs v odp (i + 1) cs h1 = Inr (mrs, h2)" "length mrs = length cs" "map mr_addr mrs = map c_ptr cs"
    "map mr_length mrs = map c_size cs" "vw_objs (view h2) = vw_objs (view h1) \<union> Mr ` {i + 1..<i + 1 + length cs}"
    using r by (auto simp: ends_def)
  moreover have "insert (Mr i) (Mr ` {i + 1..<i + 1 + length cs}) = Mr ` {i..<i + length (c # cs)}"
    unfolding image_insert [symmetric] by (rule arg_cong [where f = "image Mr"]) auto
  ultimately show ?case
    using 1 by (simp add: ends_def obtained_def ib_then_def ib_return_def split: prod.split) (metis Un_insert_right)
qed (simp add: ends_def)

lemma length_enc_keys: "length (enc_keys ks) = 4 * length ks"
  by (induction ks) (simp_all add: enc_keys_def c32.length_enc)

interpretation qp: codec enc_qp dec_qp 24
  by unfold_locales
    (simp_all add: dec_qp_def enc_qp_def c32.length_enc c16.length_enc c64.length_enc c32.dec_enc c16.dec_enc c64.dec_enc)

lemma exchange_qp_info_agrees:
  assumes "no_errors s" and "s_in s = enc_qp rem @ enc_keys rem_keys @ rest" and "length rem_keys = mr_cnt" and "length keys = mr_cnt"
    and "length junk = 4 * mr_cnt" and "mr_cnt < 2 ^ 32"
  shows "\<exists>s'. exchange_qp_info server mr_cnt loc keys junk s = Some (rem, rem_keys, s') \<and>
    s_out s' = s_out s @ enc_qp loc @ enc_keys keys \<and> s_in s' = rest \<and> no_errors s'"
proof -
  note lk = length_enc_keys and lq = qp.length_enc
  have dk: "dec_keys (length ks) (enc_keys ks) = ks" for ks
    by (induction ks) (simp_all add: enc_keys_def c32.length_enc c32.dec_enc)
  note dq = qp.dec_enc
  have send: "\<exists>n s'. send_data s bs = Some (n, s') \<and> no_errors s' \<and> s_out s' = s_out s @ bs \<and> s_in s' = s_in s"
    if "no_errors s" "length bs < 2 ^ 64" for s bs
    using send_loop_all [OF that, of 0] by (auto simp: send_data_def)
  show ?thesis
  proof (cases server)
    case True
    obtain n1 s1 where 1: "recv_data s (replicate 24 0) = Some (n1, enc_qp rem, s1)" "no_errors s1" "s_in s1 = enc_keys rem_keys @ rest" "s_out s1 = s_out s"
      using recv_data_get [OF assms(1,2), of "replicate 24 0"] lq [of rem] by auto
    obtain n2 s2 where 2: "send_data s1 (enc_qp loc) = Some (n2, s2)" "no_errors s2" "s_out s2 = s_out s @ enc_qp loc" "s_in s2 = enc_keys rem_keys @ rest"
      using send [OF 1(2), of "enc_qp loc"] lq 1(3,4) by auto
    obtain n3 s3 where 3: "recv_data s2 junk = Some (n3, enc_keys rem_keys, s3)" "no_errors s3" "s_in s3 = rest" "s_out s3 = s_out s @ enc_qp loc"
      using recv_data_get [OF 2(2,4), of junk] lk assms(3,5,6) 2(3) by auto
    obtain n4 s4 where "send_data s3 (enc_keys keys) = Some (n4, s4)" "no_errors s4" "s_out s4 = (s_out s @ enc_qp loc) @ enc_keys keys" "s_in s4 = rest"
      using send [OF 3(2), of "enc_keys keys"] lk assms(4,6) 3(3,4) by auto
    then show ?thesis
      using True 1(1) 2(1) 3(1) dq dk [of rem_keys] assms(3) by (simp add: exchange_qp_info_def)
  next
    case False
    obtain n1 s1 where 1: "send_data s (enc_qp loc) = Some (n1, s1)" "no_errors s1" "s_out s1 = s_out s @ enc_qp loc" "s_in s1 = enc_qp rem @ enc_keys rem_keys @ rest"
      using send [OF assms(1), of "enc_qp loc"] lq assms(2) by auto
    obtain n2 s2 where 2: "recv_data s1 (replicate 24 0) = Some (n2, enc_qp rem, s2)" "no_errors s2" "s_in s2 = enc_keys rem_keys @ rest" "s_out s2 = s_out s @ enc_qp loc"
      using recv_data_get [OF 1(2,4), of "replicate 24 0"] lq [of rem] 1(3) by auto
    obtain n3 s3 where 3: "send_data s2 (enc_keys keys) = Some (n3, s3)" "no_errors s3" "s_out s3 = (s_out s @ enc_qp loc) @ enc_keys keys" "s_in s3 = enc_keys rem_keys @ rest"
      using send [OF 2(2), of "enc_keys keys"] lk assms(4,6) 2(3,4) by auto
    obtain n4 s4 where "recv_data s3 junk = Some (n4, enc_keys rem_keys, s4)" "no_errors s4" "s_in s4 = rest" "s_out s4 = (s_out s @ enc_qp loc) @ enc_keys keys"
      using recv_data_get [OF 3(2,4), of junk] lk assms(3,5,6) 3(3) by auto
    then show ?thesis
      using False 1(1) 2(1) 3(1) dq dk [of rem_keys] assms(3) by (simp add: exchange_qp_info_def)
  qed
qed

text \<open>After \<open>init_com_hndl\<close>: all objects exist, and the queue pair is initialised.\<close>

definition all_objs :: "nat \<Rightarrow> ib_obj set" where
  "all_objs n = {Ctx, Pd, Comp_Chan, Cq, Qp} \<union> Mr ` {0..<n}"

definition set_up :: "u64 \<Rightarrow> mem_chunk list \<Rightarrow> ib_conn \<Rightarrow> bool" where
  "set_up guest_mem cs c \<longleftrightarrow> length (ch_mrs (cn_hndl c)) = length cs \<and> map mr_addr (ch_mrs (cn_hndl c)) = map c_ptr cs \<and>
     map mr_length (ch_mrs (cn_hndl c)) = map c_size cs \<and> cn_loc_keys c = map mr_rkey (ch_mrs (cn_hndl c)) \<and>
     qi_addr (cn_loc c) = guest_mem \<and> ch_guest_mem (cn_hndl c) = guest_mem"

lemma create_qp_ok:
  assumes "object_rules v view" and "qp_rules v view" and "Qp \<notin> vw_objs (view h)" and "{Pd, Cq} \<subseteq> vw_objs (view h)"
  shows "ends (create_qp v port) h (\<lambda>_ h'. vw_objs (view h') = insert Qp (vw_objs (view h)) \<and> vw_qp (view h') = [To_Init (word_of_nat port)])"
proof -
  obtain n h1 where 1: "v_create_qp v h = (Some n, h1)" "view h1 = (view h)\<lparr>vw_objs := insert Qp (vw_objs (view h)), vw_qp := []\<rparr>"
    using assms(1,3,4) unfolding object_rules_def by simp metis
  obtain h2 where "v_modify_qp v h1 (To_Init (word_of_nat port)) = (0, h2)" "view h2 = (view h1)\<lparr>vw_qp := [To_Init (word_of_nat port)]\<rparr>"
    using modify_ok [OF assms(2), of h1 "To_Init (word_of_nat port)"] 1 by auto
  then show ?thesis
    using 1 by (auto simp: create_qp_def ends_def ib_then_def obtained_def not_negative_def ib_return_def)
qed

lemma fill_loc_ok:
  assumes "qp_rules v view"
  shows "ends (fill_loc_qp_info v guest_mem keys port pa mrs qp_num) h (\<lambda>c h'. view h' = view h \<and> cn_used_port c = word_of_nat port \<and>
    ch_mrs (cn_hndl c) = mrs \<and> cn_loc_keys c = map mr_rkey mrs \<and> qi_addr (cn_loc c) = guest_mem \<and> ch_guest_mem (cn_hndl c) = guest_mem)"
proof -
  have "view (snd (v_random v h)) = view h"
    using assms by (simp add: qp_rules_def)
  then show ?thesis
    by (auto simp: fill_loc_qp_info_def ends_def local_qp_info_def split: prod.split)
qed

lemma init_ok:
  assumes "verbs_contract v view ndev ports act" and "\<exists>d < ndev. \<exists>p \<le> unat (ports d). act d p" and "vw_objs (view h) = {}"
  shows "ends (init_com_hndl v mp guest_mem keys mm) h (\<lambda>c h'. vw_objs (view h') = all_objs (unat (count mm)) \<and>
    vw_qp (view h') = [To_Init (cn_used_port c)] \<and> set_up guest_mem (mapping_list mm) c)"
proof -
  have d: "device_rules v view ndev ports act" and ob: "object_rules v view" and q: "qp_rules v view"
    using assms(1) by (auto simp: verbs_contract_def)
  obtain h0 where h0: "v_get_device_list v h = (Some ndev, h0)" "view h0 = view h"
    using query_ok(3) [OF d] by blast
  have f: "ends (find_device v \<lparr>pa_active = False, pa_lid = 0, pa_max_msg_sz = 0\<rparr> [0..<ndev]) h0 (\<lambda>_ h'. vw_objs (view h') = {Ctx})"
    using assms(2,3) h0(2) by (intro find_device_ok [OF d ob]) auto
  have l: "length (mapping_list mm) = unat (count mm)"
    by (simp add: mapping_list_def)
  show ?thesis
    unfolding init_com_hndl_def
  proof (intro ends_then ends_obtained exI [of _ ndev] exI [of _ h0] conjI h0 ends_mono [OF f], clarify)
    fix port pa h1
    assume h1: "vw_objs (view h1) = {Ctx}"
    let ?mrs = "Mr ` {0..<unat (count mm)}"
    let ?Q = "\<lambda>c h'. vw_objs (view h') = all_objs (unat (count mm)) \<and> vw_qp (view h') = [To_Init (cn_used_port c)] \<and> set_up guest_mem (mapping_list mm) c"
    have 5: "ends (create_qp v port) h' (\<lambda>qp_num h'. ends (fill_loc_qp_info v guest_mem keys port pa mrs qp_num) h' ?Q)"
      if "vw_objs (view h') = {Cq, Comp_Chan, Ctx, Pd} \<union> ?mrs" "length mrs = length (mapping_list mm)" "map mr_addr mrs = map c_ptr (mapping_list mm)"
        "map mr_length mrs = map c_size (mapping_list mm)" for mrs h'
      using that
      by (intro ends_mono [OF create_qp_ok [OF ob q]] ends_mono [OF fill_loc_ok [OF q]]) (auto simp: all_objs_def set_up_def l)
    show "ends (ib_then (created (\<lambda>h. v_create v h Pd)) (\<lambda>_. ib_then (register_mrs v (p_use_odp mp) 0 (mapping_list mm)) (\<lambda>mrs.
        ib_then (created (\<lambda>h. v_create v h Comp_Chan)) (\<lambda>_. ib_then (created (\<lambda>h. v_create v h Cq)) (\<lambda>_.
        ib_then (create_qp v port) (fill_loc_qp_info v guest_mem keys port pa mrs)))))) h1 ?Q"
      by (intro ends_then create_ok [OF ob] ends_mono [OF register_mrs_ok [OF ob]] 5) (auto simp: h1 l)
  qed
qed

lemma con_ok:
  assumes "qp_rules v view" and "Qp \<in> vw_objs (view h)" and "vw_qp (view h) = [To_Init p]"
  shows "ends (con_com_buf v c) h (\<lambda>_ h'. vw_objs (view h') = vw_objs (view h) \<and>
    vw_qp (view h') = [To_Init p, To_RTR (qi_qpn (cn_rem c)) (qi_psn (cn_rem c)) (qi_lid (cn_rem c)) (cn_used_port c), To_RTS (qi_psn (cn_loc c))])"
proof -
  let ?r = "To_RTR (qi_qpn (cn_rem c)) (qi_psn (cn_rem c)) (qi_lid (cn_rem c)) (cn_used_port c)"
  obtain h1 where 1: "v_modify_qp v h ?r = (0, h1)" "view h1 = (view h)\<lparr>vw_qp := [To_Init p, ?r]\<rparr>"
    using modify_ok [OF assms(1,2), of ?r] assms(3) by auto
  obtain h2 where "v_modify_qp v h1 (To_RTS (qi_psn (cn_loc c))) = (0, h2)"
    "view h2 = (view h1)\<lparr>vw_qp := [To_Init p, ?r, To_RTS (qi_psn (cn_loc c))]\<rparr>"
    using modify_ok [OF assms(1), of h1 "To_RTS (qi_psn (cn_loc c))"] assms(2) 1(2) by auto
  then show ?thesis
    using 1 by (auto simp: con_com_buf_def ends_def ib_then_def zero_or_errno_def)
qed

lemma dereg_ok:
  assumes "object_rules v view" and "vw_objs (view h) = {Ctx, Pd} \<union> Mr ` set is" and "distinct is"
  shows "ends (dereg_mrs v is) h (\<lambda>_ h'. view h' = (view h)\<lparr>vw_objs := {Ctx, Pd}\<rparr>)"
  using assms(2,3)
proof (induction "is" arbitrary: h)
  case (Cons i "is")
  have "ends (ib_then (not_negative (\<lambda>h. v_destroy v h (Mr i))) (\<lambda>_. dereg_mrs v is)) h (\<lambda>_ h'. view h' = (view h)\<lparr>vw_objs := {Ctx, Pd}\<rparr>)"
  proof (intro ends_then destroy_ok [OF assms(1)])
    fix h' assume h': "view h' = (view h)\<lparr>vw_objs := vw_objs (view h) - {Mr i}\<rparr>"
    have "vw_objs (view h') = {Ctx, Pd} \<union> Mr ` set is"
      using Cons.prems h' by auto
    then show "ends (dereg_mrs v is) h' (\<lambda>_ h'. view h' = (view h)\<lparr>vw_objs := {Ctx, Pd}\<rparr>)"
      using Cons.IH [of h'] Cons.prems(2) h' by simp
  qed (use Cons.prems(1) in auto)
  then show ?case by (simp add: ends_def)
qed (simp add: ends_def)

lemma destroy_all_ok:
  assumes "object_rules v view" and "vw_objs (view h) = all_objs (length (ch_mrs (cn_hndl c)))"
  shows "ends (destroy_com_hndl v c) h (\<lambda>_ h'. vw_objs (view h') = {} \<and> vw_qp (view h') = vw_qp (view h))"
  unfolding destroy_com_hndl_def
  using assms(2)
  by (auto intro!: ends_then destroy_ok [OF assms(1)] ends_mono [OF dereg_ok [OF assms(1)]] simp: all_objs_def)

text \<open>What a side sends over the socket, and the connection of one side with a peer that sends \<open>rem\<close> and \<open>rem_keys\<close>.\<close>

definition wire :: "ib_conn \<Rightarrow> bytes" where
  "wire c = enc_qp (cn_loc c) @ enc_keys (cn_loc_keys c)"

definition joined :: "ib_conn \<Rightarrow> qp_info \<Rightarrow> u32 list \<Rightarrow> ib_conn" where
  "joined c rem rem_keys = c\<lparr>cn_rem := rem, cn_hndl := (cn_hndl c)\<lparr>ch_rem_addr := qi_addr rem, ch_rem_keys := rem_keys\<rparr>\<rparr>"

definition transitions :: "ib_conn \<Rightarrow> qp_info \<Rightarrow> qp_attr list" where
  "transitions c rem = [To_Init (cn_used_port c), To_RTR (qi_qpn rem) (qi_psn rem) (qi_lid rem) (cn_used_port c), To_RTS (qi_psn (cn_loc c))]"

lemma joined_sel:
  "cn_loc (joined c rem rem_keys) = cn_loc c"
  "ch_mrs (cn_hndl (joined c rem rem_keys)) = ch_mrs (cn_hndl c)"
  "ch_rem_addr (cn_hndl (joined c rem rem_keys)) = qi_addr rem"
  "ch_rem_keys (cn_hndl (joined c rem rem_keys)) = rem_keys"
  "transitions (joined c rem rem_keys) = transitions c"
  by (simp_all add: joined_def transitions_def fun_eq_iff)

lemma connect_ok:
  assumes "verbs_contract v view ndev ports act" and "init_com_hndl v mp guest_mem keys mm h = Inr (c, h0)"
    and "vw_objs (view h0) = all_objs (unat (count mm))" and "vw_qp (view h0) = [To_Init (cn_used_port c)]" and "set_up guest_mem (mapping_list mm) c"
    and "no_errors s" and "s_in s = enc_qp rem @ enc_keys rem_keys @ rest" and "length rem_keys = unat (count mm)"
    and "length junk = 4 * unat (count mm)" and "unat (count mm) < 2 ^ 32"
  shows "\<exists>s' h'. connect v mp guest_mem keys junk server mm s h = Some (Inr ((joined c rem rem_keys, s'), h')) \<and>
    vw_objs (view h') = all_objs (unat (count mm)) \<and> vw_qp (view h') = transitions c rem \<and>
    s_out s' = s_out s @ wire c \<and> s_in s' = rest"
proof -
  let ?c = "joined c rem rem_keys"
  have n: "length (ch_mrs (cn_hndl c)) = unat (count mm)" "length (cn_loc_keys c) = unat (count mm)"
    using assms(5) by (simp_all add: set_up_def mapping_list_def)
  obtain s' where x: "exchange_qp_info server (unat (count mm)) (cn_loc c) (cn_loc_keys c) junk s = Some (rem, rem_keys, s')"
    "s_out s' = s_out s @ wire c" "s_in s' = rest"
    using exchange_qp_info_agrees [OF assms(6,7,8) n(2) assms(9,10), of server "cn_loc c"] by (auto simp: wire_def)
  have "ends (con_com_buf v ?c) h0 (\<lambda>_ h'. vw_objs (view h') = all_objs (unat (count mm)) \<and> vw_qp (view h') = transitions c rem)"
    using assms(1,3,4)
    by (intro ends_mono [OF con_ok [of v view h0 "cn_used_port c"]]) (auto simp: verbs_contract_def all_objs_def joined_def transitions_def)
  then obtain h' where "con_com_buf v ?c h0 = Inr ((), h')" "vw_objs (view h') = all_objs (unat (count mm))" "vw_qp (view h') = transitions c rem"
    by (auto simp: ends_def)
  then show ?thesis
    using x assms(2) n by (simp add: connect_def ib_then_def ib_return_def joined_def)
qed

section \<open>Properties\<close>


definition ibv0 :: "ib_view ibv" where
  "ibv0 = \<lparr>
    v_get_device_list = (\<lambda>h. (Some 2, h)),
    v_open_device = (\<lambda>h d. (True, h\<lparr>vw_objs := insert Ctx (vw_objs h), vw_dev := d\<rparr>)),
    v_query_device_ex = (\<lambda>h. (0, h)),
    v_query_device = (\<lambda>h. (0, 1, h)),
    v_query_port = (\<lambda>h p pa. if p = 0 then (22, pa, h) else (0, \<lparr>pa_active = (vw_dev h = 1 \<and> p = 1), pa_lid = 3, pa_max_msg_sz = 0x40000000\<rparr>, h)),
    v_create = (\<lambda>h b. (True, h\<lparr>vw_objs := insert b (vw_objs h)\<rparr>)),
    v_reg_mr = (\<lambda>h i c odp. (Some (7, 8), h\<lparr>vw_objs := insert (Mr i) (vw_objs h)\<rparr>)),
    v_create_qp = (\<lambda>h. (Some 5, h\<lparr>vw_objs := insert Qp (vw_objs h), vw_qp := []\<rparr>)),
    v_modify_qp = (\<lambda>h a. if qp_next (vw_qp h) a then (0, h\<lparr>vw_qp := vw_qp h @ [a]\<rparr>) else (22, h)),
    v_random = (\<lambda>h. (0x123456, h)),
    v_destroy = (\<lambda>h b. if b \<in> vw_objs h \<and> (\<forall>b' \<in> vw_objs h. b \<notin> needs b') then (0, h\<lparr>vw_objs := vw_objs h - {b}\<rparr>) else (16, h)),
    v_req_notify_cq = (\<lambda>h. (0, h)), v_post_recv = (\<lambda>h k. (0, h)), v_get_cq_event = (\<lambda>h. (0, h)), v_ack_cq_events = (\<lambda>h. h), v_errno = (\<lambda>_. 22)\<rparr>"

definition view0 :: ib_view where
  "view0 = \<lparr>vw_objs = {}, vw_dev = 0, vw_qp = []\<rparr>"

lemma ibv0_contract: "verbs_contract ibv0 (\<lambda>h. h) 2 (\<lambda>_. 1) (\<lambda>d p. d = 1 \<and> p = 1)"
  by (auto simp: verbs_contract_def device_rules_def object_rules_def qp_rules_def ibv0_def)

definition one_chunk :: mem_mappings_t where
  "one_chunk = \<lparr>mem_chunks = (\<lambda>_. \<lparr>c_size = 0x5000, c_ptr = 0x7f0000000000\<rparr>), count = 1\<rparr>"




end
