(* ===== verification/Spec2Isabelle.thy ===== *)
theory Spec2Isabelle
  imports Cpu_X86 Uhyve_Main Vcpu_Exit Gdb_Init Net_Device Thread_Sync Main_Proxy Boot_Aarch64 Rdma_Connection
begin

text \<open>
  Hermit-caves: the hypervisor \<open>uhyve\<close> and the proxy of the unikernel HermitCore.

  \<^bold>\<open>The program.\<close>  The command \<open>proxy\<close> (\<open>src/main.c\<close>) starts a HermitCore application as the only program of a small virtual
  machine.  \<open>uhyve_init\<close> (\<open>src/uhyve.c\<close>) opens KVM and gets the guest in one of three ways: the ELF file is loaded into new guest
  memory, a checkpoint is read from files, or the state arrives from another host as an incoming migration.  \<open>uhyve_loop\<close> starts one thread
  per virtual CPU.  Each runs \<open>vcpu_loop\<close>: it lets KVM run the guest until the guest leaves with an I/O access, which is a
  hypercall (write, read, open, close, seek, unlink, command line, network, end of the program) on an argument block in guest memory, or with an
  exception.  The addresses in the blocks are virtual, so the hypervisor walks the guest's page tables in software
  (\<open>src/uhyve-x86_64.c\<close>, \<open>src/uhyve-aarch64.c\<close>).  Around this core there are timer-driven checkpoints, which the vCPU threads write together
  between two barriers; cold and live migration over TCP or InfiniBand (\<open>src/uhyve-migration*.c\<close>); a network device with two rings in
  shared memory (\<open>src/uhyve-net.[ch]\<close>); and a stub for the GNU debugger (\<open>src/uhyve-gdb.c\<close>).

  \<^bold>\<open>Conventions.\<close>  Machine integers are words of their width.  Guest memory is a function from 64-bit addresses to bytes, so a pointer
  \<open>guest_mem + a\<close> of the C code is the address \<open>a\<close>; addresses are not checked against the size of the memory, as in the code.  Structs in guest
  memory, in files and on sockets are byte runs at the offsets of the C layout.  A call of \<open>err\<close> or \<open>exit\<close> is an error value or \<open>None\<close>.
  What the hypervisor does not implement is an argument of the definitions: the operating system (the record \<open>posix\<close> and smaller records per
  component), the answers of KVM (the list of results of \<open>KVM_RUN\<close>, \<open>KVM_TRANSLATE\<close>, CPUID tables, vCPU states), the InfiniBand verbs library (the
  records \<open>verbs\<close> and \<open>ibv\<close>), the socket (a record with scripts of how many bytes each call moves), and uninitialised memory.  The theorems name what they
  use of them as predicates: \<open>write_contract\<close>, \<open>read_contract\<close>, \<open>open_contract\<close>, \<open>no_errors\<close>, \<open>hca_contract\<close>, \<open>verbs_contract\<close>.

  \<^bold>\<open>Theories.\<close>

    \<^item> \<open>Hv_Prelude\<close>: words, little-endian encodings, loads and stores, and the interface \<open>codec\<close> (with \<open>bicodec\<close>) of an object of fixed size, interpreted for
      integers of 16, 32 and 64 bits here, and for the structs that are sent or saved in \<open>Migration_Channel\<close> and \<open>Rdma_Connection\<close>.
      \<open>C_Text\<close>: \<open>printf\<close>, \<open>scanf\<close>, \<open>atoi\<close> and \<open>strtoull\<close> as far as the code uses them, with the lemmas that a number printed is the number read.
    \<^item> \<open>Translation_Spec\<close>: the interface \<open>translation\<close>, what hypercalls rely on in \<open>virt_to_phys\<close>.  \<open>Paging_X86\<close> and \<open>Paging_Aarch64\<close>: the walks of
      \<open>src/uhyve-x86_64.c\<close> and \<open>src/uhyve-aarch64.c\<close> with the interpretations \<open>x86\<close> and \<open>a64\<close>.
    \<^item> \<open>Cpu_X86\<close>: descriptors, boot page tables, long mode, CPUID filter, saving and restoring of a vCPU.  \<open>Boot\<close>, \<open>Boot_Aarch64\<close>: \<open>init_kvm_arch\<close> and
      \<open>load_kernel\<close> of the two architectures.  \<open>Host_Utils\<close>: \<open>src/utils.c\<close> and \<open>memparse\<close>.
    \<^item> \<open>Hypercalls\<close>, \<open>Hypercalls_Cmdline\<close>: one definition \<open>port_*\<close> per case of the inner switch of \<open>vcpu_loop\<close>.  \<open>Vcpu_Loop\<close>: the dispatch, \<open>handle_port\<close>,
      \<open>handle_exit\<close>, \<open>vcpu_step\<close> and \<open>vcpu_run\<close>.  \<open>Vcpu_Exit\<close>: \<open>uhyve_exit\<close> and \<open>uhyve_atexit\<close> as steps of the threads.
    \<^item> \<open>Mem_Mappings\<close>: guest-physical regions and the guest's free list.  \<open>Checkpoint\<close>: the scan of the page tables and the files of a checkpoint.
      \<open>Chk_Protocol\<close>: the two barriers of \<open>timer_handler\<close> and \<open>sigusr_handler\<close> as a step relation.  \<open>Restart\<close>: the configuration file, \<open>uhyve_init\<close> and the state with which
      a vCPU starts.  \<open>Thread_Sync\<close>: the threads at the start after a restart and at the end of a migration.
    \<^item> \<open>Migration_Channel\<close>: \<open>send_data\<close> and \<open>recv_data\<close>, with the interface \<open>channel\<close> of a socket that moves a byte string, interpreted for TCP here and for the
      proxy's socket in \<open>Main_Proxy\<close>; the TCP copy phases.  \<open>Migration\<close>: both sides of a migration.  \<open>Mig_Config\<close>: parameter file and address.
      \<open>Rdma\<close>, \<open>Rdma_Connection\<close>: \<open>src/uhyve-migration-rdma.c\<close>.
    \<^item> \<open>Net_Device\<close>: the rings and their two threads, with the interface \<open>bounded_queue\<close>.  \<open>Net_Config\<close>: \<open>src/uhyve-net.c\<close>.
    \<^item> \<open>Gdb_Packet\<close>, \<open>Gdb_Breakpoints\<close> (interface \<open>keyed_store\<close> of the list of breakpoints), \<open>Gdb_Stub\<close>, \<open>Gdb_Init\<close>: \<open>src/uhyve-gdb.c\<close>.
    \<^item> \<open>Main_Proxy\<close>: \<open>handle_syscalls\<close> of \<open>src/main.c\<close>.  \<open>Uhyve_Main\<close>: \<open>main\<close>, \<open>env_init\<close>, \<open>uhyve_loop\<close>, \<open>vcpu_init\<close>.

  \<^bold>\<open>What is shown.\<close>  The numbers C1 to C40 mark the main theorems.

    \<^item> Hypercalls: a write sends, and a read stores, what the guest has at its virtual addresses, across pages and up to the first short transfer, and
      changes nothing else; no sequence of exits opens \<open>/dev/kvm\<close> for the guest; the strings of the command line arrive, and never outside the guest's structure; a
      buffer that is not mapped makes the hypervisor loop forever.  The theorem below composes the boot page tables, the walk, the hypercall and the dispatch.
    \<^item> Checkpoints: a full checkpoint, and a chain of incremental ones, restores the memory; the threads write, in every interleaving, what one sequential
      handler would write, no guest code runs meanwhile, and in a fair run every checkpoint completes; \<open>uhyve_init\<close> after a sequence of checkpoints
      starts with the last one; a restart races with the counter of the checkpoints, and \<open>uhyve_loop\<close> then overwrites a word of the guest.
    \<^item> Migration: both sides agree on metadata, CPU states and memory over a socket that may split the data anywhere; over InfiniBand both ends get
      connected, the copy phases end and write exactly the bytes that had to be sent, and the objects of the library are released in a legal order; the receive loop takes
      errors for progress, and a cold migration without a region list sends no memory.
    \<^item> Boot: the ELF segments are where the program header says, the boot header is filled, guest memory is backed by KVM regions
      outside the gap below 4 GiB, the first GiB is mapped to itself.
    \<^item> Network: rings are bounded FIFO queues and the two threads move packets in order.  Debugger: packets round-trip, breakpoints never change the
      program the guest is given back, memory written is memory read.  Proxy: \<open>handle_syscalls\<close> refines a specification over whole messages.

  \<^bold>\<open>Loops.\<close>  The page loops of the two transfer hypercalls, the walk of the free list and the loop that writes a packet to the tap device take a fuel: they may
  run forever, and \<open>None\<close> is no result within the fuel.  The theorems on them ask for as much fuel as there are bytes or list elements, which is enough because every
  iteration on a mapped page, a list node or a working device consumes one at least, and conclude that there is a result.  The loops on sockets and on the completion queue are partial functions into
  \<open>option\<close>, and again the theorems state that they return.  All other loops are total functions.

  \<^bold>\<open>Not modelled.\<close>  Diagnostic output (\<open>print_registers\<close>, \<open>show_registers\<close>, \<open>print_send_wr_info\<close>, verbose messages, \<open>gettimeofday\<close>), which changes no state; the macros of
  \<open>src/queue.h\<close>, a vendored header, beyond the singly linked lists that are used; code under \<open>#if 0\<close>; the debugger stub and the migration functions of aarch64, which are empty; the
  preprocessor and build files.  The scheduling of the threads is modelled where they synchronise (\<open>Chk_Protocol\<close>, \<open>Thread_Sync\<close>, \<open>Vcpu_Exit\<close>); a hypercall is one step, so that
  guest threads that change the argument block while it is served are left out.
\<close>

unbundle bit_operations_syntax

section \<open>A hypercall of a guest that was just started\<close>

text \<open>A guest with an argument block at \<open>0x20000\<close> for five bytes at \<open>0x30000\<close>.\<close>

definition hello_mem :: gmem where
  "hello_mem = store_bytes (store64 (store64 (store32 (snd (snd (setup_system zero_sregs zero_vcpu (\<lambda>_. 0) 0)))
     0x20000 1) 0x20004 0x30000) 0x2000C 5) 0x30000 [72, 101, 108, 108, 111]"

text \<open>
  C3.  A guest that runs on the page tables \<open>setup_system\<close> has built, and leaves by the port of the write hypercall with a buffer in the first
  GiB: the hypervisor sends the bytes at the addresses of the buffer, taken as physical addresses, up to the first short write, all of them if
  the descriptor takes every write in full; it reports their number, changes nothing else in guest memory, and the loop goes on.
\<close>

theorem booted_guest_writes:
  assumes "keeps_tables (snd (snd (setup_system st v mem 0))) (vm_mem vm)" and "e_v2p e = virt_to_phys"
    and "arg = ucast raddr" and "buf = load64 (vm_mem vm) (arg + wr_buf)" and "len = load64 (vm_mem vm) (arg + wr_len)"
    and "write_contract (e_posix e) (load32 (vm_mem vm) (arg + wr_fd)) out"
    and "unat buf + unat len \<le> 2 ^ 30" and "unat len \<le> fuel"
  shows "\<exists>n vm'. vcpu_step e fuel (RunExit (KVM_EXIT_IO 0x400 raddr)) vm = Some (Continue vm') \<and> unat n \<le> unat len \<and>
    out (vm_os vm') = out (vm_os vm) @ load_bytes (vm_mem vm) buf (unat n) \<and>
    vm_mem vm' = store64 (vm_mem vm) (arg + wr_len) n \<and>
    (write_full (e_posix e) (load32 (vm_mem vm) (arg + wr_fd)) \<longrightarrow> n = len)"
proof -
  note tables = assms(1) [unfolded setup_system_core0]
  have slot: "unat (buf + word_of_nat i) = unat buf + i" if "i < unat len" for i
    using that assms(7) by (subst unat_add_lem [THEN iffD1]) (simp_all add: unat_of_nat)
  have m: "mapped_low (vm_mem vm) (buf + word_of_nat i)" "fst (virt_to_phys (vm_mem vm) (buf + word_of_nat i)) = buf + word_of_nat i"
    if "i < unat len" for i
    using booted_translation [OF tables, of "buf + word_of_nat i"] slot [OF that] that assms(7) by simp_all
  obtain w os' where "write_loop virt_to_phys (e_posix e) fuel arg len 0 (vm_mem vm) (vm_os vm) = Some (w, os')"
    and w: "unat w \<le> unat len" and "out os' = out (vm_os vm) @ take (unat w) (x86.virt_bytes (vm_mem vm) buf (unat len))"
    and "write_full (e_posix e) (load32 (vm_mem vm) (arg + wr_fd)) \<longrightarrow> w = len"
    using x86.write_loop_sends [OF assms(6), of len 0 fuel "vm_os vm"] assms(4,8) m(1) by auto
  moreover have "take (unat w) (x86.virt_bytes (vm_mem vm) buf (unat len)) = load_bytes (vm_mem vm) buf (unat w)"
    using w m(2) by (intro nth_equalityI) (simp_all add: x86.virt_bytes_def load_bytes_def)
  ultimately show ?thesis
    using assms(2,3,5)
    by (intro exI [of _ w]) (simp add: vcpu_step_def handle_exit_def handle_port_def port_defs port_write_def)
qed

theorem booted_guest_writes_witness:
  "\<exists>(n :: u64) vm'. vcpu_step pipe_env 5 (RunExit (KVM_EXIT_IO 0x400 0x20000)) (pipe_vm hello_mem []) = Some (Continue vm') \<and> unat n \<le> 5 \<and>
     snd (vm_os vm') = take (unat n) [72, 101, 108, 108, 111]"
proof -
  have other: "load64 (store_bytes m 0x30000 [72, 101, 108, 108, 111]) a = load64 m a" if "unat a + 8 \<le> 0x30000" for m a
    using that by (simp add: load64_def load_store_other disj_num)
  have l: "load64 hello_mem 0x20004 = 0x30000" "load64 hello_mem 0x2000C = 5"
    unfolding hello_mem_def by (simp_all add: other load64_store64_other disj_num)
  have all: "load_bytes hello_mem 0x30000 5 = [72, 101, 108, 108, 111]"
    unfolding hello_mem_def by (subst load_store_same) simp_all
  have b: "load_bytes hello_mem 0x30000 n = take n [72, 101, 108, 108, 111]" if "n \<le> 5" for n
    using that unfolding all [symmetric] by (simp add: load_bytes_def take_map)
  have k: "keeps_tables (snd (snd (setup_system zero_sregs zero_vcpu (\<lambda>_. 0) 0))) hello_mem"
    unfolding keeps_tables_def hello_mem_def
    by (auto simp: store_bytes_out store64_outside store32_outside in_run_nat)
  let ?vm = "pipe_vm hello_mem []"
  have vm: "vm_mem ?vm = hello_mem" "vm_os ?vm = ([], [])" and e: "e_v2p pipe_env = virt_to_phys" "e_posix pipe_env = pipe_posix"
    by (simp_all add: pipe_vm_def pipe_env_def)
  have "\<exists>n vm'. vcpu_step pipe_env 5 (RunExit (KVM_EXIT_IO 0x400 0x20000)) ?vm = Some (Continue vm') \<and> unat n \<le> unat (5::u64) \<and>
      snd (vm_os vm') = snd (vm_os ?vm) @ load_bytes (vm_mem ?vm) 0x30000 (unat n) \<and> vm_mem vm' = store64 (vm_mem ?vm) (0x20000 + wr_len) n \<and>
      (write_full (e_posix pipe_env) (load32 (vm_mem ?vm) (0x20000 + wr_fd)) \<longrightarrow> n = 5)"
    by (rule booted_guest_writes [of zero_sregs zero_vcpu "\<lambda>_. 0" ?vm]) (simp_all add: vm e block_offsets k l pipe_write_contract)
  then show ?thesis
    by (elim exE conjE, intro exI conjI) (assumption, simp, simp add: vm b)
qed

end
